(* ===== verification/Go_Prelude.thy ===== *)
theory Go_Prelude
  imports Main "HOL-Library.Signed_Division"
begin

text \<open>
  What every component shares: Go's 64-bit integers as \<open>int\<close> with the wrap-around written
  out, Go's truncating division, and the functions of the packages strings, strconv and fmt
  that the watchdog calls. Go strings are modelled as \<open>string\<close>, one character per byte; the
  functions that depend on Unicode tables in Go (ToLower, TrimSpace, the \<open>%q\<close> verb) are exact
  on ASCII text, which is what the environment variables, host names and protocol lines hold.
  An error value is the text its \<open>Error\<close> method returns.
\<close>

named_theorems in64_intros \<open>facts that bound a 64-bit value\<close>

type_synonym error = string
type_synonym 'a res = "error + 'a"

section \<open>64-bit integers\<close>

text \<open>The value a Go \<open>int\<close> (or a \<open>time.Duration\<close>, an int64 of nanoseconds) holds
  after an operation whose mathematical result is \<open>x\<close>.\<close>

definition wrap64 :: "int \<Rightarrow> int" where
  "wrap64 x = (x + 2 ^ 63) mod 2 ^ 64 - 2 ^ 63"

definition in64 :: "int \<Rightarrow> bool" where
  "in64 x \<longleftrightarrow> - (2 ^ 63) \<le> x \<and> x < 2 ^ 63"

abbreviation max_int64 :: int where
  "max_int64 \<equiv> 9223372036854775807"

text \<open>Go's \<open>/\<close> and \<open>%\<close> truncate towards zero.\<close>

definition go_div :: "int \<Rightarrow> int \<Rightarrow> int" where
  "go_div a b = a sdiv b"

definition go_mod :: "int \<Rightarrow> int \<Rightarrow> int" where
  "go_mod a b = a smod b"

lemma in64_wrap64 [simp, in64_intros]: "in64 (wrap64 x)"
proof -
  have "0 \<le> (x + 2 ^ 63) mod 2 ^ 64 \<and> (x + 2 ^ 63) mod 2 ^ 64 < 2 ^ 64"
    by simp
  then show ?thesis by (simp add: in64_def wrap64_def)
qed

lemma wrap64_id: "in64 x \<Longrightarrow> wrap64 x = x"
  by (simp add: in64_def wrap64_def)

lemma wrap64_wrap64 [simp]: "wrap64 (wrap64 x) = wrap64 x"
  by (simp add: wrap64_id)

lemma in64I [intro]: "- (2 ^ 63) \<le> x \<Longrightarrow> x < 2 ^ 63 \<Longrightarrow> in64 x"
  by (simp add: in64_def)

lemma in64_nonneg: "0 \<le> x \<Longrightarrow> in64 x \<longleftrightarrow> x < 2 ^ 63"
  by (auto simp: in64_def)

lemma wrap64_nonneg [simp]: "0 \<le> x \<Longrightarrow> x \<le> max_int64 \<Longrightarrow> wrap64 x = x"
  by (rule wrap64_id) (simp add: in64_def)

text \<open>One overflow past the largest value lands on the negative side.\<close>

lemma wrap64_over: "2 ^ 63 \<le> x \<Longrightarrow> x < 2 ^ 64 \<Longrightarrow> wrap64 x = x - 2 ^ 64"
proof -
  assume a: "2 ^ 63 \<le> x" "x < 2 ^ 64"
  have "(x + 2 ^ 63) mod 2 ^ 64 = (x + 2 ^ 63 - 2 ^ 64) mod 2 ^ 64"
    using mod_add_self2 [of "x + 2 ^ 63 - 2 ^ 64" "2 ^ 64"] by (simp add: add.commute)
  also have "\<dots> = x - 2 ^ 63"
    using a by simp
  finally show ?thesis by (simp add: wrap64_def)
qed

lemma go_div_nonneg [simp]: "0 \<le> a \<Longrightarrow> 0 < b \<Longrightarrow> go_div a b = a div b"
  by (simp add: go_div_def signed_divide_int_def sgn_if)

lemma go_mod_nonneg [simp]: "0 \<le> a \<Longrightarrow> 0 < b \<Longrightarrow> go_mod a b = a mod b"
proof -
  assume a: "0 \<le> a" "0 < b"
  then have "go_mod a b = a - (a div b) * b"
    by (auto simp: go_mod_def signed_modulo_int_def signed_divide_int_def sgn_if minus_div_mult_eq_mod)
  also have "\<dots> = a mod b"
    by (rule minus_div_mult_eq_mod)
  finally show ?thesis .
qed

lemma int_div_less_iff: "0 < (d::int) \<Longrightarrow> a div d < m \<longleftrightarrow> a < m * d"
proof
  assume d: "0 < d" and "a div d < m"
  then have "(a div d + 1) * d \<le> m * d" by (intro mult_right_mono) auto
  moreover have "a < (a div d + 1) * d"
    using d pos_mod_bound [of d a] div_mult_mod_eq [of a d] unfolding distrib_right by linarith
  ultimately show "a < m * d" by simp
next
  assume d: "0 < d" and a: "a < m * d"
  show "a div d < m"
  proof (rule ccontr)
    assume "\<not> a div d < m"
    then have "m * d \<le> (a div d) * d" using d by (intro mult_right_mono) auto
    moreover have "(a div d) * d \<le> a"
      using d pos_mod_sign [of d a] div_mult_mod_eq [of a d] by linarith
    ultimately show False using a by simp
  qed
qed

section \<open>Package strings\<close>

definition is_space :: "char \<Rightarrow> bool" where
  "is_space c \<longleftrightarrow> c \<in> {CHR 0x09, CHR 0x0A, CHR 0x0B, CHR 0x0C, CHR 0x0D, CHR '' ''}"

definition trim_with :: "(char \<Rightarrow> bool) \<Rightarrow> string \<Rightarrow> string" where
  "trim_with p s = rev (dropWhile p (rev (dropWhile p s)))"

definition trim_space :: "string \<Rightarrow> string" where
  "trim_space = trim_with is_space"

text \<open>strings.Trim with a cutset, strings.TrimPrefix and strings.TrimSuffix.\<close>

definition trim_cutset :: "string \<Rightarrow> string \<Rightarrow> string" where
  "trim_cutset s cutset = trim_with (\<lambda>c. c \<in> set cutset) s"

definition has_prefix :: "string \<Rightarrow> string \<Rightarrow> bool" where
  "has_prefix s p \<longleftrightarrow> take (length p) s = p"

definition has_suffix :: "string \<Rightarrow> string \<Rightarrow> bool" where
  "has_suffix s p \<longleftrightarrow> has_prefix (rev s) (rev p)"

definition trim_prefix :: "string \<Rightarrow> string \<Rightarrow> string" where
  "trim_prefix s p = (if has_prefix s p then drop (length p) s else s)"

definition trim_suffix :: "string \<Rightarrow> string \<Rightarrow> string" where
  "trim_suffix s p = (if has_suffix s p then take (length s - length p) s else s)"

fun contains :: "string \<Rightarrow> string \<Rightarrow> bool" where
  "contains [] t \<longleftrightarrow> t = []"
| "contains (c # s) t \<longleftrightarrow> has_prefix (c # s) t \<or> contains s t"

definition lower_char :: "char \<Rightarrow> char" where
  "lower_char c = (let n = (of_char c :: nat) in
     if 65 \<le> n \<and> n \<le> 90 then char_of (n + 32) else c)"

definition to_lower :: "string \<Rightarrow> string" where
  "to_lower = map lower_char"

text \<open>strings.Split at a single character: always at least one part.\<close>

fun split_at :: "char \<Rightarrow> string \<Rightarrow> string list" where
  "split_at d [] = [[]]"
| "split_at d (c # s) =
     (if c = d then [] # split_at d s
      else case split_at d s of [] \<Rightarrow> [[c]] | p # ps \<Rightarrow> (c # p) # ps)"

fun join :: "string \<Rightarrow> string list \<Rightarrow> string" where
  "join sep [] = []"
| "join sep [x] = x"
| "join sep (x # y # xs) = x @ sep @ join sep (y # xs)"

text \<open>strings.NewReplacer and Replace: at each position the pairs are tried in order, and what was
  written is not looked at again. strings.ReplaceAll is a replacer of one pair.\<close>

definition first_match :: "(string \<times> string) list \<Rightarrow> string \<Rightarrow> (string \<times> string) option" where
  "first_match ps s = find (\<lambda>p. fst p \<noteq> [] \<and> has_prefix s (fst p)) ps"

function replacer :: "(string \<times> string) list \<Rightarrow> string \<Rightarrow> string" where
  "replacer ps [] = []"
| "replacer ps (c # s) =
     (case first_match ps (c # s) of
        None \<Rightarrow> c # replacer ps s
      | Some (old, new) \<Rightarrow> new @ replacer ps (drop (length old - 1) s))"
  by pat_completeness auto
termination
  by (relation "measure (length \<circ> snd)") auto

definition replace_all :: "string \<Rightarrow> string \<Rightarrow> string \<Rightarrow> string" where
  "replace_all s old new = replacer [(old, new)] s"

text \<open>strings.LastIndex at a character: the text after the last occurrence, if there is one.\<close>

definition after_last :: "char \<Rightarrow> string \<Rightarrow> string option" where
  "after_last c s = (if c \<in> set s then Some (rev (takeWhile (\<lambda>d. d \<noteq> c) (rev s))) else None)"

section \<open>Packages strconv and fmt\<close>

definition digit_char :: "nat \<Rightarrow> char" where
  "digit_char n = char_of (48 + n)"

fun nat_text :: "nat \<Rightarrow> string" where
  "nat_text n = (if n < 10 then [digit_char n] else nat_text (n div 10) @ [digit_char (n mod 10)])"

declare nat_text.simps [simp del]

text \<open>strconv.Itoa, and the \<open>%d\<close> verb.\<close>

definition itoa :: "int \<Rightarrow> string" where
  "itoa i = (if i < 0 then CHR ''-'' # nat_text (nat (- i)) else nat_text (nat i))"

definition digits_value :: "string \<Rightarrow> nat" where
  "digits_value s = foldl (\<lambda>a c. 10 * a + (of_char c - 48)) 0 s"

text \<open>strconv.Atoi: an optional sign and decimal digits, in the range of a 64-bit int.\<close>

definition is_digit :: "char \<Rightarrow> bool" where
  "is_digit c \<longleftrightarrow> 48 \<le> (of_char c :: nat) \<and> (of_char c :: nat) \<le> 57"

definition atoi :: "string \<Rightarrow> int option" where
  "atoi s =
     (let (neg, ds) = (case s of
            c # r \<Rightarrow> if c = CHR ''-'' then (True, r) else if c = CHR ''+'' then (False, r) else (False, s)
          | [] \<Rightarrow> (False, s));
          n = int (digits_value ds);
          v = (if neg then - n else n)
      in if ds = [] \<or> list_ex (\<lambda>c. \<not> is_digit c) ds \<or> \<not> in64 v then None else Some v)"

definition upper_hex :: "nat \<Rightarrow> char" where
  "upper_hex n = (if n < 10 then char_of (48 + n) else char_of (55 + n))"

definition is_alnum :: "char \<Rightarrow> bool" where
  "is_alnum c \<longleftrightarrow>
     (let n = (of_char c :: nat) in 48 \<le> n \<and> n \<le> 57 \<or> 65 \<le> n \<and> n \<le> 90 \<or> 97 \<le> n \<and> n \<le> 122)"

text \<open>net/url's escaping: a byte that is not safe in its place becomes its percent escape.\<close>

definition percent_char :: "(char \<Rightarrow> bool) \<Rightarrow> char \<Rightarrow> string" where
  "percent_char safe c =
     (if safe c then [c]
      else let n = (of_char c :: nat) in [CHR ''%'', upper_hex (n div 16), upper_hex (n mod 16)])"

definition percent_escape :: "(char \<Rightarrow> bool) \<Rightarrow> string \<Rightarrow> string" where
  "percent_escape safe s = concat (map (percent_char safe) s)"

text \<open>net.JoinHostPort.\<close>

definition join_host_port :: "string \<Rightarrow> string \<Rightarrow> string" where
  "join_host_port host port = (if CHR '':'' \<in> set host then ''['' @ host @ '']:'' else host @ '':'') @ port"

definition hex_char :: "nat \<Rightarrow> char" where
  "hex_char n = (if n < 10 then char_of (48 + n) else char_of (87 + n))"

definition hex2 :: "char \<Rightarrow> string" where
  "hex2 c = (let n = (of_char c :: nat) in [hex_char (n div 16), hex_char (n mod 16)])"

text \<open>The \<open>%q\<close> verb (strconv.Quote) on ASCII text; a byte above 127 is part of a printable
  character and is written through.\<close>

definition quote_char :: "char \<Rightarrow> string" where
  "quote_char c =
     (if c = CHR 0x22 then [CHR 0x5C, CHR 0x22]
      else if c = CHR 0x5C then [CHR 0x5C, CHR 0x5C]
      else if c = CHR 0x07 then CHR 0x5C # ''a''
      else if c = CHR 0x08 then CHR 0x5C # ''b''
      else if c = CHR 0x0C then CHR 0x5C # ''f''
      else if c = CHR 0x0A then CHR 0x5C # ''n''
      else if c = CHR 0x0D then CHR 0x5C # ''r''
      else if c = CHR 0x09 then CHR 0x5C # ''t''
      else if c = CHR 0x0B then CHR 0x5C # ''v''
      else if (of_char c :: nat) < 32 \<or> c = CHR 0x7F then CHR 0x5C # ''x'' @ hex2 c
      else [c])"

definition quote :: "string \<Rightarrow> string" where
  "quote s = CHR 0x22 # concat (map quote_char s) @ [CHR 0x22]"

section \<open>Shared lemmas\<close>

lemma has_prefix_Nil [simp]: "has_prefix s []"
  by (simp add: has_prefix_def)

lemma has_prefix_append [simp]: "has_prefix (p @ s) p"
  by (simp add: has_prefix_def)

lemma has_prefix_iff: "has_prefix s p \<longleftrightarrow> (\<exists>t. s = p @ t)"
  by (metis append_eq_conv_conj append_take_drop_id has_prefix_def)

lemma has_suffix_iff: "has_suffix s p \<longleftrightarrow> (\<exists>t. s = t @ p)"
  by (metis has_prefix_iff has_suffix_def rev_append rev_rev_ident)

lemma contains_iff: "contains s t \<longleftrightarrow> (\<exists>a b. s = a @ t @ b)"
proof (induction s)
  case Nil
  then show ?case by simp
next
  case (Cons c s)
  show ?case
  proof
    assume "contains (c # s) t"
    then show "\<exists>a b. c # s = a @ t @ b"
      using Cons.IH by (metis append_Cons append_Nil contains.simps(2) has_prefix_iff)
  next
    assume "\<exists>a b. c # s = a @ t @ b"
    then obtain a b where e: "c # s = a @ t @ b" by blast
    show "contains (c # s) t"
    proof (cases a)
      case Nil
      with e have "has_prefix (c # s) t" by (simp add: has_prefix_iff)
      then show ?thesis by simp
    next
      case (Cons d a')
      with e have "s = a' @ t @ b" by simp
      with Cons.IH show ?thesis by auto
    qed
  qed
qed

lemma contains_self [simp]: "contains t t"
  unfolding contains_iff by (metis append_Nil append_Nil2)

lemma contains_append: "contains s t \<Longrightarrow> contains (a @ s @ b) t"
  by (metis append_assoc contains_iff)

lemma digit_char_code: "n < 10 \<Longrightarrow> (of_char (digit_char n) :: nat) = 48 + n"
  by (simp add: digit_char_def)

lemma nat_text_nonempty [simp]: "nat_text n \<noteq> []"
  by (subst nat_text.simps) simp

text \<open>strconv.Atoi's reading of a decimal text, used to state that \<open>itoa\<close> loses nothing.\<close>

lemma digits_value_snoc: "digits_value (s @ [c]) = 10 * digits_value s + (of_char c - 48)"
  by (simp add: digits_value_def)

lemma digits_value_nat_text: "digits_value (nat_text n) = n"
proof (induction n rule: nat_text.induct)
  case (1 n)
  show ?case
  proof (cases "n < 10")
    case True
    then show ?thesis
      by (subst nat_text.simps) (simp add: digits_value_def digit_char_code)
  next
    case False
    with 1 show ?thesis
      by (subst nat_text.simps) (simp add: digits_value_snoc digit_char_code)
  qed
qed

lemma nat_text_inj: "nat_text m = nat_text n \<Longrightarrow> m = n"
  by (metis digits_value_nat_text)

lemma nat_text_digits: "c \<in> set (nat_text n) \<Longrightarrow> 48 \<le> (of_char c :: nat) \<and> of_char c \<le> (57 :: nat)"
proof (induction n rule: nat_text.induct)
  case (1 n)
  show ?case
  proof (cases "n < 10")
    case True
    with "1.prems" have "c = digit_char n" by (simp add: nat_text.simps [of n])
    with True show ?thesis by (simp add: digit_char_code)
  next
    case False
    then have e: "nat_text n = nat_text (n div 10) @ [digit_char (n mod 10)]"
      by (simp add: nat_text.simps [of n])
    show ?thesis
    proof (cases "c = digit_char (n mod 10)")
      case True
      then show ?thesis by (simp add: digit_char_code)
    next
      case notlast: False
      with "1.prems" e have "c \<in> set (nat_text (n div 10))" by simp
      with "1.IH" False show ?thesis by blast
    qed
  qed
qed

lemma itoa_inj: "itoa i = itoa j \<Longrightarrow> i = j"
proof -
  assume e: "itoa i = itoa j"
  have minus: "CHR ''-'' \<notin> set (nat_text n)" for n
    using nat_text_digits [of "CHR ''-''" n] by auto
  show ?thesis
  proof (cases "i < 0"; cases "j < 0")
    assume "i < 0" "j < 0"
    with e have "nat (- i) = nat (- j)" by (auto simp: itoa_def dest: nat_text_inj)
    with \<open>i < 0\<close> \<open>j < 0\<close> show ?thesis by simp
  next
    assume "\<not> i < 0" "\<not> j < 0"
    with e have "nat i = nat j" by (auto simp: itoa_def dest: nat_text_inj)
    with \<open>\<not> i < 0\<close> \<open>\<not> j < 0\<close> show ?thesis by simp
  next
    assume "i < 0" "\<not> j < 0"
    with e have "CHR ''-'' \<in> set (nat_text (nat j))"
      by (metis itoa_def list.set_intros(1))
    with minus show ?thesis by blast
  next
    assume "\<not> i < 0" "j < 0"
    with e have "CHR ''-'' \<in> set (nat_text (nat i))"
      by (metis itoa_def list.set_intros(1))
    with minus show ?thesis by blast
  qed
qed

lemma split_at_nonempty [simp]: "split_at d s \<noteq> []"
  by (cases s) (auto split: list.splits)

lemma join_Cons: "xs \<noteq> [] \<Longrightarrow> join sep (x # xs) = x @ sep @ join sep xs"
  by (cases xs) auto

lemma first_match_simps [simp]:
  "first_match [] s = None"
  "first_match ((old, new) # ps) s = (if old \<noteq> [] \<and> has_prefix s old then Some (old, new) else first_match ps s)"
  by (simp_all add: first_match_def)

lemma has_prefix_Cons [simp]:
  "has_prefix (c # s) (d # p) = (c = d \<and> has_prefix s p)"
  "has_prefix [] (d # p) = False"
  by (auto simp: has_prefix_def)

text \<open>Text without the character every placeholder begins with is copied.\<close>

lemma replacer_copies:
  assumes "\<And>old new. (old, new) \<in> set ps \<Longrightarrow> \<exists>t. old = d # t" "d \<notin> set u"
  shows "replacer ps (u @ s) = u @ replacer ps s"
  using assms(2)
proof (induction u)
  case Nil
  show ?case by simp
next
  case (Cons c u)
  have "first_match ps (c # u @ s) = None"
    unfolding first_match_def find_None_iff using assms(1) Cons.prems by fastforce
  then show ?case using Cons by simp
qed

end
