(* ===== verification/Gate.thy ===== *)
theory Gate
  imports Go_Prelude
begin

text \<open>
  internal/supervisor/gate.go: the gate the runners wait at, and the production clock's Sleep.
  The gate is a channel that is closed while the gate is open: Pause replaces it by a fresh
  channel, Resume closes it. Channels are numbered; the state keeps the number of the current
  one, the next unused number and the list of closed channels. Closing a closed channel panics in
  Go, which is \<open>None\<close> here. Every operation runs under the mutex, so it is one step; Wait only
  reads the current channel under the mutex and then blocks on that channel, whatever the gate
  does meanwhile.
\<close>

record gate =
  g_open :: nat
  g_fresh :: nat
  g_closed :: "nat list"

section \<open>Channels\<close>

definition make_chan :: "gate \<Rightarrow> nat \<times> gate" where
  "make_chan g = (g_fresh g, g\<lparr>g_fresh := Suc (g_fresh g)\<rparr>)"

definition close_chan :: "nat \<Rightarrow> gate \<Rightarrow> gate option" where
  "close_chan c g = (if c \<in> set (g_closed g) then None else Some (g\<lparr>g_closed := c # g_closed g\<rparr>))"

text \<open>Nothing is ever sent, so a receive is ready exactly when the channel is closed.\<close>

definition recv_ready :: "nat \<Rightarrow> gate \<Rightarrow> bool" where
  "recv_ready c g \<longleftrightarrow> c \<in> set (g_closed g)"

section \<open>The gate's operations\<close>

definition gate_new :: "gate option" where
  "gate_new =
     (let (c, g) = make_chan \<lparr>g_open = 0, g_fresh = 0, g_closed = []\<rparr>
      in close_chan c (g\<lparr>g_open := c\<rparr>))"

definition gate_pause :: "gate \<Rightarrow> gate" where
  "gate_pause g =
     (if recv_ready (g_open g) g
      then (let (c, g') = make_chan g in g'\<lparr>g_open := c\<rparr>)
      else g)"

definition gate_resume :: "gate \<Rightarrow> gate option" where
  "gate_resume g = (if recv_ready (g_open g) g then Some g else close_chan (g_open g) g)"

definition gate_paused :: "gate \<Rightarrow> bool" where
  "gate_paused g \<longleftrightarrow> \<not> recv_ready (g_open g) g"

text \<open>Wait, in its two parts: the channel it reads under the mutex, and the select on that
  channel and the context. When both are ready Go chooses either.\<close>

definition gate_ticket :: "gate \<Rightarrow> nat" where
  "gate_ticket g = g_open g"

inductive wait_returns :: "nat \<Rightarrow> gate \<Rightarrow> error option \<Rightarrow> error option \<Rightarrow> bool" where
  wait_passed: "recv_ready c g \<Longrightarrow> wait_returns c g ctx None"
| wait_cancelled: "ctx = Some e \<Longrightarrow> wait_returns c g ctx (Some e)"

inductive_simps wait_returns_None [simp]: "wait_returns c g ctx None"
inductive_simps wait_returns_Some [simp]: "wait_returns c g ctx (Some e)"

text \<open>Realtime.Sleep: \<open>fired\<close> says whether the timer has fired, \<open>ctx\<close> is the context's
  error.\<close>

inductive sleep_returns :: "int \<Rightarrow> bool \<Rightarrow> error option \<Rightarrow> error option \<Rightarrow> bool" where
  sleep_none: "d \<le> 0 \<Longrightarrow> sleep_returns d fired ctx ctx"
| sleep_timer: "0 < d \<Longrightarrow> fired \<Longrightarrow> sleep_returns d fired ctx None"
| sleep_cancelled: "0 < d \<Longrightarrow> ctx = Some e \<Longrightarrow> sleep_returns d fired ctx (Some e)"

inductive_cases sleep_returnsE: "sleep_returns d fired ctx r"

lemma sleep_error_only_when_cancelled: "sleep_returns d fired ctx (Some e) \<Longrightarrow> ctx = Some e"
  by (erule sleep_returnsE) auto

section \<open>Well-formed gates\<close>

text \<open>Every channel ever made is closed or the current one, and none is closed twice.\<close>

definition gate_ok :: "gate \<Rightarrow> bool" where
  "gate_ok g \<longleftrightarrow>
     distinct (g_closed g) \<and> insert (g_open g) (set (g_closed g)) = {..<g_fresh g}"

definition gate_issued :: "nat \<Rightarrow> gate \<Rightarrow> bool" where
  "gate_issued c g \<longleftrightarrow> c < g_fresh g"

lemmas gate_defs = gate_pause_def gate_resume_def gate_paused_def make_chan_def close_chan_def
  recv_ready_def gate_ticket_def gate_issued_def

lemma gate_ok_new: "gate_new = Some g \<Longrightarrow> gate_ok g \<and> \<not> gate_paused g"
  by (auto simp: gate_new_def gate_defs gate_ok_def)

lemma gate_new_Some [simp]: "gate_new = Some \<lparr>g_open = 0, g_fresh = 1, g_closed = [0]\<rparr>"
  by (simp add: gate_new_def gate_defs)

lemma gate_ok_issued: "gate_ok g \<Longrightarrow> gate_issued c g \<longleftrightarrow> c = g_open g \<or> recv_ready c g"
  unfolding gate_ok_def gate_issued_def recv_ready_def by blast

lemma gate_ok_open: "gate_ok g \<Longrightarrow> g_open g < g_fresh g"
  by (simp add: gate_ok_def set_eq_iff) blast

lemma gate_ok_pause: "gate_ok g \<Longrightarrow> gate_ok (gate_pause g)"
proof (cases "recv_ready (g_open g) g")
  case True
  assume ok: "gate_ok g"
  have "set (g_closed g) = {..<g_fresh g}"
    using True ok by (simp add: gate_ok_def recv_ready_def insert_absorb)
  then show ?thesis
    using True ok by (simp add: gate_ok_def gate_pause_def make_chan_def lessThan_Suc)
next
  case False
  assume "gate_ok g"
  with False show ?thesis by (simp add: gate_pause_def)
qed

lemma gate_resume_Some: "\<exists>g'. gate_resume g = Some g'"
  by (auto simp: gate_defs)

lemma gate_ok_resume: "gate_ok g \<Longrightarrow> gate_resume g = Some g' \<Longrightarrow> gate_ok g'"
proof (cases "recv_ready (g_open g) g")
  case True
  assume "gate_ok g" "gate_resume g = Some g'"
  with True show ?thesis by (simp add: gate_resume_def)
next
  case False
  assume ok: "gate_ok g" and r: "gate_resume g = Some g'"
  have "g' = g\<lparr>g_closed := g_open g # g_closed g\<rparr>"
    using r False by (simp add: gate_resume_def close_chan_def recv_ready_def)
  then show ?thesis using ok False gate_ok_open [OF ok] by (simp add: gate_ok_def recv_ready_def insert_absorb)
qed

section \<open>The gate as an interface\<close>

text \<open>
  What the runners rely on. A ticket is what a waiter holds on to; a ticket that may pass may
  pass for ever, pausing never lets one through, and one resume lets every ticket through.
\<close>

locale pause_gate =
  fixes pause :: "'g \<Rightarrow> 'g"
    and resume :: "'g \<Rightarrow> 'g option"
    and paused :: "'g \<Rightarrow> bool"
    and ticket :: "'g \<Rightarrow> 'c"
    and issued :: "'c \<Rightarrow> 'g \<Rightarrow> bool"
    and passes :: "'c \<Rightarrow> 'g \<Rightarrow> bool"
    and ok :: "'g \<Rightarrow> bool"
  assumes ok_pause: "ok g \<Longrightarrow> ok (pause g)"
    and resume_total: "ok g \<Longrightarrow> \<exists>g'. resume g = Some g' \<and> ok g'"
    and paused_pause: "ok g \<Longrightarrow> paused (pause g)"
    and paused_resume: "ok g \<Longrightarrow> resume g = Some g' \<Longrightarrow> \<not> paused g'"
    and passes_ticket: "ok g \<Longrightarrow> passes (ticket g) g \<longleftrightarrow> \<not> paused g"
    and issued_ticket: "ok g \<Longrightarrow> issued (ticket g) g"
    and issued_pause: "ok g \<Longrightarrow> issued c g \<Longrightarrow> issued c (pause g)"
    and issued_resume: "ok g \<Longrightarrow> issued c g \<Longrightarrow> resume g = Some g' \<Longrightarrow> issued c g'"
    and passes_pause: "ok g \<Longrightarrow> issued c g \<Longrightarrow> passes c (pause g) \<longleftrightarrow> passes c g"
    and passes_resume: "ok g \<Longrightarrow> issued c g \<Longrightarrow> resume g = Some g' \<Longrightarrow> passes c g'"
begin

text \<open>A run of operations, \<open>True\<close> for a pause and \<open>False\<close> for a resume.\<close>

fun run :: "bool list \<Rightarrow> 'g \<Rightarrow> 'g option" where
  "run [] g = Some g"
| "run (b # bs) g = (if b then run bs (pause g) else Option.bind (resume g) (run bs))"

lemma run_ok: "ok g \<Longrightarrow> \<exists>g'. run bs g = Some g' \<and> ok g' \<and>
    paused g' = (if bs = [] then paused g else last bs)"
proof (induction bs arbitrary: g)
  case Nil
  then show ?case by simp
next
  case (Cons b bs)
  obtain r where r: "resume g = Some r" "ok r" using resume_total Cons.prems by blast
  have "\<not> paused r" "paused (pause g)" "ok (pause g)"
    using Cons.prems r paused_resume paused_pause ok_pause by auto
  then show ?case
    using Cons.IH [of "pause g"] Cons.IH [of r] r by (cases b) auto
qed

lemma run_issued: "ok g \<Longrightarrow> issued c g \<Longrightarrow> run bs g = Some g' \<Longrightarrow>
    passes c g' \<longleftrightarrow> passes c g \<or> False \<in> set bs"
proof (induction bs arbitrary: g)
  case Nil
  then show ?case by simp
next
  case (Cons b bs)
  obtain r where r: "resume g = Some r" "ok r" using resume_total Cons.prems(1) by blast
  have pr: "passes c r" "issued c r"
    using passes_resume [OF Cons.prems(1,2) r(1)] issued_resume [OF Cons.prems(1,2) r(1)] by simp_all
  have pp: "passes c (pause g) \<longleftrightarrow> passes c g" "issued c (pause g)" "ok (pause g)"
    using passes_pause [OF Cons.prems(1,2)] issued_pause [OF Cons.prems(1,2)] ok_pause [OF Cons.prems(1)]
    by simp_all
  show ?case
  proof (cases b)
    case True
    with Cons.prems(3) have "run bs (pause g) = Some g'" by simp
    from Cons.IH [OF pp(3,2) this] pp(1) True show ?thesis by simp
  next
    case False
    with Cons.prems(3) r have "run bs r = Some g'" by simp
    from Cons.IH [OF r(2) pr(2) this] pr(1) False show ?thesis by simp
  qed
qed

end

interpretation gt: pause_gate gate_pause gate_resume gate_paused gate_ticket gate_issued recv_ready gate_ok
proof unfold_locales
  fix g :: gate
  assume "gate_ok g"
  then show "\<exists>g'. gate_resume g = Some g' \<and> gate_ok g'"
    using gate_resume_Some gate_ok_resume by blast
next
  fix g :: gate
  assume ok: "gate_ok g"
  then show "gate_paused (gate_pause g)"
    using gate_ok_issued [OF ok, of "g_fresh g"] by (auto simp: gate_defs)
next
  fix g :: gate and c
  assume ok: "gate_ok g" and c: "gate_issued c g"
  then show "recv_ready c (gate_pause g) \<longleftrightarrow> recv_ready c g" by (simp add: gate_defs)
  show "gate_issued c (gate_pause g)" using c by (simp add: gate_defs)
next
  fix g g' :: gate and c
  assume ok: "gate_ok g" and c: "gate_issued c g" and r: "gate_resume g = Some g'"
  show "gate_issued c g'" using c r by (auto simp: gate_defs split: if_splits)
  show "recv_ready c g'"
    using gate_ok_issued [OF ok, of c] c r
    by (cases "recv_ready (g_open g) g") (auto simp: gate_resume_def close_chan_def recv_ready_def)
next
  fix g g' :: gate
  assume "gate_resume g = Some g'"
  then show "\<not> gate_paused g'" by (auto simp: gate_defs split: if_splits)
qed (simp_all add: gate_ok_pause gate_paused_def gate_ticket_def gate_issued_def gate_ok_open)

section \<open>Runs of the gate\<close>

datatype gate_op = OpPause | OpResume

fun gate_run :: "gate_op list \<Rightarrow> gate \<Rightarrow> gate option" where
  "gate_run [] g = Some g"
| "gate_run (OpPause # xs) g = gate_run xs (gate_pause g)"
| "gate_run (OpResume # xs) g = Option.bind (gate_resume g) (gate_run xs)"

lemma gate_run_abstract: "gate_run xs g = gt.run (map (\<lambda>x. x = OpPause) xs) g"
  by (induction xs g rule: gate_run.induct) (auto cong: Option.bind_cong)

text \<open>C17. Started open, the gate survives every sequence of Pause and Resume calls without the
  panic of closing a closed channel, and it is paused exactly when the last call was a Pause:
  the channel juggling implements one boolean.\<close>

theorem gate_implements_flag:
  "\<exists>g. Option.bind gate_new (gate_run xs) = Some g \<and> gate_ok g \<and>
       (gate_paused g \<longleftrightarrow> xs \<noteq> [] \<and> last xs = OpPause)"
proof -
  obtain g0 where g0: "gate_new = Some g0" "gate_ok g0" "\<not> gate_paused g0"
    using gate_ok_new gate_new_Some by blast
  obtain g where "gt.run (map (\<lambda>x. x = OpPause) xs) g0 = Some g" "gate_ok g"
    "gate_paused g = (if xs = [] then gate_paused g0 else last (map (\<lambda>x. x = OpPause) xs))"
    using gt.run_ok [OF g0(2), of "map (\<lambda>x. x = OpPause) xs"] by auto
  with g0 show ?thesis
    by (auto simp: gate_run_abstract last_map split: if_splits)
qed

text \<open>C18. No lost wake-up and no leak: a runner that reads the gate's channel after the calls
  \<open>xs\<close> gets through after the further calls \<open>ys\<close> exactly when the gate was open as it read it or
  \<open>ys\<close> holds a Resume. So one Resume releases every waiter, even when a Pause follows it at once,
  and Pause calls alone never let a waiter through.\<close>

theorem gate_no_lost_wakeup:
  assumes "Option.bind gate_new (gate_run xs) = Some g" "gate_run ys g = Some g'"
  shows "recv_ready (gate_ticket g) g' \<longleftrightarrow> \<not> gate_paused g \<or> OpResume \<in> set ys"
proof -
  have ok: "gate_ok g"
    using gate_implements_flag [of xs] assms(1) by auto
  have "False \<in> set (map (\<lambda>x. x = OpPause) ys) \<longleftrightarrow> OpResume \<in> set ys"
    by (auto simp: image_iff) (metis gate_op.exhaust)
  then show ?thesis
    using gt.run_issued [OF ok gt.issued_ticket [OF ok], of "map (\<lambda>x. x = OpPause) ys" g']
      gt.passes_ticket [OF ok] assms(2)
    by (simp add: gate_run_abstract)
qed

theorem gate_no_lost_wakeup_witness:
  "Option.bind gate_new (gate_run [OpPause]) = Some \<lparr>g_open = 1, g_fresh = 2, g_closed = [0]\<rparr> \<and>
   gate_run [OpResume, OpPause] \<lparr>g_open = 1, g_fresh = 2, g_closed = [0]\<rparr>
     = Some \<lparr>g_open = 2, g_fresh = 3, g_closed = [1, 0]\<rparr> \<and>
   recv_ready 1 \<lparr>g_open = 2, g_fresh = 3, g_closed = [1, 0]\<rparr>"
proof -
  have a: "Option.bind gate_new (gate_run [OpPause]) = Some \<lparr>g_open = 1, g_fresh = 2, g_closed = [0]\<rparr>"
    by (simp add: gate_defs)
  have b: "gate_run [OpResume, OpPause] \<lparr>g_open = 1, g_fresh = 2, g_closed = [0]\<rparr>
     = Some \<lparr>g_open = 2, g_fresh = 3, g_closed = [1, 0]\<rparr>"
    by (simp add: gate_defs)
  show ?thesis using a b gate_no_lost_wakeup [OF a b] by (simp add: gate_ticket_def)
qed

end
