(* ===== verification/Health.thy ===== *)
theory Health
  imports Go_Prelude
begin

text \<open>
  internal/health: the error budget of one check. A \<open>tracker\<close> holds the budget and the error
  points spent; Record, Heal, Reset and Snapshot run under the tracker's mutex from their first
  statement to their last, so each is one state transformation here. The locale
  \<open>error_budget\<close> is what the runner and the supervisor rely on; it is interpreted on the
  tracker below.
\<close>

section \<open>Status and Snapshot\<close>

text \<open>\<open>type Status int\<close>: the Nagios exit code, which is also the number of error points.\<close>

type_synonym status = int

definition StatusOK :: status where [simp]: "StatusOK = 0"
definition StatusWarning :: status where [simp]: "StatusWarning = 1"
definition StatusCritical :: status where [simp]: "StatusCritical = 2"
definition StatusUnknown :: status where [simp]: "StatusUnknown = 3"

definition status_string :: "status \<Rightarrow> string" where
  "status_string s =
     (if s = StatusOK then ''OK''
      else if s = StatusWarning then ''WARNING''
      else if s = StatusCritical then ''CRITICAL''
      else if s = StatusUnknown then ''UNKNOWN''
      else ''INVALID'')"

record snapshot =
  sn_service :: string
  sn_threshold :: int
  sn_remaining :: int
  sn_trend :: int
  sn_percent :: int

definition snapshot_dead :: "snapshot \<Rightarrow> bool" where
  "snapshot_dead s \<longleftrightarrow> sn_remaining s \<le> 0"

definition percent :: "int \<Rightarrow> int \<Rightarrow> int" where
  "percent current tot =
     (if tot \<le> 0 then 0
      else let current = (if current < 0 then 0 else current)
           in wrap64 (go_mod (go_div (wrap64 (200 * current)) tot) 2
                      + go_div (wrap64 (100 * current)) tot))"

section \<open>Tracker\<close>

record tracker =
  tr_service :: string
  tr_threshold :: int
  tr_errCount :: int

definition tracker_new :: "string \<Rightarrow> int \<Rightarrow> tracker" where
  "tracker_new service threshold =
     (let threshold = (if threshold < 1 then 1 else threshold)
      in \<lparr>tr_service = service, tr_threshold = threshold, tr_errCount = 0\<rparr>)"

text \<open>The unexported \<open>snapshot(trend)\<close>.\<close>

definition tracker_render :: "tracker \<Rightarrow> int \<Rightarrow> snapshot" where
  "tracker_render t trend =
     (let remaining = wrap64 (tr_threshold t - tr_errCount t);
          remaining = (if remaining < 0 then 0 else remaining)
      in \<lparr>sn_service = tr_service t, sn_threshold = tr_threshold t,
          sn_remaining = remaining, sn_trend = trend,
          sn_percent = percent remaining (tr_threshold t)\<rparr>)"

definition tracker_record :: "int \<Rightarrow> tracker \<Rightarrow> snapshot \<times> tracker" where
  "tracker_record weight t =
     (let weight = (if weight < 0 then 0 else weight);
          before = tr_errCount t;
          after = (if weight > 0 then wrap64 (before + weight)
                   else if before > 0 then before - 1
                   else before);
          t' = t\<lparr>tr_errCount := after\<rparr>
      in (tracker_render t' (wrap64 (before - after)), t'))"

definition tracker_heal :: "int \<Rightarrow> tracker \<Rightarrow> snapshot \<times> tracker" where
  "tracker_heal points t =
     (let before = tr_errCount t;
          after = (if before > 1
                   then (let e = wrap64 (before - points) in if e < 0 then 0 else e)
                   else before);
          t' = t\<lparr>tr_errCount := after\<rparr>
      in (tracker_render t' (wrap64 (before - after)), t'))"

definition tracker_reset :: "tracker \<Rightarrow> tracker" where
  "tracker_reset t = t\<lparr>tr_errCount := 0\<rparr>"

definition tracker_snapshot :: "tracker \<Rightarrow> snapshot" where
  "tracker_snapshot t = tracker_render t 0"

section \<open>The arithmetic of Percent\<close>

lemma percent_exact:
  assumes "0 \<le> c" "0 < t" "200 * c \<le> max_int64"
  shows "percent c t = (200 * c div t) mod 2 + 100 * c div t"
proof -
  have "0 \<le> 200 * c div t mod 2" "200 * c div t mod 2 \<le> 1" "0 \<le> 100 * c div t"
    using assms by (auto simp: pos_imp_zdiv_nonneg_iff)
  moreover have "100 * c div t \<le> 100 * c"
    using assms by (metis div_by_1 int_one_le_iff_zero_less mult_nonneg_nonneg zdiv_mono2 zero_le_numeral zero_less_one)
  ultimately have "wrap64 (200 * c div t mod 2 + 100 * c div t) = 200 * c div t mod 2 + 100 * c div t"
    using assms by (intro wrap64_nonneg) auto
  then show ?thesis
    using assms by (simp add: percent_def pos_imp_zdiv_nonneg_iff)
qed

lemma double_div_mod_half: "0 < (t::int) \<Longrightarrow> (2 * a div t) mod 2 + a div t = (2 * a + t) div (2 * t)"
proof -
  assume t: "0 < t"
  let ?q = "2 * a div t"
  have "a div t = (2 * a) div (2 * t)" by simp
  also have "\<dots> = ?q div 2"
    using t by (metis mult.commute zdiv_zmult2_eq zero_le_numeral)
  finally have half: "a div t = ?q div 2" .
  have "q mod 2 + q div 2 = (q + 1) div 2" for q :: int by presburger
  then have "?q mod 2 + ?q div 2 = (?q + 1) div 2" .
  also have "?q + 1 = (2 * a + t) div t" using t by (simp add: div_add_self2)
  also have "\<dots> div 2 = (2 * a + t) div (2 * t)"
    using t by (metis mult.commute zdiv_zmult2_eq zero_le_numeral)
  finally show ?thesis by (simp add: half)
qed

lemma percent_rounds:
  assumes "0 \<le> c" "0 < t" "200 * c \<le> max_int64"
  shows "percent c t = (200 * c + t) div (2 * t)"
proof -
  have "percent c t = (2 * (100 * c) div t) mod 2 + (100 * c) div t"
    using percent_exact [OF assms] by simp
  also have "\<dots> = (2 * (100 * c) + t) div (2 * t)"
    using assms(2) by (rule double_div_mod_half)
  finally show ?thesis by simp
qed

lemma percent_bounds:
  assumes "0 \<le> c" "c \<le> t" "0 < t" "200 * c \<le> max_int64"
  shows "0 \<le> percent c t \<and> percent c t \<le> 100"
proof -
  have e: "percent c t = (200 * c + t) div (2 * t)"
    using assms by (intro percent_rounds) auto
  have "(200 * c + t) div (2 * t) \<le> (200 * t + t) div (2 * t)"
    using assms by (intro zdiv_mono1) auto
  also have "(200 * t + t) div (2 * t) = 100"
    using assms(3) div_mult_self1 [of "2 * t" t 100] by (simp add: add.commute)
  finally show ?thesis
    using e assms by (simp add: pos_imp_zdiv_nonneg_iff)
qed

lemma percent_zero [simp]: "percent 0 t = 0"
  by (auto simp: percent_def)


section \<open>The tracker's invariant\<close>

text \<open>The budget is positive and the points spent are a non-negative 64-bit value.\<close>

definition tracker_ok :: "tracker \<Rightarrow> bool" where
  "tracker_ok t \<longleftrightarrow>
     1 \<le> tr_threshold t \<and> tr_threshold t \<le> max_int64 \<and>
     0 \<le> tr_errCount t \<and> tr_errCount t \<le> max_int64"

lemma tracker_ok_new: "threshold \<le> max_int64 \<Longrightarrow> tracker_ok (tracker_new s threshold)"
  by (simp add: tracker_ok_def tracker_new_def)

lemma tracker_new_fields [simp]:
  "tr_service (tracker_new s threshold) = s"
  "tr_threshold (tracker_new s threshold) = max 1 threshold"
  "tr_errCount (tracker_new s threshold) = 0"
  by (auto simp: tracker_new_def)

lemma tracker_reset_fields [simp]:
  "tr_service (tracker_reset t) = tr_service t"
  "tr_threshold (tracker_reset t) = tr_threshold t"
  "tr_errCount (tracker_reset t) = 0"
  by (simp_all add: tracker_reset_def)

lemma tracker_record_static [simp]:
  "tr_service (snd (tracker_record w t)) = tr_service t"
  "tr_threshold (snd (tracker_record w t)) = tr_threshold t"
  by (simp_all add: tracker_record_def Let_def)

lemma tracker_heal_static [simp]:
  "tr_service (snd (tracker_heal p t)) = tr_service t"
  "tr_threshold (snd (tracker_heal p t)) = tr_threshold t"
  by (simp_all add: tracker_heal_def Let_def)

lemma record_failing:
  assumes "tracker_ok t" "0 < w" "tr_errCount t + w \<le> max_int64"
  shows "tr_errCount (snd (tracker_record w t)) = tr_errCount t + w"
  using assms by (simp add: tracker_record_def tracker_ok_def Let_def)

lemma record_clean:
  assumes "tracker_ok t" "w \<le> 0"
  shows "tr_errCount (snd (tracker_record w t)) = max 0 (tr_errCount t - 1)"
  using assms by (auto simp: tracker_record_def tracker_ok_def Let_def)

lemma heal_spent:
  assumes "tracker_ok t" "0 \<le> p" "p \<le> max_int64"
  shows "tr_errCount (snd (tracker_heal p t)) =
         (if 1 < tr_errCount t then max 0 (tr_errCount t - p) else tr_errCount t)"
proof -
  have "in64 (tr_errCount t - p)"
    using assms by (auto simp: tracker_ok_def)
  then have "wrap64 (tr_errCount t - p) = tr_errCount t - p"
    by (rule wrap64_id)
  then show ?thesis by (simp add: tracker_heal_def Let_def)
qed

lemma tracker_ok_record:
  assumes "tracker_ok t" "tr_errCount t + max 0 w \<le> max_int64"
  shows "tracker_ok (snd (tracker_record w t))"
proof (cases "0 < w")
  case True
  then show ?thesis
    using assms record_failing [OF assms(1) True] by (auto simp: tracker_ok_def)
next
  case False
  then show ?thesis
    using assms record_clean [of t w] by (auto simp: tracker_ok_def)
qed

lemma tracker_ok_heal:
  assumes "tracker_ok t" "0 \<le> p" "p \<le> max_int64"
  shows "tracker_ok (snd (tracker_heal p t))"
  using assms heal_spent [OF assms] by (auto simp: tracker_ok_def)

lemma tracker_ok_reset: "tracker_ok t \<Longrightarrow> tracker_ok (tracker_reset t)"
  by (simp add: tracker_ok_def)

section \<open>What a rendered snapshot says\<close>

lemma render_fields [simp]:
  "sn_service (tracker_render t d) = tr_service t"
  "sn_threshold (tracker_render t d) = tr_threshold t"
  "sn_trend (tracker_render t d) = d"
  by (simp_all add: tracker_render_def Let_def)

lemma render_remaining:
  "tracker_ok t \<Longrightarrow> sn_remaining (tracker_render t d) = max 0 (tr_threshold t - tr_errCount t)"
proof -
  assume ok: "tracker_ok t"
  then have "in64 (tr_threshold t - tr_errCount t)"
    by (auto simp: tracker_ok_def)
  then have "wrap64 (tr_threshold t - tr_errCount t) = tr_threshold t - tr_errCount t"
    by (rule wrap64_id)
  then show ?thesis by (simp add: tracker_render_def Let_def)
qed

lemma render_dead:
  "tracker_ok t \<Longrightarrow> snapshot_dead (tracker_render t d) \<longleftrightarrow> tr_threshold t \<le> tr_errCount t"
  by (auto simp: snapshot_dead_def render_remaining)

lemma render_percent:
  "sn_percent (tracker_render t d) = percent (sn_remaining (tracker_render t d)) (tr_threshold t)"
  by (simp add: tracker_render_def Let_def)

text \<open>Record and Heal return the rendering of the tracker they leave behind.\<close>

lemma fst_record:
  "fst (tracker_record w t) =
     tracker_render (snd (tracker_record w t)) (wrap64 (tr_errCount t - tr_errCount (snd (tracker_record w t))))"
  by (simp add: tracker_record_def Let_def)

lemma fst_heal:
  "fst (tracker_heal p t) =
     tracker_render (snd (tracker_heal p t)) (wrap64 (tr_errCount t - tr_errCount (snd (tracker_heal p t))))"
  by (simp add: tracker_heal_def Let_def)

lemma record_dead_iff:
  assumes "tracker_ok t" "tr_errCount t + max 0 w \<le> max_int64"
  shows "snapshot_dead (fst (tracker_record w t)) \<longleftrightarrow>
         tr_threshold t \<le> tr_errCount (snd (tracker_record w t))"
  by (simp add: fst_record [of w t] render_dead [OF tracker_ok_record [OF assms]])

text \<open>A snapshot as the UI and the metrics expect it.\<close>

definition snapshot_ok :: "snapshot \<Rightarrow> bool" where
  "snapshot_ok s \<longleftrightarrow>
     0 \<le> sn_remaining s \<and> sn_remaining s \<le> sn_threshold s \<and>
     0 \<le> sn_percent s \<and> sn_percent s \<le> 100 \<and>
     (snapshot_dead s \<longleftrightarrow> sn_remaining s = 0) \<and>
     (snapshot_dead s \<longrightarrow> sn_percent s = 0)"

lemma snapshot_ok_render:
  assumes "tracker_ok t" "200 * tr_threshold t \<le> max_int64"
  shows "snapshot_ok (tracker_render t d)"
proof -
  let ?s = "tracker_render t d"
  have r: "0 \<le> sn_remaining ?s" "sn_remaining ?s \<le> tr_threshold t"
    using assms by (auto simp: render_remaining tracker_ok_def)
  have "0 \<le> sn_percent ?s \<and> sn_percent ?s \<le> 100"
    unfolding render_percent using r assms by (intro percent_bounds) (auto simp: tracker_ok_def)
  moreover have "sn_remaining ?s = 0 \<Longrightarrow> sn_percent ?s = 0"
    by (simp add: render_percent)
  ultimately show ?thesis
    using r by (auto simp: snapshot_ok_def snapshot_dead_def)
qed

section \<open>The budget as an interface\<close>

text \<open>
  The runner and the supervisor use a tracker only through these operations and laws: a round
  with failures spends their weight, a clean round repays one point, a repayment leaves a
  single point alone, and clearing starts over.
\<close>

locale error_budget =
  fixes spent :: "'t \<Rightarrow> int"
    and budget :: "'t \<Rightarrow> int"
    and round_of :: "int \<Rightarrow> 't \<Rightarrow> 't"
    and repay :: "int \<Rightarrow> 't \<Rightarrow> 't"
    and clear :: "'t \<Rightarrow> 't"
    and ok :: "'t \<Rightarrow> bool"
  assumes spent_nonneg: "ok t \<Longrightarrow> 0 \<le> spent t"
    and budget_pos: "ok t \<Longrightarrow> 1 \<le> budget t"
    and spent_fail: "ok t \<Longrightarrow> 0 < w \<Longrightarrow> spent t + w \<le> max_int64 \<Longrightarrow> spent (round_of w t) = spent t + w"
    and spent_clean: "ok t \<Longrightarrow> w \<le> 0 \<Longrightarrow> spent (round_of w t) = max 0 (spent t - 1)"
    and ok_round: "ok t \<Longrightarrow> spent t + max 0 w \<le> max_int64 \<Longrightarrow> ok (round_of w t)"
    and spent_repay: "ok t \<Longrightarrow> 0 \<le> p \<Longrightarrow> p \<le> max_int64 \<Longrightarrow>
          spent (repay p t) = (if 1 < spent t then max 0 (spent t - p) else spent t)"
    and ok_repay: "ok t \<Longrightarrow> 0 \<le> p \<Longrightarrow> p \<le> max_int64 \<Longrightarrow> ok (repay p t)"
    and spent_clear: "spent (clear t) = 0"
    and ok_clear: "ok t \<Longrightarrow> ok (clear t)"
    and budget_round: "budget (round_of w t) = budget t"
    and budget_repay: "budget (repay p t) = budget t"
    and budget_clear: "budget (clear t) = budget t"
begin

lemma spent_round_le: "ok t \<Longrightarrow> spent t + max 0 w \<le> max_int64 \<Longrightarrow> spent (round_of w t) \<le> spent t + max 0 w"
  using spent_fail [of t w] spent_clean [of t w] spent_nonneg [of t] by (cases "0 < w") auto

lemma spent_repay_le: "ok t \<Longrightarrow> 0 \<le> p \<Longrightarrow> p \<le> max_int64 \<Longrightarrow> spent (repay p t) \<le> spent t"
  using spent_repay [of t p] by auto

text \<open>Rounds that all fail add up.\<close>

lemma fold_failing:
  assumes "ok t" "\<forall>w \<in> set ws. 0 < w" "spent t + sum_list ws \<le> max_int64"
  shows "spent (fold round_of ws t) = spent t + sum_list ws \<and> ok (fold round_of ws t)
         \<and> budget (fold round_of ws t) = budget t"
  using assms
proof (induction ws arbitrary: t)
  case Nil
  then show ?case by simp
next
  case (Cons w ws)
  have nn: "0 \<le> sum_list ws"
    using Cons.prems(2) by (intro sum_list_nonneg) (auto intro: less_imp_le)
  have s: "spent (round_of w t) = spent t + w"
    using Cons.prems nn by (intro spent_fail) auto
  moreover have "ok (round_of w t)"
    using Cons.prems nn by (intro ok_round) auto
  ultimately show ?case
    using Cons.IH [of "round_of w t"] Cons.prems by (simp add: budget_round add.assoc)
qed

text \<open>Clean rounds repay one point each, down to zero.\<close>

lemma fold_clean:
  assumes "ok t" "\<forall>w \<in> set ws. w \<le> 0" "spent t \<le> max_int64"
  shows "spent (fold round_of ws t) = max 0 (spent t - int (length ws)) \<and> ok (fold round_of ws t)"
  using assms
proof (induction ws arbitrary: t)
  case Nil
  then show ?case using spent_nonneg by simp
next
  case (Cons w ws)
  have s: "spent (round_of w t) = max 0 (spent t - 1)"
    using Cons.prems by (intro spent_clean) auto
  moreover have "ok (round_of w t)"
    using Cons.prems by (intro ok_round) auto
  ultimately show ?case
    using Cons.IH [of "round_of w t"] Cons.prems by auto
qed

text \<open>A failure of weight one that alternates with clean rounds never accumulates.\<close>

lemma fold_flapping:
  assumes "ok t" "spent t = 0"
  shows "spent (fold round_of (map (\<lambda>k. if even k then 1 else 0) [0..<n]) t) = (if odd n then 1 else 0)
         \<and> ok (fold round_of (map (\<lambda>k. if even k then 1 else 0) [0..<n]) t)
         \<and> budget (fold round_of (map (\<lambda>k. if even k then 1 else 0) [0..<n]) t) = budget t"
proof (induction n)
  case 0
  then show ?case using assms by simp
next
  case (Suc n)
  let ?t = "fold round_of (map (\<lambda>k. if even k then 1 else 0) [0..<n]) t"
  show ?case
    using Suc spent_fail [of ?t 1] spent_clean [of ?t 0] ok_round [of ?t 1] ok_round [of ?t 0] by (auto simp: budget_round)
qed

end

interpretation trk: error_budget tr_errCount tr_threshold "\<lambda>w t. snd (tracker_record w t)"
  "\<lambda>p t. snd (tracker_heal p t)" tracker_reset tracker_ok
  by unfold_locales
    (simp_all add: tracker_ok_def [THEN iffD1] record_failing record_clean tracker_ok_record
      heal_spent tracker_ok_heal tracker_ok_reset)


section \<open>Histories of a tracker\<close>

datatype tracker_op = OpRecord int | OpHeal int | OpReset

fun tracker_step :: "tracker_op \<Rightarrow> tracker \<Rightarrow> tracker" where
  "tracker_step (OpRecord w) t = snd (tracker_record w t)"
| "tracker_step (OpHeal p) t = snd (tracker_heal p t)"
| "tracker_step OpReset t = tracker_reset t"

text \<open>The points an operation can add, and the operations the watchdog performs: weights are
  any value, repayments are not negative.\<close>

fun op_points :: "tracker_op \<Rightarrow> int" where
  "op_points (OpRecord w) = max 0 w"
| "op_points (OpHeal p) = 0"
| "op_points OpReset = 0"

fun op_valid :: "tracker_op \<Rightarrow> bool" where
  "op_valid (OpHeal p) \<longleftrightarrow> 0 \<le> p \<and> p \<le> max_int64"
| "op_valid _ \<longleftrightarrow> True"

lemma op_points_nonneg [simp]: "0 \<le> op_points x"
  by (cases x) auto

lemma tracker_step_threshold [simp]: "tr_threshold (tracker_step x t) = tr_threshold t"
  by (cases x) auto

lemma tracker_step_service [simp]: "tr_service (tracker_step x t) = tr_service t"
  by (cases x) auto

lemma fold_records: "fold tracker_step (map OpRecord ws) t = fold (\<lambda>w t. snd (tracker_record w t)) ws t"
  by (induction ws arbitrary: t) simp_all

lemma tracker_step_ok:
  assumes "tracker_ok t" "op_valid x" "tr_errCount t + op_points x \<le> max_int64"
  shows "tracker_ok (tracker_step x t) \<and> tr_errCount (tracker_step x t) \<le> tr_errCount t + op_points x"
proof (cases x)
  case (OpRecord w)
  then show ?thesis
    using assms trk.ok_round [of t w] trk.spent_round_le [of t w] by simp
next
  case (OpHeal p)
  then show ?thesis
    using assms trk.ok_repay [of t p] trk.spent_repay_le [of t p] by simp
next
  case OpReset
  then show ?thesis
    using assms trk.ok_clear [of t] trk.spent_nonneg [of t] by simp
qed

lemma tracker_fold_ok:
  assumes "tracker_ok t" "\<forall>x \<in> set xs. op_valid x"
    "tr_errCount t + sum_list (map op_points xs) \<le> max_int64"
  shows "tracker_ok (fold tracker_step xs t) \<and>
    tr_threshold (fold tracker_step xs t) = tr_threshold t \<and>
    tr_errCount (fold tracker_step xs t) \<le> tr_errCount t + sum_list (map op_points xs)"
  using assms
proof (induction xs arbitrary: t)
  case Nil
  then show ?case by simp
next
  case (Cons x xs)
  have "0 \<le> sum_list (map op_points xs)"
    by (rule sum_list_nonneg) auto
  then have "tracker_ok (tracker_step x t) \<and> tr_errCount (tracker_step x t) \<le> tr_errCount t + op_points x"
    using Cons.prems by (intro tracker_step_ok) auto
  then show ?case
    using Cons.IH [of "tracker_step x t"] Cons.prems by auto
qed

section \<open>Properties\<close>

text \<open>The accounting of watchdog.sh, transcribed from the shell lines the package comment quotes:
  \<open>cur\<close> is err_c_cur, the result is err_count and diff_c after the round.\<close>

definition shell_round :: "int \<Rightarrow> int \<Rightarrow> int \<times> int" where
  "shell_round cur exit_codes =
     (let err = cur + exit_codes;
          (err, diff) = (if cur = err \<and> \<not> (err - 1 < 0) then (err - 1, 1) else (err, 0));
          diff = (if cur \<noteq> err then cur - err else diff)
      in (err, diff))"

text \<open>C21. Record is the shell's accounting: for a well-formed tracker and exit codes that do not
  overflow the counter, it leaves the err_count the shell would have, reports the shell's diff_c
  as the trend, and reports the shell's remaining health clamped at zero.\<close>

theorem record_matches_shell:
  assumes "tracker_ok t" "0 \<le> w" "tr_errCount t + w \<le> max_int64"
  shows "(tr_errCount (snd (tracker_record w t)), sn_trend (fst (tracker_record w t)))
           = shell_round (tr_errCount t) w \<and>
         sn_remaining (fst (tracker_record w t))
           = max 0 (tr_threshold t - fst (shell_round (tr_errCount t) w))"
proof -
  let ?t' = "snd (tracker_record w t)"
  have err: "tr_errCount ?t' = fst (shell_round (tr_errCount t) w)"
  proof (cases "w = 0")
    case True
    then show ?thesis
      using record_clean [OF assms(1), of w] assms(1) by (auto simp: shell_round_def tracker_ok_def Let_def)
  next
    case False
    then show ?thesis
      using record_failing [OF assms(1), of w] assms by (auto simp: shell_round_def Let_def)
  qed
  have ok: "tracker_ok ?t'"
    using assms by (intro tracker_ok_record) auto
  have "in64 (tr_errCount t - tr_errCount ?t')"
    using assms(1) ok by (auto simp: tracker_ok_def)
  then have "sn_trend (fst (tracker_record w t)) = tr_errCount t - tr_errCount ?t'"
    by (simp add: fst_record wrap64_id)
  also have "\<dots> = snd (shell_round (tr_errCount t) w)"
    unfolding err by (simp add: shell_round_def Let_def)
  finally have trend: "sn_trend (fst (tracker_record w t)) = snd (shell_round (tr_errCount t) w)" .
  show ?thesis
    using err trend render_remaining [OF ok] by (simp add: fst_record prod_eq_iff)
qed

theorem record_matches_shell_witness:
  "tracker_ok (tracker_new ''Nginx'' 5) \<and>
   (tr_errCount (snd (tracker_record 2 (tracker_new ''Nginx'' 5))),
    sn_trend (fst (tracker_record 2 (tracker_new ''Nginx'' 5)))) = (2, -2)"
proof -
  have ok: "tracker_ok (tracker_new ''Nginx'' 5)" by (simp add: tracker_ok_new)
  have b: "(0::int) \<le> 2" "tr_errCount (tracker_new ''Nginx'' 5) + 2 \<le> max_int64" by simp_all
  show ?thesis using record_matches_shell [OF ok b] ok by (simp add: shell_round_def)
qed

text \<open>Percent is a share of the budget rounded half up, exactly, and it lies between 0 and
  100: the parity trick of the shell is a rounding. The bound on the budget is where the product
  with 200 would leave 64 bits.\<close>

theorem percent_round_half_up:
  assumes "0 \<le> c" "c \<le> t" "0 < t" "200 * t \<le> max_int64"
  shows "percent c t = (200 * c + t) div (2 * t) \<and> 0 \<le> percent c t \<and> percent c t \<le> 100 \<and>
         percent t t = 100"
proof -
  have "percent t t = (200 * t + t) div (2 * t)"
    using assms by (intro percent_rounds) auto
  also have "\<dots> = 100"
    using assms(3) div_mult_self1 [of "2 * t" t 100] by (simp add: add.commute)
  finally show ?thesis
    using percent_rounds [of c t] percent_bounds [of c t] assms by auto
qed

theorem percent_round_half_up_witness:
  "percent 1 8 = (200 * 1 + 8) div (2 * 8) \<and> percent 1 8 = 13 \<and> percent 1 3 = 33"
  using percent_round_half_up [of 1 8] percent_round_half_up [of 1 3] by simp

text \<open>Beyond the bound the product overflows: a full budget of \<open>10 ^ 17\<close> points is shown as minus 83
  percent.\<close>

lemma percent_overflows: "percent (10 ^ 17) (10 ^ 17) = - 83"
  by (simp add: percent_def wrap64_def go_div_def go_mod_def)

text \<open>C22. Whatever is recorded, repaid and reset, in any order, a tracker with any 64-bit threshold
  reports a snapshot with 0 \<le> Remaining \<le> Threshold that is dead exactly when nothing remains, exactly
  when the points spent reach the budget, and then shows 0 percent, as long as the recorded points stay
  within 64 bits and no repayment is negative. As long as two hundred times Remaining fits into 64
  bits too, which Load does not enforce, Percent is Remaining's share of the budget rounded half up
  and lies between 0 and 100.\<close>

theorem tracker_history_snapshot:
  assumes "threshold \<le> max_int64" "\<forall>x \<in> set xs. op_valid x" "sum_list (map op_points xs) \<le> max_int64"
  shows "let t = fold tracker_step xs (tracker_new s threshold); sn = tracker_snapshot t; budget = max 1 threshold
         in sn_threshold sn = budget \<and> 0 \<le> sn_remaining sn \<and> sn_remaining sn \<le> budget \<and>
            (snapshot_dead sn \<longleftrightarrow> sn_remaining sn = 0) \<and> (snapshot_dead sn \<longleftrightarrow> budget \<le> tr_errCount t) \<and>
            (snapshot_dead sn \<longrightarrow> sn_percent sn = 0) \<and>
            (200 * sn_remaining sn \<le> max_int64 \<longrightarrow>
               sn_percent sn = (200 * sn_remaining sn + budget) div (2 * budget) \<and>
               0 \<le> sn_percent sn \<and> sn_percent sn \<le> 100)"
proof -
  let ?t = "fold tracker_step xs (tracker_new s threshold)"
  let ?r = "sn_remaining (tracker_render ?t 0)"
  have t: "tracker_ok ?t" "tr_threshold ?t = max 1 threshold"
    using tracker_fold_ok [of "tracker_new s threshold" xs] assms tracker_ok_new [of threshold s]
    by simp_all
  then have r: "0 \<le> ?r" "?r \<le> max 1 threshold" by (auto simp: render_remaining tracker_ok_def)
  then have "sn_percent (tracker_render ?t 0) = (200 * ?r + max 1 threshold) div (2 * max 1 threshold) \<and>
      0 \<le> sn_percent (tracker_render ?t 0) \<and> sn_percent (tracker_render ?t 0) \<le> 100" if "200 * ?r \<le> max_int64"
    using percent_rounds [of ?r "max 1 threshold"] percent_bounds [of ?r "max 1 threshold"] that t(2)
    by (simp add: render_percent)
  then show ?thesis
    using r t render_dead [OF t(1), of 0]
    by (auto simp: tracker_snapshot_def Let_def snapshot_dead_def render_percent)
qed

theorem tracker_history_snapshot_witness:
  "let t = fold tracker_step [OpRecord 4, OpHeal 2, OpRecord 0] (tracker_new ''SOGo'' 3)
   in \<not> snapshot_dead (tracker_snapshot t) \<and> sn_remaining (tracker_snapshot t) = 2 \<and>
      sn_percent (tracker_snapshot t) = 67"
proof -
  have t: "tr_errCount (fold tracker_step [OpRecord 4, OpHeal 2, OpRecord 0] (tracker_new ''SOGo'' 3)) = 1"
    "sn_remaining (tracker_snapshot (fold tracker_step [OpRecord 4, OpHeal 2, OpRecord 0] (tracker_new ''SOGo'' 3))) = 2"
    by code_simp+
  show ?thesis
    using tracker_history_snapshot [of 3 "[OpRecord 4, OpHeal 2, OpRecord 0]" "''SOGo''"] t
    by (simp add: Let_def)
qed

text \<open>C23. A service that stays down is noticed, and not too early: when every round costs \<open>w\<close> points, a
  fresh check of any threshold is dead after \<open>n\<close> rounds exactly when \<open>n * w\<close> reaches its budget. A service
  that fails one point every other round is never declared dead with a threshold of two or more,
  whichever round one looks after; with a threshold of one, as several checks ship with, it is dead
  after each of its failing rounds and whole again after each clean one.\<close>

theorem exhaustion_time:
  assumes "0 < w" "int n * w \<le> max_int64" "threshold \<le> max_int64"
  shows "(snapshot_dead (tracker_snapshot (fold tracker_step (replicate n (OpRecord w)) (tracker_new s threshold)))
           \<longleftrightarrow> max 1 threshold \<le> int n * w) \<and>
         (snapshot_dead (tracker_snapshot
            (fold tracker_step (map (\<lambda>k. OpRecord (if even k then 1 else 0)) [0..<m]) (tracker_new s threshold)))
           \<longleftrightarrow> odd m \<and> threshold \<le> 1)"
proof -
  have ok: "tracker_ok (tracker_new s threshold)"
    using assms(3) by (rule tracker_ok_new)
  let ?t = "fold tracker_step (map OpRecord (replicate n w)) (tracker_new s threshold)"
  let ?u = "fold tracker_step (map OpRecord (map (\<lambda>k. if even k then 1 else 0) [0..<m])) (tracker_new s threshold)"
  have "tr_errCount ?t = int n * w" "tracker_ok ?t" "tr_threshold ?t = max 1 threshold"
    using trk.fold_failing [OF ok, of "replicate n w"] assms(1,2) unfolding fold_records
    by (simp_all only: set_replicate_conv_if sum_list_replicate) (simp_all split: if_splits)
  moreover have "tr_errCount ?u = (if odd m then 1 else 0)" "tracker_ok ?u" "tr_threshold ?u = max 1 threshold"
    using trk.fold_flapping [OF ok, of m] by (simp_all only: fold_records) simp_all
  ultimately show ?thesis
    using render_dead [of ?t 0] render_dead [of ?u 0]
    by (simp add: tracker_snapshot_def comp_def)
qed

theorem exhaustion_time_witness:
  "snapshot_dead (tracker_snapshot (fold tracker_step (replicate 3 (OpRecord 2)) (tracker_new ''Redis'' 5))) \<and>
   \<not> snapshot_dead (tracker_snapshot (fold tracker_step (replicate 2 (OpRecord 2)) (tracker_new ''Redis'' 5))) \<and>
   \<not> snapshot_dead (tracker_snapshot
       (fold tracker_step (map (\<lambda>k. OpRecord (if even k then 1 else 0)) [0..<7]) (tracker_new ''Redis'' 5))) \<and>
   snapshot_dead (tracker_snapshot
       (fold tracker_step (map (\<lambda>k. OpRecord (if even k then 1 else 0)) [0..<7]) (tracker_new ''Ratelimit'' 1)))"
  using exhaustion_time [of 2 3 5 "''Redis''" 7] exhaustion_time [of 2 2 5 "''Redis''" 7] exhaustion_time [of 2 2 1 "''Ratelimit''" 7]
  by simp

end
