(* ===== verification/Checks.thy ===== *)
theory Checks
  imports Health
begin

text \<open>
  internal/check/check.go: the sleep window of a check, its transcript and the decision whether its
  event names a container. The record \<open>check\<close> holds the fields every part of the program reads;
  the fields that are closures or probes are added by \<open>Supervisor\<close> (running checks) and
  \<open>Registry\<close> (descriptions of checks). Durations are nanoseconds.
\<close>

section \<open>Interval\<close>

record interval =
  iv_Min :: int
  iv_Max :: int

text \<open>Pick: \<open>rnd n\<close> is math/rand's \<open>N(n)\<close>, which panics (\<open>None\<close>) unless \<open>n\<close> is positive.\<close>

definition rand_N :: "(int \<Rightarrow> int) \<Rightarrow> int \<Rightarrow> int option" where
  "rand_N rnd n = (if n \<le> 0 then None else Some (rnd n))"

definition interval_pick :: "(int \<Rightarrow> int) \<Rightarrow> interval \<Rightarrow> int option" where
  "interval_pick rnd i =
     (if iv_Max i \<le> iv_Min i then Some (iv_Min i)
      else map_option (\<lambda>r. wrap64 (iv_Min i + r))
             (rand_N rnd (wrap64 (wrap64 (iv_Max i - iv_Min i) + 1))))"

definition interval_fixed :: "int \<Rightarrow> interval" where
  "interval_fixed d = \<lparr>iv_Min = d, iv_Max = d\<rparr>"

section \<open>Check\<close>

definition transcriptLines :: nat where
  "transcriptLines = 50"

record check =
  ck_Name :: string
  ck_Service :: string
  ck_Event :: string
  ck_Threshold :: int
  ck_Interval :: interval
  ck_DeadDelay :: int
  ck_transcript :: "string list"

text \<open>Record: empty lines are skipped, and beyond fifty lines the oldest go.\<close>

definition check_record :: "string list \<Rightarrow> 'a check_scheme \<Rightarrow> 'a check_scheme" where
  "check_record ls c =
     (let t = ck_transcript c @ filter (\<lambda>line. line \<noteq> []) ls;
          extra = int (length t) - int transcriptLines
      in c\<lparr>ck_transcript := (if extra > 0 then drop (nat extra) t else t)\<rparr>)"

text \<open>The transcript part of Details.\<close>

definition check_transcript_text :: "'a check_scheme \<Rightarrow> string" where
  "check_transcript_text c = join [CHR 0x0A] (ck_transcript c)"

definition restarts_container :: "'a check_scheme \<Rightarrow> bool" where
  "restarts_container c \<longleftrightarrow> has_suffix (ck_Event c) ''-mailcow'' \<and> ck_Event c \<noteq> ''acme-mailcow''"

section \<open>Lemmas\<close>

lemma check_record_fields [simp]:
  "ck_Name (check_record ls c) = ck_Name c" "ck_Service (check_record ls c) = ck_Service c"
  "ck_Event (check_record ls c) = ck_Event c" "ck_Threshold (check_record ls c) = ck_Threshold c"
  "ck_Interval (check_record ls c) = ck_Interval c" "ck_DeadDelay (check_record ls c) = ck_DeadDelay c"
  "check.more (check_record ls c) = check.more c"
  by (simp_all add: check_record_def Let_def)

lemma restarts_container_record [simp]: "restarts_container (check_record ls c) = restarts_container c"
  by (simp add: restarts_container_def)

text \<open>The last \<open>n\<close> elements of a list, the abstract view of the transcript.\<close>

definition last_n :: "nat \<Rightarrow> 'a list \<Rightarrow> 'a list" where
  "last_n n xs = drop (length xs - n) xs"

lemma last_n_append: "last_n n (last_n n xs @ ys) = last_n n (xs @ ys)"
proof (cases "length xs \<le> n")
  case True
  then show ?thesis by (simp add: last_n_def)
next
  case False
  let ?k = "length xs - n"
  have e: "last_n n xs @ ys = drop ?k (xs @ ys)"
    using False by (simp add: last_n_def)
  have "last_n n (last_n n xs @ ys) = drop (length ys + ?k) (xs @ ys)"
    unfolding e using False by (simp add: last_n_def del: drop_append)
  also have "length ys + ?k = length (xs @ ys) - n" using False by simp
  finally show ?thesis by (simp add: last_n_def del: drop_append length_append)
qed

lemma check_record_transcript:
  "ck_transcript (check_record ls c) = last_n 50 (ck_transcript c @ filter (\<lambda>line. line \<noteq> []) ls)"
proof -
  let ?t = "ck_transcript c @ filter (\<lambda>line. line \<noteq> []) ls"
  have "nat (int (length ?t) - int transcriptLines) = length ?t - 50"
    unfolding transcriptLines_def by linarith
  then show ?thesis
    by (simp only: check_record_def Let_def last_n_def check.select_convs check.update_convs) (simp add: transcriptLines_def)
qed

lemma fold_check_record:
  "ck_transcript (fold check_record lss c)
     = last_n 50 (ck_transcript c @ filter (\<lambda>line. line \<noteq> []) (concat lss))"
  if "length (ck_transcript c) \<le> 50"
  using that
proof (induction lss arbitrary: c)
  case Nil
  then show ?case by (simp add: last_n_def)
next
  case (Cons ls lss)
  have "length (ck_transcript (check_record ls c)) \<le> 50"
    by (simp add: check_record_transcript last_n_def)
  with Cons.IH [of "check_record ls c"] show ?case
    by (simp add: check_record_transcript last_n_append flip: append_assoc)
qed

lemma pick_in_window:
  assumes "\<And>n. 0 < n \<Longrightarrow> 0 \<le> rnd n \<and> rnd n < n" "in64 (iv_Min i)"
    "iv_Min i \<le> iv_Max i" "iv_Max i \<le> max_int64" "iv_Max i - iv_Min i < max_int64"
  shows "\<exists>d. interval_pick rnd i = Some d \<and> iv_Min i \<le> d \<and> d \<le> iv_Max i"
proof (cases "iv_Max i \<le> iv_Min i")
  case True
  then show ?thesis using assms(3) by (simp add: interval_pick_def)
next
  case False
  let ?n = "iv_Max i - iv_Min i + 1"
  have n: "wrap64 (wrap64 (iv_Max i - iv_Min i) + 1) = ?n"
    using False assms(5) by simp
  have r: "0 \<le> rnd ?n" "rnd ?n < ?n" using assms(1) [of ?n] False by auto
  have "in64 (iv_Min i + rnd ?n)"
    using r assms(2,4) by (auto simp: in64_def)
  then show ?thesis
    using False n r by (simp add: interval_pick_def rand_N_def wrap64_id)
qed

section \<open>Properties\<close>

text \<open>A check's transcript is always the last fifty non-empty lines recorded, in order: whatever
  was recorded in whatever portions, truncating after every Record gives the same as keeping
  everything and cutting once.\<close>

theorem transcript_is_tail:
  assumes "ck_transcript c = []"
  shows "ck_transcript (fold check_record lss c) = last_n 50 (filter (\<lambda>line. line \<noteq> []) (concat lss))
         \<and> length (ck_transcript (fold check_record lss c)) \<le> transcriptLines"
  using fold_check_record [of c lss] assms by (simp add: transcriptLines_def last_n_def)

theorem transcript_is_tail_witness:
  "ck_transcript (fold check_record [[''OK: ping''], ['''', ''CRITICAL: down'']]
     \<lparr>ck_Name = ''redis'', ck_Service = ''Redis'', ck_Event = ''redis-mailcow'', ck_Threshold = 5,
      ck_Interval = interval_fixed 1, ck_DeadDelay = 1, ck_transcript = []\<rparr>)
   = [''OK: ping'', ''CRITICAL: down'']"
  using transcript_is_tail [of "\<lparr>ck_Name = ''redis'', ck_Service = ''Redis'', ck_Event = ''redis-mailcow'',
      ck_Threshold = 5, ck_Interval = interval_fixed 1, ck_DeadDelay = 1, ck_transcript = []\<rparr>"
      "[[''OK: ping''], ['''', ''CRITICAL: down'']]"]
  by (simp add: last_n_def)

end
