(* ===== verification/Metrics.thy ===== *)
theory Metrics
  imports Health
begin

text \<open>
  internal/metrics: what the watchdog tells Prometheus. The collectors are a library outside the
  repository, so a \<open>metrics\<close> value is the sequence of calls made on them, oldest first; what a
  counter reads follows from it by counting. A call names the vector, its label values and, for a
  gauge or a histogram, the value; a duration is given in nanoseconds, its conversion to seconds
  being the library boundary.
\<close>

datatype metric_call =
    Inc string "string list"
  | SetTo string "string list" int
  | Observe string "string list" int

type_synonym metrics = "metric_call list"

section \<open>The collectors\<close>

text \<open>The vectors New builds and registers: their names under the namespace
  \<open>mailcow_watchdog\<close>, and their label names.\<close>

definition metric_vecs :: "(string \<times> string list) list" where
  "metric_vecs =
     [(''check_health_percent'', [''check'']),
      (''check_health_points'', [''check'']),
      (''check_threshold_points'', [''check'']),
      (''probe_total'', [''check'', ''probe'', ''status'']),
      (''probe_duration_seconds'', [''check'', ''probe'']),
      (''check_exhausted_total'', [''check'']),
      (''container_restarts_total'', [''container'', ''result'']),
      (''events_total'', [''event'', ''action'']),
      (''notifications_total'', [''result'']),
      (''paused'', []),
      (''build_info'', [''version'', ''build_date''])]"

definition bool_to_float :: "bool \<Rightarrow> int" where
  "bool_to_float b = (if b then 1 else 0)"

section \<open>Operations\<close>

definition metrics_new :: "string \<Rightarrow> string \<Rightarrow> metrics" where
  "metrics_new version date = [SetTo ''build_info'' [version, date] 1]"

definition observe_health :: "string \<Rightarrow> snapshot \<Rightarrow> metrics \<Rightarrow> metrics" where
  "observe_health check s m =
     m @ [SetTo ''check_health_percent'' [check] (sn_percent s),
          SetTo ''check_health_points'' [check] (sn_remaining s),
          SetTo ''check_threshold_points'' [check] (sn_threshold s)]"

definition observe_probe :: "string \<Rightarrow> string \<Rightarrow> status \<Rightarrow> int \<Rightarrow> metrics \<Rightarrow> metrics" where
  "observe_probe check probe status duration m =
     m @ [Inc ''probe_total'' [check, probe, status_string status],
          Observe ''probe_duration_seconds'' [check, probe] duration]"

definition observe_exhausted :: "string \<Rightarrow> metrics \<Rightarrow> metrics" where
  "observe_exhausted check m = m @ [Inc ''check_exhausted_total'' [check]]"

definition observe_restart :: "string \<Rightarrow> string \<Rightarrow> metrics \<Rightarrow> metrics" where
  "observe_restart container result m = m @ [Inc ''container_restarts_total'' [container, result]]"

definition observe_event :: "string \<Rightarrow> string \<Rightarrow> metrics \<Rightarrow> metrics" where
  "observe_event event action m = m @ [Inc ''events_total'' [event, action]]"

definition observe_notification :: "string \<Rightarrow> metrics \<Rightarrow> metrics" where
  "observe_notification result m = m @ [Inc ''notifications_total'' [result]]"

definition set_paused :: "bool \<Rightarrow> metrics \<Rightarrow> metrics" where
  "set_paused paused m = m @ [SetTo ''paused'' [] (bool_to_float paused)]"

definition init_check :: "string \<Rightarrow> int \<Rightarrow> metrics \<Rightarrow> metrics" where
  "init_check check threshold m =
     m @ [SetTo ''check_threshold_points'' [check] threshold,
          SetTo ''check_health_points'' [check] threshold,
          SetTo ''check_health_percent'' [check] (percent threshold threshold)]"

lemmas metrics_defs = observe_health_def observe_probe_def observe_exhausted_def observe_restart_def
  observe_event_def observe_notification_def set_paused_def init_check_def metrics_new_def

section \<open>Reading a metric back\<close>

text \<open>The value of a counter, and of a gauge that was set.\<close>

definition counter :: "string \<Rightarrow> string list \<Rightarrow> metrics \<Rightarrow> nat" where
  "counter v ls m = count_list m (Inc v ls)"

fun gauge :: "string \<Rightarrow> string list \<Rightarrow> metrics \<Rightarrow> int option" where
  "gauge v ls [] = None"
| "gauge v ls (c # m) =
     (case gauge v ls m of Some x \<Rightarrow> Some x
      | None \<Rightarrow> (case c of SetTo v' ls' x \<Rightarrow> if v' = v \<and> ls' = ls then Some x else None | _ \<Rightarrow> None))"

lemma counter_append [simp]: "counter v ls (m @ m') = counter v ls m + counter v ls m'"
  by (simp add: counter_def)

lemma counter_simps [simp]:
  "counter v ls [] = 0"
  "counter v ls (Inc v' ls' # m) = (if v' = v \<and> ls' = ls then Suc (counter v ls m) else counter v ls m)"
  "counter v ls (SetTo v' ls' x # m) = counter v ls m"
  "counter v ls (Observe v' ls' x # m) = counter v ls m"
  by (simp_all add: counter_def)

lemma gauge_append: "gauge v ls (m @ m') = (case gauge v ls m' of Some x \<Rightarrow> Some x | None \<Rightarrow> gauge v ls m)"
  by (induction m) (auto split: option.splits)

lemma gauge_set_paused [simp]: "gauge ''paused'' [] (set_paused b m) = Some (if b then 1 else 0)"
  by (simp add: set_paused_def gauge_append bool_to_float_def)

section \<open>Label counts\<close>

text \<open>WithLabelValues panics unless it gets one value per label of a registered vector.\<close>

fun call_fits :: "metric_call \<Rightarrow> bool" where
  "call_fits (Inc v ls) = (case map_of metric_vecs v of None \<Rightarrow> False | Some ns \<Rightarrow> length ls = length ns)"
| "call_fits (SetTo v ls x) = (case map_of metric_vecs v of None \<Rightarrow> False | Some ns \<Rightarrow> length ls = length ns)"
| "call_fits (Observe v ls x) = (case map_of metric_vecs v of None \<Rightarrow> False | Some ns \<Rightarrow> length ls = length ns)"

definition metrics_ok :: "metrics \<Rightarrow> bool" where
  "metrics_ok m \<longleftrightarrow> list_all call_fits m"

lemma metrics_ok_ops [simp]:
  "metrics_ok (metrics_new v date)"
  "metrics_ok (observe_health c s m) = metrics_ok m"
  "metrics_ok (observe_probe c p st d m) = metrics_ok m"
  "metrics_ok (observe_exhausted c m) = metrics_ok m"
  "metrics_ok (observe_restart c r m) = metrics_ok m"
  "metrics_ok (observe_event e a m) = metrics_ok m"
  "metrics_ok (observe_notification r m) = metrics_ok m"
  "metrics_ok (set_paused b m) = metrics_ok m"
  "metrics_ok (init_check c t m) = metrics_ok m"
  by (simp_all add: metrics_ok_def metrics_defs metric_vecs_def)

end
