(* ===== verification/Json.thy ===== *)
theory Json
  imports Go_Prelude
begin

text \<open>
  encoding/json as the watchdog uses it: the text of a JSON string and of a struct whose fields
  are all strings, with and without the HTML escapes, exact on ASCII text. The reader at the end is
  the consumer's side, the mailcow UI or a webhook receiver; it states the round trips.
\<close>

section \<open>Writing\<close>

definition json_char :: "bool \<Rightarrow> char \<Rightarrow> string" where
  "json_char html c =
     (if c = CHR 0x22 then [CHR 0x5C, CHR 0x22]
      else if c = CHR 0x5C then [CHR 0x5C, CHR 0x5C]
      else if c = CHR 0x08 then CHR 0x5C # ''b''
      else if c = CHR 0x0C then CHR 0x5C # ''f''
      else if c = CHR 0x0A then CHR 0x5C # ''n''
      else if c = CHR 0x0D then CHR 0x5C # ''r''
      else if c = CHR 0x09 then CHR 0x5C # ''t''
      else if (of_char c :: nat) < 32 then CHR 0x5C # ''u00'' @ hex2 c
      else if html \<and> c \<in> set ''<>&'' then CHR 0x5C # ''u00'' @ hex2 c
      else [c])"

definition json_body :: "bool \<Rightarrow> string \<Rightarrow> string" where
  "json_body html s = concat (map (json_char html) s)"

definition json_string :: "bool \<Rightarrow> string \<Rightarrow> string" where
  "json_string html s = CHR 0x22 # json_body html s @ [CHR 0x22]"

text \<open>json.Marshal of a struct of strings, its fields in declaration order.\<close>

definition json_field :: "string \<times> string \<Rightarrow> string" where
  "json_field f = json_string True (fst f) @ '':'' @ json_string True (snd f)"

definition json_object :: "(string \<times> string) list \<Rightarrow> string" where
  "json_object fs = ''{'' @ join '','' (map json_field fs) @ ''}''"

section \<open>Reading\<close>

definition hex_val :: "char \<Rightarrow> nat option" where
  "hex_val c = (let n = (of_char c :: nat) in
     if 48 \<le> n \<and> n \<le> 57 then Some (n - 48)
     else if 97 \<le> n \<and> n \<le> 102 then Some (n - 87)
     else if 65 \<le> n \<and> n \<le> 70 then Some (n - 55)
     else None)"

text \<open>The character a backslash sequence stands for, and the text after it.\<close>

fun read_escape :: "string \<Rightarrow> (char \<times> string) option" where
  "read_escape (e # s) =
     (if e = CHR 0x22 \<or> e = CHR 0x5C \<or> e = CHR ''/'' then Some (e, s)
      else if e = CHR ''b'' then Some (CHR 0x08, s)
      else if e = CHR ''f'' then Some (CHR 0x0C, s)
      else if e = CHR ''n'' then Some (CHR 0x0A, s)
      else if e = CHR ''r'' then Some (CHR 0x0D, s)
      else if e = CHR ''t'' then Some (CHR 0x09, s)
      else if e = CHR ''u'' then
        (case s of z1 # z2 # h # l # s' \<Rightarrow>
           (case (hex_val h, hex_val l) of
              (Some a, Some b) \<Rightarrow>
                if z1 = CHR ''0'' \<and> z2 = CHR ''0'' then Some (char_of (16 * a + b), s') else None
            | _ \<Rightarrow> None)
         | _ \<Rightarrow> None)
      else None)"
| "read_escape [] = None"

lemma read_escape_length: "read_escape s = Some (c, r) \<Longrightarrow> length r < length s"
  by (cases s) (auto split: if_splits list.splits option.splits)

text \<open>The text up to the closing quote, and what follows it.\<close>

function read_body :: "string \<Rightarrow> (string \<times> string) option" where
  "read_body [] = None"
| "read_body (c # s) =
     (if c = CHR 0x22 then Some ([], s)
      else if c = CHR 0x5C then
        (case read_escape s of None \<Rightarrow> None
         | Some (d, r) \<Rightarrow> map_option (\<lambda>(v, q). (d # v, q)) (read_body r))
      else if (of_char c :: nat) < 32 then None
      else map_option (\<lambda>(v, q). (c # v, q)) (read_body s))"
  by pat_completeness auto
termination
  by (relation "measure length") (auto dest: read_escape_length)

fun read_string :: "string \<Rightarrow> (string \<times> string) option" where
  "read_string (c # s) = (if c = CHR 0x22 then read_body s else None)"
| "read_string [] = None"

lemma read_body_length: "read_body s = Some (v, r) \<Longrightarrow> length r < length s"
proof (induction s arbitrary: v r rule: read_body.induct)
  case 1
  then show ?case by simp
next
  case (2 c s)
  consider "c = CHR 0x22" | "c = CHR 0x5C" | "c \<noteq> CHR 0x22" "c \<noteq> CHR 0x5C" by blast
  then show ?case
  proof cases
    case 1
    with "2.prems" show ?thesis by simp
  next
    case 2
    with "2.prems" obtain d q v' where q: "read_escape s = Some (d, q)" "read_body q = Some (v', r)"
      by (auto split: option.splits)
    then have "length r < length q" using "2.IH"(1) [of "(d, q)" d q] 2 by auto
    then show ?thesis using read_escape_length [OF q(1)] by simp
  next
    case 3
    with "2.prems" obtain v' where "read_body s = Some (v', r)"
      by (auto split: if_splits)
    then show ?thesis using "2.IH"(2) 3 "2.prems" by (force split: if_splits)
  qed
qed

text \<open>The fields of an object of strings, after its opening brace.\<close>

function read_fields :: "string \<Rightarrow> (string \<times> string) list option" where
  "read_fields s =
     (case read_string s of
        Some (k, CHR '':'' # s1) \<Rightarrow>
          (case read_string s1 of
             Some (v, CHR '','' # s2) \<Rightarrow> map_option (\<lambda>fs. (k, v) # fs) (read_fields s2)
           | Some (v, CHR ''}'' # s2) \<Rightarrow> (if s2 = [] then Some [(k, v)] else None)
           | _ \<Rightarrow> None)
      | _ \<Rightarrow> None)"
  by pat_completeness auto
termination
proof (relation "measure length", goal_cases)
  case 1
  show ?case by simp
next
  case (2 s p k r c s1 x11 x12 x13 x14 x15 x16 x17 x18 p' v r' c' s2)
  then show ?case
    by (cases s; cases s1) (auto split: if_splits dest!: read_body_length)
qed

fun read_object :: "string \<Rightarrow> (string \<times> string) list option" where
  "read_object (c # s) = (if c = CHR ''{'' then read_fields s else None)"
| "read_object [] = None"

declare read_fields.simps [simp del]


section \<open>What is written is read back\<close>

lemma hex_val_hex_char: "n < 16 \<Longrightarrow> hex_val (hex_char n) = Some n"
  by (auto simp: hex_val_def hex_char_def Let_def)

lemma read_escape_hex:
  "read_escape (CHR ''u'' # CHR ''0'' # CHR ''0'' # hex2 c @ r) = Some (c, r)"
proof -
  have "(of_char c :: nat) div 16 < 16" "(of_char c :: nat) mod 16 < 16"
    by (simp_all add: less_mult_imp_div_less)
  then show ?thesis by (simp add: hex2_def Let_def hex_val_hex_char)
qed

lemma read_body_escape:
  "read_escape s = Some (c, t) \<Longrightarrow>
     read_body (CHR 0x5C # s) = map_option (\<lambda>(v, q). (c # v, q)) (read_body t)"
  by simp

text \<open>The three shapes a character is written in.\<close>

lemma json_char_cases:
  obtains (short) e where "json_char html c = [CHR 0x5C, e]" "\<And>t. read_escape (e # t) = Some (c, t)"
      "32 \<le> (of_char e :: nat)"
  | (hex) "json_char html c = CHR 0x5C # ''u00'' @ hex2 c"
  | (plain) "json_char html c = [c]" "c \<noteq> CHR 0x22" "c \<noteq> CHR 0x5C" "32 \<le> (of_char c :: nat)"
proof -
  consider (s) "c \<in> {CHR 0x22, CHR 0x5C, CHR 0x08, CHR 0x0C, CHR 0x0A, CHR 0x0D, CHR 0x09}"
    | (n) "c \<notin> {CHR 0x22, CHR 0x5C, CHR 0x08, CHR 0x0C, CHR 0x0A, CHR 0x0D, CHR 0x09}" by blast
  then show thesis
  proof cases
    case s
    then consider "c = CHR 0x22" | "c = CHR 0x5C" | "c = CHR 0x08" | "c = CHR 0x0C" | "c = CHR 0x0A" | "c = CHR 0x0D" | "c = CHR 0x09" by blast
    then show thesis
    proof cases
      case 1
      then show thesis by (intro short [of "CHR 0x22"]) (simp_all add: json_char_def)
    next
      case 2
      then show thesis by (intro short [of "CHR 0x5C"]) (simp_all add: json_char_def)
    next
      case 3
      then show thesis by (intro short [of "CHR ''b''"]) (simp_all add: json_char_def)
    next
      case 4
      then show thesis by (intro short [of "CHR ''f''"]) (simp_all add: json_char_def)
    next
      case 5
      then show thesis by (intro short [of "CHR ''n''"]) (simp_all add: json_char_def)
    next
      case 6
      then show thesis by (intro short [of "CHR ''r''"]) (simp_all add: json_char_def)
    next
      case 7
      then show thesis by (intro short [of "CHR ''t''"]) (simp_all add: json_char_def)
    qed
  next
    case n
    then have e: "json_char html c =
        (if (of_char c :: nat) < 32 \<or> html \<and> c \<in> set ''<>&'' then CHR 0x5C # ''u00'' @ hex2 c else [c])"
      by (simp add: json_char_def)
    show thesis
    proof (cases "(of_char c :: nat) < 32 \<or> html \<and> c \<in> set ''<>&''")
      case True
      with e show thesis by (intro hex) simp
    next
      case False
      with e n show thesis by (intro plain) auto
    qed
  qed
qed

lemma read_body_json_char:
  "read_body (json_char html c @ t) = map_option (\<lambda>(v, q). (c # v, q)) (read_body t)"
proof (cases rule: json_char_cases [of html c])
  case (short e)
  then show ?thesis using read_body_escape [OF short(2)] by simp
next
  case hex
  show ?thesis using read_body_escape [OF read_escape_hex [of c t]] by (simp add: hex)
next
  case plain
  then show ?thesis by simp
qed

lemma read_body_json_body: "read_body (json_body html s @ CHR 0x22 # r) = Some (s, r)"
  by (induction s) (simp_all add: json_body_def read_body_json_char)

lemma read_string_json_string [simp]: "read_string (json_string html s @ r) = Some (s, r)"
  by (simp add: json_string_def read_body_json_body)

lemma json_field_append [simp]:
  "json_field f @ r = json_string True (fst f) @ CHR '':'' # json_string True (snd f) @ r"
  by (simp add: json_field_def)

lemma read_fields_join:
  "fs \<noteq> [] \<Longrightarrow> read_fields (join '','' (map json_field fs) @ ''}'') = Some fs"
proof (induction fs rule: list_nonempty_induct)
  case (single f)
  then show ?case by (subst read_fields.simps) simp
next
  case (cons f fs)
  then show ?case
    by (subst read_fields.simps) (simp add: join_Cons)
qed

lemma read_object_json_object: "fs \<noteq> [] \<Longrightarrow> read_object (json_object fs) = Some fs"
  using read_fields_join by (simp only: json_object_def append.simps read_object.simps if_True refl)

text \<open>A JSON string's body holds no raw quote, control character or, with the HTML escapes, markup.\<close>

lemma hex_char_printable: "n < 16 \<Longrightarrow> 32 \<le> (of_char (hex_char n) :: nat)"
  by (auto simp: hex_char_def)

lemma json_char_printable: "d \<in> set (json_char html c) \<Longrightarrow> 32 \<le> (of_char d :: nat)"
proof (cases rule: json_char_cases [of html c])
  case hex
  have h: "(of_char c :: nat) div 16 < 16" "(of_char c :: nat) mod 16 < 16"
    by (simp_all add: less_mult_imp_div_less)
  assume "d \<in> set (json_char html c)"
  then show ?thesis
    using hex_char_printable [OF h(1)] hex_char_printable [OF h(2)]
    by (auto simp: hex hex2_def Let_def)
qed auto

lemma json_string_printable: "d \<in> set (json_string html s) \<Longrightarrow> 32 \<le> (of_char d :: nat)"
  using json_char_printable by (auto simp: json_string_def json_body_def)

end
