(* ===== verification/Store.thy ===== *)
theory Store
  imports Json Health
begin

text \<open>
  internal/store: the records the mailcow UI reads from WATCHDOG_LOG, the message sanitizer and
  the Redis-backed store. The Redis client is a library outside the repository: its commands are
  the fields of \<open>redis_client\<close>, functions on a server state \<open>'s\<close> that nothing here fixes.
  A time is its distance from the Unix epoch in nanoseconds.
\<close>

section \<open>Log records\<close>

record progress_entry =
  pe_Time :: string
  pe_Service :: string
  pe_Level :: string
  pe_Now :: string
  pe_Total :: string
  pe_Diff :: string

record message_entry =
  me_Time :: string
  me_Message :: string

definition progress_fields :: "progress_entry \<Rightarrow> (string \<times> string) list" where
  "progress_fields e =
     [(''time'', pe_Time e), (''service'', pe_Service e), (''lvl'', pe_Level e),
      (''hpnow'', pe_Now e), (''hptotal'', pe_Total e), (''hpdiff'', pe_Diff e)]"

definition message_fields :: "message_entry \<Rightarrow> (string \<times> string) list" where
  "message_fields e = [(''time'', me_Time e), (''message'', me_Message e)]"

text \<open>Time.Unix floors to seconds.\<close>

definition timestamp :: "int \<Rightarrow> string" where
  "timestamp at = itoa (at div 1000000000)"

text \<open>\<open>sanitized\<close> and Sanitize.\<close>

definition sanitized :: string where
  "sanitized = CHR 0x0D # CHR 0x0A # ''%&;$'' @ CHR 0x22 # ''_[]{}-''"

definition sanitize :: "string \<Rightarrow> string" where
  "sanitize message = map (\<lambda>r. if r \<in> set sanitized then CHR '' '' else r) message"

text \<open>json.Marshal cannot fail on a struct of strings, so \<open>encode\<close> has no error branch.\<close>

definition encode :: "(string \<times> string) list \<Rightarrow> string" where
  "encode fs = json_object fs"

definition encode_message :: "string \<Rightarrow> int \<Rightarrow> string" where
  "encode_message message at =
     encode (message_fields \<lparr>me_Time = timestamp at, me_Message = sanitize message\<rparr>)"

definition encode_progress :: "snapshot \<Rightarrow> int \<Rightarrow> string" where
  "encode_progress s at =
     encode (progress_fields
       \<lparr>pe_Time = timestamp at, pe_Service = sn_service s, pe_Level = itoa (sn_percent s),
        pe_Now = itoa (sn_remaining s), pe_Total = itoa (sn_threshold s),
        pe_Diff = itoa (sn_trend s)\<rparr>)"

section \<open>The Redis store\<close>

datatype 'a reply = RNil | RErr error | RVal 'a

record 's redis_client =
  cl_ping :: "'s \<Rightarrow> error option \<times> 's"
  cl_get :: "string \<Rightarrow> 's \<Rightarrow> string reply \<times> 's"
  cl_set :: "string \<Rightarrow> string \<Rightarrow> 's \<Rightarrow> error option \<times> 's"
  cl_hkeys :: "string \<Rightarrow> 's \<Rightarrow> string list reply \<times> 's"
  cl_lrange :: "string \<Rightarrow> int \<Rightarrow> int \<Rightarrow> 's \<Rightarrow> string list reply \<times> 's"
  cl_lpush :: "string \<Rightarrow> string \<Rightarrow> 's \<Rightarrow> error option \<times> 's"
  cl_setnx :: "string \<Rightarrow> string \<Rightarrow> int \<Rightarrow> 's \<Rightarrow> bool res \<times> 's"
  cl_ttl :: "string \<Rightarrow> 's \<Rightarrow> int res \<times> 's"
  cl_now :: "'s \<Rightarrow> int"

definition LogKey :: string where
  "LogKey = ''WATCHDOG_LOG''"

definition throttlePrefix :: string where
  "throttlePrefix = ''THROTTLE_''"

definition redis_ping :: "'s redis_client \<Rightarrow> 's \<Rightarrow> error option \<times> 's" where
  "redis_ping r s = cl_ping r s"

text \<open>Get: a missing key is no error; the result is an error or the value and whether it was
  there.\<close>

definition redis_get :: "'s redis_client \<Rightarrow> string \<Rightarrow> 's \<Rightarrow> (string \<times> bool) res \<times> 's" where
  "redis_get r key s =
     (case cl_get r key s of
        (RNil, s') \<Rightarrow> (Inr ([], False), s')
      | (RErr e, s') \<Rightarrow> (Inl (''GET '' @ key @ '': '' @ e), s')
      | (RVal v, s') \<Rightarrow> (Inr (v, True), s'))"

definition redis_set :: "'s redis_client \<Rightarrow> string \<Rightarrow> string \<Rightarrow> 's \<Rightarrow> error option \<times> 's" where
  "redis_set r key value s =
     (case cl_set r key value s of
        (Some e, s') \<Rightarrow> (Some (''SET '' @ key @ '': '' @ e), s')
      | (None, s') \<Rightarrow> (None, s'))"

definition redis_hkeys :: "'s redis_client \<Rightarrow> string \<Rightarrow> 's \<Rightarrow> string list res \<times> 's" where
  "redis_hkeys r key s =
     (case cl_hkeys r key s of
        (RNil, s') \<Rightarrow> (Inr [], s')
      | (RErr e, s') \<Rightarrow> (Inl (''HKEYS '' @ key @ '': '' @ e), s')
      | (RVal names, s') \<Rightarrow> (Inr names, s'))"

definition redis_lrange :: "'s redis_client \<Rightarrow> string \<Rightarrow> int \<Rightarrow> int \<Rightarrow> 's \<Rightarrow> string list res \<times> 's" where
  "redis_lrange r key start stop s =
     (case cl_lrange r key start stop s of
        (RNil, s') \<Rightarrow> (Inr [], s')
      | (RErr e, s') \<Rightarrow> (Inl (''LRANGE '' @ key @ '': '' @ e), s')
      | (RVal values, s') \<Rightarrow> (Inr values, s'))"

definition redis_push :: "'s redis_client \<Rightarrow> string \<Rightarrow> 's \<Rightarrow> error option \<times> 's" where
  "redis_push r encoded s =
     (case cl_lpush r LogKey encoded s of
        (Some e, s') \<Rightarrow> (Some (''LPUSH '' @ LogKey @ '': '' @ e), s')
      | (None, s') \<Rightarrow> (None, s'))"

definition redis_log_message :: "'s redis_client \<Rightarrow> string \<Rightarrow> 's \<Rightarrow> error option \<times> 's" where
  "redis_log_message r message s = redis_push r (encode_message message (cl_now r s)) s"

definition redis_log_progress :: "'s redis_client \<Rightarrow> snapshot \<Rightarrow> 's \<Rightarrow> error option \<times> 's" where
  "redis_log_progress r sn s = redis_push r (encode_progress sn (cl_now r s)) s"

text \<open>Reserve returns whether the caller may proceed, how long the reservation still runs, and an
  error.\<close>

definition redis_reserve :: "'s redis_client \<Rightarrow> string \<Rightarrow> int \<Rightarrow> 's \<Rightarrow> (bool \<times> int \<times> error option) \<times> 's" where
  "redis_reserve r key ttl s =
     (let full = throttlePrefix @ key in
      case cl_setnx r full ''1'' ttl s of
        (Inl e, s1) \<Rightarrow> ((False, 0, Some (''SET NX '' @ full @ '': '' @ e)), s1)
      | (Inr True, s1) \<Rightarrow> ((True, 0, None), s1)
      | (Inr False, s1) \<Rightarrow>
          (case cl_ttl r full s1 of
             (Inl e, s2) \<Rightarrow> ((False, 0, None), s2)
           | (Inr left, s2) \<Rightarrow> ((False, (if left < 0 then 0 else left), None), s2)))"

section \<open>The throttle as an interface\<close>

text \<open>
  What the dispatcher relies on in a Reserver: \<open>deadline s key\<close> is when the key's reservation runs out,
  \<open>held ttl\<close> how long one that is asked for \<open>ttl\<close> is kept. A slot is only given when no reservation is
  live, and then it is kept; a refusal changes nothing. What an error leaves behind is open.
\<close>

locale reserver =
  fixes reserve :: "string \<Rightarrow> int \<Rightarrow> 's \<Rightarrow> (bool \<times> int \<times> error option) \<times> 's"
    and now :: "'s \<Rightarrow> int"
    and deadline :: "'s \<Rightarrow> string \<Rightarrow> int option"
    and held :: "int \<Rightarrow> int"
  assumes grant: "reserve k ttl s = ((True, wait, None), s') \<Longrightarrow> 0 < ttl \<Longrightarrow>
      (\<forall>d. deadline s k = Some d \<longrightarrow> d \<le> now s) \<and> now s' = now s \<and>
      deadline s' = (deadline s)(k \<mapsto> now s + held ttl)"
    and refuse: "reserve k ttl s = ((False, wait, None), s') \<Longrightarrow> 0 < ttl \<Longrightarrow>
      0 \<le> wait \<and> now s' = now s \<and> deadline s' = deadline s"
begin

text \<open>A slot once given is not given again until its time is up, whoever asks.\<close>

lemma taken:
  assumes "reserve k ttl s = ((True, wait, None), s')" "deadline u k = deadline s' k"
    "now u < now s + held ttl" "0 < ttl" "0 < ttl'"
  shows "reserve k ttl' u \<noteq> ((True, wait', None), u')"
  using grant [OF assms(1,4)] grant [of k ttl' u wait' u'] assms(2-) by auto

end

section \<open>Properties\<close>

lemma sanitize_char: "c \<in> set (sanitize m) \<Longrightarrow> c \<notin> set sanitized"
  by (auto simp: sanitize_def sanitized_def)

text \<open>C37. A log record loses nothing on its way to the UI: reading the JSON of a health record back
  gives its six fields, with the numbers in decimal, and reading that of a message gives its time
  and the sanitized text, for every service name and every message.\<close>

theorem log_records_roundtrip:
  "read_object (encode_progress s at) =
     Some [(''time'', timestamp at), (''service'', sn_service s), (''lvl'', itoa (sn_percent s)),
           (''hpnow'', itoa (sn_remaining s)), (''hptotal'', itoa (sn_threshold s)),
           (''hpdiff'', itoa (sn_trend s))] \<and>
   read_object (encode_message m at) =
     Some [(''time'', timestamp at), (''message'', sanitize m)]"
  unfolding encode_progress_def encode_message_def encode_def
  by (subst (1 2) read_object_json_object) (simp_all add: progress_fields_def message_fields_def)

text \<open>Equal health records mean equal health: two snapshots and times with the same encoding
  agree in every field and in the second they were taken.\<close>

theorem encode_progress_injective:
  assumes "encode_progress s at = encode_progress s' at'"
  shows "s = s' \<and> at div 1000000000 = at' div 1000000000"
proof -
  have "read_object (encode_progress s at) = read_object (encode_progress s' at')"
    using assms by simp
  then show ?thesis
    using log_records_roundtrip [of s at] log_records_roundtrip [of s' at']
    by (auto simp: timestamp_def dest!: itoa_inj)
qed

theorem encode_progress_injective_witness:
  "encode_progress (tracker_snapshot (tracker_new ''Nginx'' 5)) 0
     = encode_progress (tracker_snapshot (tracker_new ''Nginx'' 5)) 999999999 \<and>
   (0::int) div 1000000000 = 999999999 div 1000000000"
proof -
  have e: "encode_progress (tracker_snapshot (tracker_new ''Nginx'' 5)) 0
     = encode_progress (tracker_snapshot (tracker_new ''Nginx'' 5)) 999999999"
    by (simp add: encode_progress_def timestamp_def)
  show ?thesis using e encode_progress_injective [OF e] by simp
qed

text \<open>Sanitize keeps the length, blanks exactly the characters watchdog.sh's tr blanked and
  leaves every other one alone, and sanitizing twice changes nothing more.\<close>

theorem sanitize_blanks:
  "length (sanitize m) = length m \<and>
   (\<forall>i < length m. sanitize m ! i = (if m ! i \<in> set sanitized then CHR '' '' else m ! i)) \<and>
   set (sanitize m) \<inter> set sanitized = {} \<and> sanitize (sanitize m) = sanitize m"
proof -
  have "map (\<lambda>r. if r \<in> set sanitized then CHR '' '' else r) (sanitize m) = sanitize m"
    using sanitize_char by (intro map_idI) auto
  then have "sanitize (sanitize m) = sanitize m" by (simp add: sanitize_def)
  moreover have "set (sanitize m) \<inter> set sanitized = {}" using sanitize_char by blast
  ultimately show ?thesis by (simp add: sanitize_def)
qed

theorem sanitize_blanks_witness:
  "(0::nat) < length ''nginx-mailcow'' \<and> sanitize ''nginx-mailcow'' = ''nginx mailcow'' \<and>
   length (sanitize ''nginx-mailcow'') = 13"
  using sanitize_blanks [of "''nginx-mailcow''"] by (simp add: sanitize_def sanitized_def)

text \<open>How long go-redis keeps a key that is set for a positive duration: whole milliseconds, at least
  one.\<close>

definition px_millis :: "int \<Rightarrow> int" where
  "px_millis ttl = max 1 (ttl div 1000000) * 1000000"

lemma px_millis_whole: "0 < ttl \<Longrightarrow> 1000000 dvd ttl \<Longrightarrow> px_millis ttl = ttl"
  by (auto simp: px_millis_def elim!: dvdE)

text \<open>The documented behaviour of SET NX with an expiry and of TTL, as a predicate on the client:
  \<open>expiry\<close> is when a key's reservation runs out, \<open>clock\<close> the server's time. NX never sets a key that
  is there, with whatever expiry; a positive one is kept as \<open>px_millis\<close> says, and nothing is said about
  zero, which go-redis sends without an expiry, or a negative one. TTL only reads. A command that
  fails may have any effect. Time passes between commands.\<close>

definition redis_documented ::
  "'s redis_client \<Rightarrow> ('s \<Rightarrow> int) \<Rightarrow> ('s \<Rightarrow> string \<Rightarrow> int option) \<Rightarrow> bool" where
  "redis_documented r clock expiry \<longleftrightarrow>
     (\<forall>k v ttl s. case cl_setnx r k v ttl s of
        (Inl e, s') \<Rightarrow> True
      | (Inr b, s') \<Rightarrow>
          (b \<longrightarrow> (\<forall>d. expiry s k = Some d \<longrightarrow> d \<le> clock s)) \<and>
          (0 < ttl \<longrightarrow> clock s' = clock s \<and>
             expiry s' = (if b then (expiry s)(k \<mapsto> clock s + px_millis ttl) else expiry s))) \<and>
     (\<forall>k s. clock (snd (cl_ttl r k s)) = clock s \<and> expiry (snd (cl_ttl r k s)) = expiry s)"

lemma documented_setnx:
  assumes "redis_documented r clock expiry" "cl_setnx r k v ttl s = (Inr b, s')"
  shows "b \<Longrightarrow> expiry s k = Some d \<Longrightarrow> d \<le> clock s" "0 < ttl \<Longrightarrow> clock s' = clock s"
    "0 < ttl \<Longrightarrow> expiry s' = (if b then (expiry s)(k \<mapsto> clock s + px_millis ttl) else expiry s)"
proof -
  have "(b \<longrightarrow> (\<forall>d. expiry s k = Some d \<longrightarrow> d \<le> clock s)) \<and>
          (0 < ttl \<longrightarrow> clock s' = clock s \<and>
             expiry s' = (if b then (expiry s)(k \<mapsto> clock s + px_millis ttl) else expiry s))"
    using assms(1) [unfolded redis_documented_def, THEN conjunct1, THEN spec [of _ k], THEN spec [of _ v], THEN spec [of _ ttl], THEN spec [of _ s]]
    unfolding assms(2) by simp
  then show "b \<Longrightarrow> expiry s k = Some d \<Longrightarrow> d \<le> clock s" "0 < ttl \<Longrightarrow> clock s' = clock s"
    "0 < ttl \<Longrightarrow> expiry s' = (if b then (expiry s)(k \<mapsto> clock s + px_millis ttl) else expiry s)"
    by blast+
qed

text \<open>The three ways Reserve ends without an error, and what the client did.\<close>

lemma redis_reserve_cases:
  assumes "redis_reserve r key ttl s = ((granted, wait, None), s')"
  obtains (granted) "granted" "cl_setnx r (throttlePrefix @ key) ''1'' ttl s = (Inr True, s')"
  | (refused) s1 where "\<not> granted" "0 \<le> wait" "cl_setnx r (throttlePrefix @ key) ''1'' ttl s = (Inr False, s1)"
      "s' = snd (cl_ttl r (throttlePrefix @ key) s1)"
  using assms by (auto simp: redis_reserve_def Let_def split: prod.splits sum.splits bool.splits if_splits)

lemma redis_reserver:
  assumes doc: "redis_documented r clock expiry"
  shows "reserver (redis_reserve r) clock (\<lambda>s k. expiry s (throttlePrefix @ k)) px_millis"
proof (unfold_locales, goal_cases)
  case (1 k ttl s wait s')
  from 1(1) show ?case
  proof (cases rule: redis_reserve_cases)
    case granted
    from documented_setnx [OF doc granted(2)] 1(2) show ?thesis by (auto simp: fun_eq_iff)
  qed simp
next
  case (2 k ttl s wait s')
  from 2(1) show ?case
  proof (cases rule: redis_reserve_cases)
    case (refused s1)
    from documented_setnx [OF doc refused(3)] refused 2(2) doc show ?thesis by (simp add: redis_documented_def)
  qed simp
qed

text \<open>C38. Reserve is exclusive: once it grants a slot for a positive \<open>ttl\<close>, no Reserve of the same key,
  for whatever duration, is granted while the server still has that reservation and less than \<open>ttl\<close>
  (in whole milliseconds, as go-redis sends it, and at least one) has passed; and a Reserve that is
  not granted never reports a negative wait. Two alerts of one service cannot both win, even when two
  processes race.\<close>

theorem redis_reserve_exclusive:
  assumes "redis_documented r clock expiry" "0 < ttl"
    and "redis_reserve r key ttl s = ((True, wait, e), s1)"
    and "expiry u (throttlePrefix @ key) = expiry s1 (throttlePrefix @ key)"
    and "clock u < clock s + px_millis ttl"
  shows "\<not> fst (fst (redis_reserve r key ttl' u)) \<and> 0 \<le> fst (snd (fst (redis_reserve r key ttl' u)))"
proof -
  let ?k = "throttlePrefix @ key"
  have set1: "cl_setnx r ?k ''1'' ttl s = (Inr True, s1)"
    using assms(3) by (auto simp: redis_reserve_def Let_def split: prod.splits sum.splits bool.splits)
  have "expiry u ?k = Some (clock s + px_millis ttl)"
    using documented_setnx(3) [OF assms(1) set1 assms(2)] assms(4) by simp
  then have "cl_setnx r ?k ''1'' ttl' u \<noteq> (Inr True, u')" for u'
    using documented_setnx(1) [OF assms(1), of ?k "''1''" ttl' u True u'] assms(5) by auto
  then have "\<not> fst (fst (redis_reserve r key ttl' u))"
    by (auto simp: redis_reserve_def Let_def split: prod.splits sum.splits bool.splits)
  then show ?thesis
    by (auto simp: redis_reserve_def Let_def split: prod.splits sum.splits bool.splits)
qed

text \<open>A client with that behaviour, over a clock and a map of expiries.\<close>

definition memory_redis :: "(int \<times> (string \<rightharpoonup> int)) redis_client" where
  "memory_redis =
     \<lparr>cl_ping = (\<lambda>s. (None, s)), cl_get = (\<lambda>k s. (RNil, s)), cl_set = (\<lambda>k v s. (None, s)),
      cl_hkeys = (\<lambda>k s. (RNil, s)), cl_lrange = (\<lambda>k a b s. (RNil, s)),
      cl_lpush = (\<lambda>k v s. (None, s)),
      cl_setnx = (\<lambda>k v ttl (now, m).
        (case m k of Some d \<Rightarrow> if d \<le> now then (Inr True, (now, m(k \<mapsto> now + px_millis ttl))) else (Inr False, (now, m))
         | None \<Rightarrow> (Inr True, (now, m(k \<mapsto> now + px_millis ttl))))),
      cl_ttl = (\<lambda>k (now, m). (Inr (case m k of None \<Rightarrow> - 2 | Some d \<Rightarrow> d - now), (now, m))),
      cl_now = fst\<rparr>"

lemma memory_redis_documented: "redis_documented memory_redis fst snd"
  by (auto simp: redis_documented_def memory_redis_def split: option.splits)

lemma redis_reserve_memory:
  "redis_reserve memory_redis k ttl s =
     (case snd s (throttlePrefix @ k) of
        Some d \<Rightarrow> if fst s < d then ((False, d - fst s, None), s)
          else ((True, 0, None), (fst s, (snd s)(throttlePrefix @ k \<mapsto> fst s + px_millis ttl)))
      | None \<Rightarrow> ((True, 0, None), (fst s, (snd s)(throttlePrefix @ k \<mapsto> fst s + px_millis ttl))))"
  by (cases s) (auto simp: redis_reserve_def memory_redis_def Let_def split: option.splits)

interpretation mem: reserver "redis_reserve memory_redis" fst "\<lambda>s k. snd s (throttlePrefix @ k)" px_millis
  by (rule redis_reserver [OF memory_redis_documented])

theorem redis_reserve_exclusive_witness:
  "redis_reserve memory_redis ''certcheck'' 5000000 (0, Map.empty)
     = ((True, 0, None), (0, [''THROTTLE_certcheck'' \<mapsto> 5000000])) \<and>
   \<not> fst (fst (redis_reserve memory_redis ''certcheck'' 5000000 (50, [''THROTTLE_certcheck'' \<mapsto> 5000000])))"
proof -
  have g: "redis_reserve memory_redis ''certcheck'' 5000000 (0, Map.empty)
     = ((True, 0, None), (0, [''THROTTLE_certcheck'' \<mapsto> 5000000]))"
    by (simp add: redis_reserve_def memory_redis_def throttlePrefix_def px_millis_def)
  have p: "(0::int) < 5000000" by simp
  show ?thesis
    using g redis_reserve_exclusive [OF memory_redis_documented p g,
      of "(50, [''THROTTLE_certcheck'' \<mapsto> 5000000])" 5000000] by (simp add: px_millis_def)
qed

end
