(* ===== verification/Storetest.thy ===== *)
theory Storetest
  imports Store
begin

text \<open>
  internal/store/storetest: the in-memory store. It is the second implementation of store.Store;
  its Reserve is the model on which the throttle's interface is interpreted. The clock \<open>Now\<close> is a
  function in Go; here \<open>fk_Now\<close> is the value it returns at the moment.
\<close>

record fake =
  fk_strings :: "string \<rightharpoonup> string"
  fk_hashes :: "string \<rightharpoonup> string list"
  fk_lists :: "string \<rightharpoonup> string list"
  fk_reservations :: "string \<rightharpoonup> int"
  fk_Log :: "string list"
  fk_Now :: int
  fk_Err :: "error option"
  fk_PingErr :: "error option"

text \<open>2026-01-01T00:00:00Z.\<close>

definition fake_Fixed :: int where
  "fake_Fixed = 1767225600 * 1000000000"

definition fake_new :: fake where
  "fake_new = \<lparr>fk_strings = Map.empty, fk_hashes = Map.empty, fk_lists = Map.empty,
     fk_reservations = Map.empty, fk_Log = [], fk_Now = fake_Fixed, fk_Err = None, fk_PingErr = None\<rparr>"

definition fake_ping :: "fake \<Rightarrow> error option" where
  "fake_ping f = fk_PingErr f"

definition fake_get :: "fake \<Rightarrow> string \<Rightarrow> (string \<times> bool) res" where
  "fake_get f key =
     (case fk_Err f of Some e \<Rightarrow> Inl e
      | None \<Rightarrow> Inr (case fk_strings f key of None \<Rightarrow> ([], False) | Some v \<Rightarrow> (v, True)))"

definition fake_set :: "string \<Rightarrow> string \<Rightarrow> fake \<Rightarrow> error option \<times> fake" where
  "fake_set key value f = (None, f\<lparr>fk_strings := (fk_strings f)(key \<mapsto> value)\<rparr>)"

definition fake_hkeys :: "fake \<Rightarrow> string \<Rightarrow> string list res" where
  "fake_hkeys f key =
     (case fk_Err f of Some e \<Rightarrow> Inl e
      | None \<Rightarrow> Inr (case fk_hashes f key of None \<Rightarrow> [] | Some v \<Rightarrow> v))"

text \<open>LRange slices \<open>list[start:end]\<close>, which panics when \<open>end\<close> falls before \<open>start\<close>; the panic
  is \<open>None\<close>.\<close>

definition fake_lrange :: "fake \<Rightarrow> string \<Rightarrow> int \<Rightarrow> int \<Rightarrow> string list res option" where
  "fake_lrange f key start stop =
     (case fk_Err f of Some e \<Rightarrow> Some (Inl e)
      | None \<Rightarrow>
         (let xs = (case fk_lists f key of None \<Rightarrow> [] | Some v \<Rightarrow> v) in
          if start < 0 \<or> start \<ge> int (length xs) then Some (Inr [])
          else let stop' = wrap64 (stop + 1);
                   stop' = (if stop' > int (length xs) then int (length xs) else stop')
               in if stop' < start then None
                  else Some (Inr (take (nat stop' - nat start) (drop (nat start) xs)))))"

definition fake_push :: "string \<Rightarrow> fake \<Rightarrow> fake" where
  "fake_push entry f = f\<lparr>fk_Log := entry # fk_Log f\<rparr>"

definition fake_log_message :: "string \<Rightarrow> fake \<Rightarrow> error option \<times> fake" where
  "fake_log_message message f = (None, fake_push (encode_message message (fk_Now f)) f)"

definition fake_log_progress :: "snapshot \<Rightarrow> fake \<Rightarrow> error option \<times> fake" where
  "fake_log_progress s f = (None, fake_push (encode_progress s (fk_Now f)) f)"

definition fake_reserve :: "string \<Rightarrow> int \<Rightarrow> fake \<Rightarrow> (bool \<times> int \<times> error option) \<times> fake" where
  "fake_reserve key ttl f =
     (let now = fk_Now f in
      case fk_reservations f key of
        Some until \<Rightarrow>
          (if now < until then ((False, until - now, None), f)
           else ((True, 0, None), f\<lparr>fk_reservations := (fk_reservations f)(key \<mapsto> now + ttl)\<rparr>))
      | None \<Rightarrow> ((True, 0, None), f\<lparr>fk_reservations := (fk_reservations f)(key \<mapsto> now + ttl)\<rparr>))"

definition fake_set_string :: "string \<Rightarrow> string \<Rightarrow> fake \<Rightarrow> fake" where
  "fake_set_string key value f = f\<lparr>fk_strings := (fk_strings f)(key \<mapsto> value)\<rparr>"

definition fake_set_hash :: "string \<Rightarrow> string list \<Rightarrow> fake \<Rightarrow> fake" where
  "fake_set_hash key names f = f\<lparr>fk_hashes := (fk_hashes f)(key \<mapsto> names)\<rparr>"

definition fake_set_list :: "string \<Rightarrow> string list \<Rightarrow> fake \<Rightarrow> fake" where
  "fake_set_list key values f = f\<lparr>fk_lists := (fk_lists f)(key \<mapsto> values)\<rparr>"

definition fake_entries :: "fake \<Rightarrow> string list" where
  "fake_entries f = fk_Log f"

definition fake_find_entry :: "fake \<Rightarrow> string \<Rightarrow> string res" where
  "fake_find_entry f want =
     (case filter (\<lambda>entry. contains entry want) (fake_entries f) of
        [] \<Rightarrow> Inl (''no log entry contains '' @ want)
      | entry # _ \<Rightarrow> Inr entry)"

interpretation fk: reserver fake_reserve fk_Now fk_reservations "\<lambda>ttl. ttl"
  by unfold_locales (auto simp: fake_reserve_def Let_def split: option.splits if_splits)

text \<open>The log is read newest first, and a record just written is the first one found.\<close>

lemma fake_entries_log [simp]:
  "fake_entries (snd (fake_log_message m f)) = encode_message m (fk_Now f) # fake_entries f"
  "fake_entries (snd (fake_log_progress s f)) = encode_progress s (fk_Now f) # fake_entries f"
  by (simp_all add: fake_entries_def fake_log_message_def fake_log_progress_def fake_push_def)

lemma fake_find_entry_latest:
  "contains (encode_message m (fk_Now f)) want \<Longrightarrow>
     fake_find_entry (snd (fake_log_message m f)) want = Inr (encode_message m (fk_Now f))"
  by (simp add: fake_find_entry_def)

text \<open>The two slices the probes ask for never panic.\<close>

lemma fake_lrange_from_zero: "0 \<le> stop \<Longrightarrow> stop < max_int64 \<Longrightarrow>
   fake_lrange f key 0 stop =
     Some (case fk_Err f of Some e \<Rightarrow> Inl e
           | None \<Rightarrow> Inr (take (Suc (nat stop)) (case fk_lists f key of None \<Rightarrow> [] | Some v \<Rightarrow> v)))"
  by (auto simp: fake_lrange_def Let_def nat_add_distrib split: option.splits)

end
