(* ===== verification/Go_Time.thy ===== *)
theory Go_Time
  imports Go_Prelude
begin

text \<open>
  Package time, as far as the messages print it: a time.Time is an instant in nanoseconds since the
  epoch together with its location's offset and abbreviation, and the layouts UnixDate and RFC1123Z
  print its civil date. Durations are nanoseconds.
\<close>

record gotime =
  tm_ns :: int
  tm_offset :: int
  tm_zone :: string

definition second :: int where
  [simp]: "second = 1000000000"

definition minute :: int where
  [simp]: "minute = 60 * second"

definition hour :: int where
  [simp]: "hour = 60 * minute"

definition tm_unix :: "gotime \<Rightarrow> int" where
  "tm_unix t = tm_ns t div second"

definition local_seconds :: "gotime \<Rightarrow> int" where
  "local_seconds t = tm_unix t + tm_offset t"

text \<open>The civil date of a day number counted from 1970-01-01, in the proleptic Gregorian calendar:
  years are taken to start in March, so that the leap day ends them.\<close>

definition civil :: "int \<Rightarrow> int \<times> int \<times> int" where
  "civil days =
     (let z = days + 719468;
          era = z div 146097;
          doe = z mod 146097;
          yoe = (doe - doe div 1460 + doe div 36524 - doe div 146096) div 365;
          doy = doe - (365 * yoe + yoe div 4 - yoe div 100);
          mp = (5 * doy + 2) div 153;
          m = (if mp < 10 then mp + 3 else mp - 9)
      in (yoe + era * 400 + (if m \<le> 2 then 1 else 0), m, doy - (153 * mp + 2) div 5 + 1))"

definition weekday :: "int \<Rightarrow> int" where
  "weekday days = (days + 4) mod 7"

definition day_names :: "string list" where
  "day_names = [''Sun'', ''Mon'', ''Tue'', ''Wed'', ''Thu'', ''Fri'', ''Sat'']"

definition month_names :: "string list" where
  "month_names = [''Jan'', ''Feb'', ''Mar'', ''Apr'', ''May'', ''Jun'', ''Jul'', ''Aug'', ''Sep'', ''Oct'',
     ''Nov'', ''Dec'']"

definition pad2 :: "char \<Rightarrow> int \<Rightarrow> string" where
  "pad2 c n = (if n < 10 then [c] else []) @ itoa n"

definition pad4 :: "int \<Rightarrow> string" where
  "pad4 n = replicate (4 - length (itoa n)) CHR ''0'' @ itoa n"

definition clock_text :: "int \<Rightarrow> string" where
  "clock_text s = (let d = s mod 86400 in
     pad2 CHR ''0'' (d div 3600) @ '':'' @ pad2 CHR ''0'' (d mod 3600 div 60) @ '':'' @ pad2 CHR ''0'' (d mod 60))"

text \<open>time.UnixDate is \<open>Mon Jan _2 15:04:05 MST 2006\<close>, time.RFC1123Z is
  \<open>Mon, 02 Jan 2006 15:04:05 -0700\<close>.\<close>

definition unix_date :: "gotime \<Rightarrow> string" where
  "unix_date t =
     (let s = local_seconds t; days = s div 86400; (y, m, d) = civil days in
      day_names ! nat (weekday days) @ '' '' @ month_names ! (nat (m - 1) mod 12) @ '' '' @ pad2 CHR '' '' d
      @ '' '' @ clock_text s @ '' '' @ tm_zone t @ '' '' @ pad4 y)"

definition zone_text :: "int \<Rightarrow> string" where
  "zone_text off = (let a = abs off div 60 in
     (if off < 0 then ''-'' else ''+'') @ pad2 CHR ''0'' (a div 60) @ pad2 CHR ''0'' (a mod 60))"

definition rfc1123z :: "gotime \<Rightarrow> string" where
  "rfc1123z t =
     (let s = local_seconds t; days = s div 86400; (y, m, d) = civil days in
      day_names ! nat (weekday days) @ '', '' @ pad2 CHR ''0'' d @ '' '' @ month_names ! (nat (m - 1) mod 12)
      @ '' '' @ pad4 y @ '' '' @ clock_text s @ '' '' @ zone_text (tm_offset t))"

lemma unix_date_nonempty [simp]: "unix_date t \<noteq> []"
  by (simp add: unix_date_def Let_def split: prod.splits)

text \<open>A date is one line of text.\<close>

lemma itoa_printable: "c \<in> set (itoa n) \<Longrightarrow> 32 < (of_char c :: nat)"
  using nat_text_digits by (fastforce simp: itoa_def split: if_splits)

lemma pad_printable:
  "c \<in> set (pad2 d n) \<Longrightarrow> c = d \<or> 32 < (of_char c :: nat)" "c \<in> set (pad4 n) \<Longrightarrow> 32 < (of_char c :: nat)"
  using itoa_printable by (auto simp: pad2_def pad4_def split: if_splits)

lemma pad0_printable: "c \<in> set (pad2 CHR ''0'' n) \<Longrightarrow> 32 < (of_char c :: nat)"
  using pad_printable(1) [of c "CHR ''0''" n] by auto

lemma clock_text_printable: "c \<in> set (clock_text s) \<Longrightarrow> 32 < (of_char c :: nat)"
  by (auto simp: clock_text_def Let_def dest: pad0_printable)

lemma zone_text_printable: "c \<in> set (zone_text n) \<Longrightarrow> 32 < (of_char c :: nat)"
  by (auto simp: zone_text_def Let_def dest: pad0_printable split: if_splits)

lemma name_printable:
  "c \<in> set (day_names ! nat (weekday d)) \<Longrightarrow> 32 < (of_char c :: nat)"
  "c \<in> set (month_names ! (k mod 12)) \<Longrightarrow> 32 < (of_char c :: nat)"
proof -
  have d: "list_all (list_all (\<lambda>c. 32 < (of_char c :: nat))) day_names"
    and m: "list_all (list_all (\<lambda>c. 32 < (of_char c :: nat))) month_names"
    by (simp_all add: day_names_def month_names_def)
  have "nat (weekday d) < length day_names"
    using pos_mod_bound [of 7 "d + 4"] by (simp add: weekday_def day_names_def)
  then show "c \<in> set (day_names ! nat (weekday d)) \<Longrightarrow> 32 < (of_char c :: nat)"
    using d by (auto simp: list_all_iff)
  have "k mod 12 < length month_names" by (simp add: month_names_def)
  then show "c \<in> set (month_names ! (k mod 12)) \<Longrightarrow> 32 < (of_char c :: nat)"
    using m by (auto simp: list_all_iff)
qed

lemma rfc1123z_printable:
  assumes "c \<in> set (rfc1123z t)"
  shows "32 \<le> (of_char c :: nat)"
proof -
  obtain y m d where v: "civil (local_seconds t div 86400) = (y, m, d)" by (metis prod_cases3)
  define D where "D = day_names ! nat (weekday (local_seconds t div 86400))"
  define M where "M = month_names ! (nat (m - 1) mod 12)"
  define T where "T = clock_text (local_seconds t)"
  define Z where "Z = zone_text (tm_offset t)"
  have "rfc1123z t = D @ '', '' @ pad2 CHR ''0'' d @ '' '' @ M @ '' '' @ pad4 y @ '' '' @ T @ '' '' @ Z"
    by (simp add: rfc1123z_def v D_def M_def T_def Z_def Let_def)
  with assms have "c \<in> set D \<or> c \<in> set M \<or> c \<in> set T \<or> c \<in> set Z \<or> c \<in> set (pad2 CHR ''0'' d) \<or>
      c \<in> set (pad4 y) \<or> c = CHR '','' \<or> c = CHR '' ''"
    by (simp only: set_append Un_iff) auto
  moreover have "c \<in> set D \<Longrightarrow> 32 < (of_char c :: nat)" "c \<in> set M \<Longrightarrow> 32 < (of_char c :: nat)"
    "c \<in> set T \<Longrightarrow> 32 < (of_char c :: nat)" "c \<in> set Z \<Longrightarrow> 32 < (of_char c :: nat)"
    unfolding D_def M_def T_def Z_def by (fact name_printable clock_text_printable zone_text_printable)+
  ultimately show ?thesis using pad0_printable [of c d] pad_printable(2) [of c y] by auto
qed

text \<open>The last day of February 2026, the leap day of 2000 and the day before the epoch.\<close>

lemma civil_examples:
  "civil 20512 = (2026, 2, 28)" "civil 11016 = (2000, 2, 29)" "civil (- 1) = (1969, 12, 31)"
  "weekday 20512 = 6"
  by code_simp+

end
