(* ===== verification/Notify.thy ===== *)
theory Notify
  imports Storetest Go_Time
begin

text \<open>
  internal/notify/notify.go: an alert is rendered into a message, the dispatcher asks the throttle
  and hands the message to a notifier, and \<open>Multi\<close> is the notifier that fans it out. A notifier is
  a function from the message and the outside world to an error, if any, and the world after it.
\<close>

record alert =
  al_Service :: string
  al_Message :: string
  al_Details :: string
  al_Throttle :: int

record message =
  ms_Service :: string
  ms_Subject :: string
  ms_Body :: string

type_synonym 's notifier = "message \<Rightarrow> 's \<Rightarrow> error option \<times> 's"

section \<open>Rendering\<close>

definition defaultBody :: "string \<Rightarrow> string" where
  "defaultBody stamp = ''Service was restarted on '' @ stamp @ '', please check your mailcow installation.''"

definition fail2banService :: string where
  "fail2banService = ''fail2ban''"

definition fail2banBody :: string where
  "fail2banBody = ''Please see netfilter-mailcow for more details and triggered rules.''"

definition render :: "alert \<Rightarrow> string \<Rightarrow> gotime \<Rightarrow> message" where
  "render a subjectPrefix now =
     (let stamp = unix_date now;
          body = (if al_Message a \<noteq> [] then stamp @ '' - '' @ al_Message a else defaultBody stamp);
          subject = subjectPrefix @ '': '' @ al_Service a;
          (subject, body) = (if al_Service a = fail2banService then (body, fail2banBody) else (subject, body));
          body = (if al_Details a \<noteq> [] then al_Details a else body)
      in \<lparr>ms_Service = al_Service a, ms_Subject = subject, ms_Body = body\<rparr>)"

section \<open>Multi\<close>

text \<open>errors.Join: no error when there is none, otherwise the texts one per line.\<close>

definition errors_join :: "error list \<Rightarrow> error option" where
  "errors_join errs = (if errs = [] then None else Some (join [CHR 0x0A] errs))"

text \<open>NewMulti drops the nil channels.\<close>

definition new_multi :: "'s notifier option list \<Rightarrow> 's notifier list" where
  "new_multi channels = concat (map (\<lambda>c. case c of None \<Rightarrow> [] | Some n \<Rightarrow> [n]) channels)"

definition multi_enabled :: "'s notifier list \<Rightarrow> bool" where
  "multi_enabled m = (m \<noteq> [])"

fun multi_errors :: "'s notifier list \<Rightarrow> message \<Rightarrow> 's \<Rightarrow> error list \<times> 's" where
  "multi_errors [] msg s = ([], s)"
| "multi_errors (channel # channels) msg s =
     (case channel msg s of
        (Some err, s') \<Rightarrow> (let (errs, s'') = multi_errors channels msg s' in (err # errs, s''))
      | (None, s') \<Rightarrow> multi_errors channels msg s')"

definition multi_send :: "'s notifier list \<Rightarrow> 's notifier" where
  "multi_send channels msg s = (let (errs, s') = multi_errors channels msg s in (errors_join errs, s'))"

section \<open>Dispatcher\<close>

record 's dispatcher =
  dp_notifier :: "'s notifier option"
  dp_reserver :: "(string \<Rightarrow> int \<Rightarrow> 's \<Rightarrow> (bool \<times> int \<times> error option) \<times> 's) option"
  dp_subjectPrefix :: string
  dp_now :: "'s \<Rightarrow> gotime"

definition dispatcher_new ::
  "'s notifier option \<Rightarrow> (string \<Rightarrow> int \<Rightarrow> 's \<Rightarrow> (bool \<times> int \<times> error option) \<times> 's) option \<Rightarrow> string
     \<Rightarrow> ('s \<Rightarrow> gotime) \<Rightarrow> 's dispatcher" where
  "dispatcher_new notifier res prefix now =
     \<lparr>dp_notifier = notifier, dp_reserver = res, dp_subjectPrefix = prefix, dp_now = now\<rparr>"

text \<open>The throttle's verdict: whether to go on, and the world after asking. An error lets the alert
  through.\<close>

definition passes_throttle :: "'s dispatcher \<Rightarrow> alert \<Rightarrow> 's \<Rightarrow> bool \<times> 's" where
  "passes_throttle d a s =
     (case dp_reserver d of
        None \<Rightarrow> (True, s)
      | Some reserve \<Rightarrow>
          (if al_Throttle a > 0
           then (case reserve (al_Service a) (al_Throttle a) s of
                   ((allowed, wait, Some err), s') \<Rightarrow> (True, s')
                 | ((allowed, wait, None), s') \<Rightarrow> (allowed, s'))
           else (True, s)))"

definition dispatch :: "'s dispatcher \<Rightarrow> alert \<Rightarrow> 's \<Rightarrow> error option \<times> 's" where
  "dispatch d a s =
     (case dp_notifier d of
        None \<Rightarrow> (None, s)
      | Some send \<Rightarrow>
          (case passes_throttle d a s of
             (False, s') \<Rightarrow> (None, s')
           | (True, s') \<Rightarrow> send (render a (dp_subjectPrefix d) (dp_now d s')) s'))"

section \<open>Histories of alerts\<close>

text \<open>A ledger is a Reserver's world together with what was delivered and when, newest first. The
  dispatcher below delivers into it. Between two alerts the clock may go on and the store may
  change, as long as reservations that have not run out stay. The Reserver answers every time it is
  asked: the dispatcher delivers what it cannot ask about.\<close>

type_synonym 's ledger = "'s \<times> (int \<times> message) list"

definition deliver_to_ledger :: "('s \<Rightarrow> int) \<Rightarrow> 's ledger notifier" where
  "deliver_to_ledger now msg l = (None, (fst l, (now (fst l), msg) # snd l))"

definition ledger_dispatcher ::
  "(string \<Rightarrow> int \<Rightarrow> 's \<Rightarrow> (bool \<times> int \<times> error option) \<times> 's) \<Rightarrow> ('s \<Rightarrow> int) \<Rightarrow> string \<Rightarrow> 's ledger dispatcher" where
  "ledger_dispatcher reserve now prefix =
     dispatcher_new (Some (multi_send (new_multi [None, Some (deliver_to_ledger now)])))
       (Some (\<lambda>k ttl (s, out). let (r, s') = reserve k ttl s in (r, (s', out)))) prefix
       (\<lambda>l. \<lparr>tm_ns = now (fst l), tm_offset = 0, tm_zone = ''UTC''\<rparr>)"

inductive alert_history ::
  "(string \<Rightarrow> int \<Rightarrow> 's \<Rightarrow> (bool \<times> int \<times> error option) \<times> 's) \<Rightarrow> ('s \<Rightarrow> int) \<Rightarrow>
   ('s \<Rightarrow> string \<Rightarrow> int option) \<Rightarrow> string \<Rightarrow> (string \<Rightarrow> int) \<Rightarrow> 's ledger \<Rightarrow> bool"
  for reserve now deadline prefix window where
  start: "alert_history reserve now deadline prefix window (s, [])"
| passes: "alert_history reserve now deadline prefix window (s, out) \<Longrightarrow> now s \<le> now s' \<Longrightarrow>
     (\<And>k d. deadline s k = Some d \<Longrightarrow> now s' < d \<Longrightarrow> deadline s' k = Some d) \<Longrightarrow>
     alert_history reserve now deadline prefix window (s', out)"
| alert: "alert_history reserve now deadline prefix window l \<Longrightarrow> al_Throttle a = window (al_Service a) \<Longrightarrow>
     (0 < al_Throttle a \<longrightarrow> snd (snd (fst (reserve (al_Service a) (al_Throttle a) (fst l)))) = None) \<Longrightarrow>
     alert_history reserve now deadline prefix window
       (snd (dispatch (ledger_dispatcher reserve now prefix) a l))"

lemma ms_Service_render [simp]: "ms_Service (render a p t) = al_Service a"
  by (simp add: render_def Let_def)

lemma errors_join_None [simp]: "(errors_join errs = None) = (errs = [])"
  by (simp add: errors_join_def)

lemma ledger_dispatch:
  "dispatch (ledger_dispatcher reserve now prefix) a (s, out) =
     (let deliver = (\<lambda>u. (None, (u, (now u, render a prefix \<lparr>tm_ns = now u, tm_offset = 0, tm_zone = ''UTC''\<rparr>) # out)))
      in if al_Throttle a > 0
         then (case reserve (al_Service a) (al_Throttle a) s of
                 ((allowed, wait, Some e), u) \<Rightarrow> deliver u
               | ((allowed, wait, None), u) \<Rightarrow> if allowed then deliver u else (None, (u, out)))
         else deliver s)"
  by (auto simp: dispatch_def passes_throttle_def ledger_dispatcher_def dispatcher_new_def new_multi_def
      multi_send_def deliver_to_ledger_def errors_join_def Let_def split: prod.splits option.splits bool.splits)

text \<open>Deliveries of one service that has a throttle, newest first, are as far apart as it is held.\<close>

definition spaced :: "(int \<Rightarrow> int) \<Rightarrow> (string \<Rightarrow> int) \<Rightarrow> (int \<times> message) list \<Rightarrow> bool" where
  "spaced held window out = sorted_wrt (\<lambda>x y. ms_Service (snd x) = ms_Service (snd y) \<and> 0 < window (ms_Service (snd y)) \<longrightarrow>
     fst y + held (window (ms_Service (snd y))) \<le> fst x) out"

context reserver
begin

lemma history_invariant:
  assumes "alert_history reserve now deadline prefix window l"
  shows "spaced held window (snd l) \<and>
    (\<forall>(t, m) \<in> set (snd l). let k = ms_Service m in
       0 < window k \<and> now (fst l) < t + held (window k) \<longrightarrow> deadline (fst l) k = Some (t + held (window k)))"
  using assms(1)
proof (induction rule: alert_history.induct)
  case (start s)
  show ?case by (simp add: spaced_def)
next
  case (passes s out s')
  then show ?case by (fastforce simp: Let_def)
next
  case (alert l a)
  obtain s out where l: "l = (s, out)" by (cases l)
  let ?k = "al_Service a" and ?m = "\<lambda>u. render a prefix \<lparr>tm_ns = now u, tm_offset = 0, tm_zone = ''UTC''\<rparr>"
  have sp: "spaced held window out" and
    live: "\<And>t m. (t, m) \<in> set out \<Longrightarrow> 0 < window (ms_Service m) \<Longrightarrow> now s < t + held (window (ms_Service m)) \<Longrightarrow>
       deadline s (ms_Service m) = Some (t + held (window (ms_Service m)))"
    using alert.IH l by (auto simp: Let_def)
  show ?case
  proof (cases "0 < window ?k")
    case False
    then have new: "dispatch (ledger_dispatcher reserve now prefix) a (s, out) = (None, (s, (now s, ?m s) # out))"
      using alert.hyps(2) by (simp add: ledger_dispatch Let_def)
    show ?thesis unfolding l new using sp live False by (auto simp: spaced_def Let_def)
  next
    case pos: True
    obtain granted wait s' where r: "reserve ?k (window ?k) s = ((granted, wait, None), s')"
      using alert.hyps(2,3) pos l by (metis fst_conv prod.collapse)
    show ?thesis
    proof (cases granted)
      case True
      with r have "reserve ?k (window ?k) s = ((True, wait, None), s')" by simp
      note g = grant [OF this pos]
      have new: "dispatch (ledger_dispatcher reserve now prefix) a (s, out) = (None, (s', (now s, ?m s) # out))"
        using alert.hyps(2) pos True g by (simp add: ledger_dispatch Let_def r)
      have "t + held (window ?k) \<le> now s" if "(t, m) \<in> set out" "ms_Service m = ?k" for t m
        using live [OF that(1)] that(2) pos g by force
      then show ?thesis unfolding l new using sp live g by (force simp: spaced_def Let_def)
    next
      case False
      with r have "reserve ?k (window ?k) s = ((False, wait, None), s')" by simp
      note g = refuse [OF this pos]
      have new: "dispatch (ledger_dispatcher reserve now prefix) a (s, out) = (None, (s', out))"
        using alert.hyps(2) pos False by (simp add: ledger_dispatch Let_def r)
      show ?thesis unfolding l new using sp live g by (auto simp: Let_def)
    qed
  qed
qed

lemma history_spaced: "alert_history reserve now deadline prefix window l \<Longrightarrow> spaced held window (snd l)"
  using history_invariant by blast

end

section \<open>Properties\<close>

text \<open>C24. The throttle works over whole histories: however alerts of any services are raised, however
  long the pauses between them and whatever else happens in the store, two deliveries for the same
  service are at least that service's throttle apart (in whole milliseconds, as go-redis sends it), as
  long as Redis answers. This is proved of Dispatcher.Dispatch with Redis.Reserve in front of a Multi of
  one channel, for every Redis client that behaves as documented.\<close>

theorem deliveries_respect_throttle:
  assumes "redis_documented r clock expiry"
    and "alert_history (redis_reserve r) clock (\<lambda>s k. expiry s (throttlePrefix @ k)) prefix window
             (s, newer @ (t', m') # between @ (t, m) # older)"
    and "ms_Service m' = ms_Service m" "0 < window (ms_Service m)"
  shows "t + px_millis (window (ms_Service m)) \<le> t'"
  using reserver.history_spaced [OF redis_reserver [OF assms(1)] assms(2)] assms(3,4)
  by (auto simp: spaced_def sorted_wrt_append)

definition cert_alert :: alert where
  "cert_alert = \<lparr>al_Service = ''certcheck'', al_Message = ''Please renew your certificate'',
     al_Details = [], al_Throttle = 5000000\<rparr>"

lemma two_deliveries:
  "alert_history (redis_reserve memory_redis) fst (\<lambda>s k. snd s (throttlePrefix @ k)) ''Watchdog ALERT'' (\<lambda>_. 5000000)
     ((7000000, [''THROTTLE_certcheck'' \<mapsto> 12000000]),
      [] @ (7000000, render cert_alert ''Watchdog ALERT'' \<lparr>tm_ns = 7000000, tm_offset = 0, tm_zone = ''UTC''\<rparr>)
      # [] @ (0, render cert_alert ''Watchdog ALERT'' \<lparr>tm_ns = 0, tm_offset = 0, tm_zone = ''UTC''\<rparr>) # [])"
proof -
  let ?h = "alert_history (redis_reserve memory_redis) fst (\<lambda>s k. snd s (throttlePrefix @ k)) ''Watchdog ALERT'' (\<lambda>_. 5000000)"
  let ?m = "\<lambda>n. render cert_alert ''Watchdog ALERT'' \<lparr>tm_ns = n, tm_offset = 0, tm_zone = ''UTC''\<rparr>"
  let ?d = "dispatch (ledger_dispatcher (redis_reserve memory_redis) fst ''Watchdog ALERT'') cert_alert"
  have k: "throttlePrefix @ ''certcheck'' = ''THROTTLE_certcheck''" by (simp add: throttlePrefix_def)
  have d1: "snd (?d ((0, Map.empty), [])) = ((0, [''THROTTLE_certcheck'' \<mapsto> 5000000]), [(0, ?m 0)])"
    by (simp add: ledger_dispatch redis_reserve_memory cert_alert_def k px_millis_def Let_def)
  have d2: "snd (?d ((7000000, [''THROTTLE_certcheck'' \<mapsto> 5000000]), [(0, ?m 0)]))
      = ((7000000, [''THROTTLE_certcheck'' \<mapsto> 12000000]), [(7000000, ?m 7000000), (0, ?m 0)])"
    by (simp add: ledger_dispatch redis_reserve_memory cert_alert_def k px_millis_def Let_def)
  have step: "?h l \<Longrightarrow> ?h (snd (?d l))" for l
    by (rule alert_history.alert)
      (simp_all add: cert_alert_def redis_reserve_memory split: option.splits)
  have "?h ((0, [''THROTTLE_certcheck'' \<mapsto> 5000000]), [(0, ?m 0)])"
    using step [OF alert_history.start] by (metis d1)
  then have "?h ((7000000, [''THROTTLE_certcheck'' \<mapsto> 5000000]), [(0, ?m 0)])"
    by (rule alert_history.passes) (auto split: if_splits)
  from step [OF this] show ?thesis by (simp add: d2)
qed

theorem deliveries_respect_throttle_witness:
  "\<exists>l t t'. alert_history (redis_reserve memory_redis) fst (\<lambda>s k. snd s (throttlePrefix @ k)) ''Watchdog ALERT''
      (\<lambda>_. 5000000) l \<and> map fst (snd l) = [t', t] \<and> t + px_millis 5000000 \<le> t'"
proof (intro exI conjI)
  show "map fst (snd ((7000000, [''THROTTLE_certcheck'' \<mapsto> 12000000]),
      [] @ (7000000, render cert_alert ''Watchdog ALERT'' \<lparr>tm_ns = 7000000, tm_offset = 0, tm_zone = ''UTC''\<rparr>)
      # [] @ (0, render cert_alert ''Watchdog ALERT'' \<lparr>tm_ns = 0, tm_offset = 0, tm_zone = ''UTC''\<rparr>) # [])) = [7000000, 0::int]"
    by simp
  show "0 + px_millis 5000000 \<le> 7000000"
    using deliveries_respect_throttle [OF memory_redis_documented two_deliveries] by simp
qed (rule two_deliveries)

text \<open>Dispatch fails open: when the throttle cannot be asked, the alert is rendered and sent as if
  it had no throttle, so an unreachable Redis never silences an alert.\<close>

theorem dispatch_fails_open:
  assumes "dp_notifier d = Some send" "dp_reserver d = Some reserve"
    and "reserve (al_Service a) (al_Throttle a) s = ((allowed, wait, Some err), s')"
  shows "dispatch d a s = send (render a (dp_subjectPrefix d) (dp_now d (if al_Throttle a > 0 then s' else s)))
           (if al_Throttle a > 0 then s' else s)"
  using assms by (simp add: dispatch_def passes_throttle_def)

definition broken_redis :: "unit redis_client" where
  "broken_redis =
     \<lparr>cl_ping = Pair (Some ''refused''), cl_get = \<lambda>k. Pair (RErr ''refused''), cl_set = \<lambda>k v. Pair (Some ''refused''),
      cl_hkeys = \<lambda>k. Pair (RErr ''refused''), cl_lrange = \<lambda>k a b. Pair (RErr ''refused''),
      cl_lpush = \<lambda>k v. Pair (Some ''refused''), cl_setnx = \<lambda>k v ttl. Pair (Inl ''refused''),
      cl_ttl = \<lambda>k. Pair (Inl ''refused''), cl_now = \<lambda>s. 0\<rparr>"

definition mirror_dispatcher :: "unit dispatcher" where
  "mirror_dispatcher =
     dispatcher_new (Some (\<lambda>m s. (Some (ms_Subject m), s))) (Some (redis_reserve broken_redis)) ''Watchdog ALERT''
       (\<lambda>s. \<lparr>tm_ns = 0, tm_offset = 0, tm_zone = ''UTC''\<rparr>)"

theorem dispatch_fails_open_witness:
  "dispatch mirror_dispatcher cert_alert () = (Some ''Watchdog ALERT: certcheck'', ())"
  using dispatch_fails_open [of mirror_dispatcher "\<lambda>m s. (Some (ms_Subject m), s)" "redis_reserve broken_redis"
      cert_alert "()" False 0 "''SET NX THROTTLE_certcheck: refused''" "()"]
  by (simp add: mirror_dispatcher_def dispatcher_new_def cert_alert_def redis_reserve_def broken_redis_def
      throttlePrefix_def render_def fail2banService_def Let_def)

text \<open>Multi.Send reaches every configured channel whatever the others do: the world afterwards is
  the one the channels leave when each is called in turn, and no error means none of them failed.\<close>

theorem multi_send_reaches_all:
  "snd (multi_send channels msg s) = foldl (\<lambda>u channel. snd (channel msg u)) s channels \<and>
   (fst (multi_send channels msg s) = None \<longleftrightarrow>
      list_all (\<lambda>n. fst ((channels ! n) msg (foldl (\<lambda>u channel. snd (channel msg u)) s (take n channels))) = None)
        [0..<length channels])"
proof -
  have shift: "[0..<Suc n] = 0 # map Suc [0..<n]" for n
    by (simp only: map_Suc_upt upt_conv_Cons [of 0 "Suc n"] zero_less_Suc)
  have "snd (multi_errors channels msg s) = foldl (\<lambda>u channel. snd (channel msg u)) s channels \<and>
    (fst (multi_errors channels msg s) = [] \<longleftrightarrow>
      list_all (\<lambda>n. fst ((channels ! n) msg (foldl (\<lambda>u channel. snd (channel msg u)) s (take n channels))) = None)
        [0..<length channels])"
  proof (induction channels arbitrary: s)
    case Nil
    show ?case by simp
  next
    case (Cons channel channels)
    obtain e s' where c: "channel msg s = (e, s')" by (cases "channel msg s")
    obtain errs s'' where m: "multi_errors channels msg s' = (errs, s'')" by (cases "multi_errors channels msg s'")
    show ?case using Cons.IH [of s'] c m
      by (cases e) (simp_all add: shift list.pred_map comp_def Let_def del: upt_Suc)
  qed
  then show ?thesis by (simp add: multi_send_def case_prod_beta)
qed

text \<open>What the operator reads, for every alert: the body is the probe's transcript whenever there
  is one, else the boilerplate of a ban, else the dated message or the restart notice; the subject
  names the service, except for a ban, whose subject is the dated message with the address; and
  neither is ever empty.\<close>

theorem render_rules:
  "ms_Body (render a prefix now) =
     (if al_Details a \<noteq> [] then al_Details a
      else if al_Service a = fail2banService then fail2banBody
      else if al_Message a \<noteq> [] then unix_date now @ '' - '' @ al_Message a
      else defaultBody (unix_date now)) \<and>
   ms_Subject (render a prefix now) =
     (if al_Service a \<noteq> fail2banService then prefix @ '': '' @ al_Service a
      else if al_Message a \<noteq> [] then unix_date now @ '' - '' @ al_Message a
      else defaultBody (unix_date now)) \<and>
   ms_Body (render a prefix now) \<noteq> [] \<and> ms_Subject (render a prefix now) \<noteq> []"
  by (simp add: render_def Let_def fail2banBody_def defaultBody_def)

end
