(* ===== verification/Dockerapi.thy ===== *)
theory Dockerapi
  imports Go_Time "HOL-Library.Multiset"
begin

text \<open>
  internal/dockerapi: the client that finds, inspects and restarts containers, over either dialect.
  Parameters of the model are url.Parse (its result is the record \<open>url\<close>), the HTTP exchange, the
  decoders encoding/json derives for the reply types, and time.Parse for the RFC 3339 layout. The
  replies are the decoded records.
\<close>

section \<open>Dialects\<close>

datatype dialect = DialectAuto | DialectMailcow | DialectEngine

primrec dialect_string :: "dialect \<Rightarrow> string" where
  "dialect_string DialectAuto = ''auto''"
| "dialect_string DialectMailcow = ''mailcow''"
| "dialect_string DialectEngine = ''engine''"

definition ParseDialect :: "string \<Rightarrow> dialect \<times> error option" where
  "ParseDialect value =
     (let v = to_lower (trim_space value) in
      if v = [] \<or> v = ''auto'' then (DialectAuto, None)
      else if v = ''mailcow'' then (DialectMailcow, None)
      else if v = ''engine'' \<or> v = ''docker'' then (DialectEngine, None)
      else (DialectAuto, Some (''unknown dialect '' @ quote value @ '', want auto, mailcow or engine'')))"

section \<open>Containers\<close>

text \<open>A map of networks is listed in the order the code's \<open>range\<close> visits it.\<close>

record container =
  cn_ID :: string
  cn_Service :: string
  cn_Project :: string
  cn_Networks :: "(string \<times> string) list"
  cn_StartedAt :: string

text \<open>Started; the zero time is \<open>None\<close>. \<open>parse\<close> is time.Parse with the layout RFC3339Nano.\<close>

definition local_year :: "gotime \<Rightarrow> int" where
  "local_year t = fst (civil (local_seconds t div 86400))"

definition started :: "(string \<Rightarrow> gotime res) \<Rightarrow> container \<Rightarrow> gotime option \<times> error option" where
  "started parse c =
     (if cn_StartedAt c = [] then (None, None)
      else case parse (cn_StartedAt c) of
        Inl err \<Rightarrow> (None, Some (''parsing StartedAt '' @ quote (cn_StartedAt c) @ '': '' @ err))
      | Inr at \<Rightarrow> (if local_year at \<le> 1 then (None, None) else (Some at, None)))"

definition composeServiceLabel :: string where
  "composeServiceLabel = ''com.docker.compose.service''"

definition composeProjectLabel :: string where
  "composeProjectLabel = ''com.docker.compose.project''"

text \<open>Indexing a Go map: the empty string when the key is absent.\<close>

definition label :: "(string \<rightharpoonup> string) \<Rightarrow> string \<Rightarrow> string" where
  "label m k = (case m k of None \<Rightarrow> [] | Some v \<Rightarrow> v)"

definition addresses :: "(string \<times> string) list \<Rightarrow> (string \<times> string) list" where
  "addresses networks = filter (\<lambda>n. snd n \<noteq> []) networks"

record inspectRecord =
  ir_ID :: string
  ir_Labels :: "string \<rightharpoonup> string"
  ir_Networks :: "(string \<times> string) list"
  ir_StartedAt :: string

definition inspect_normalise :: "inspectRecord \<Rightarrow> container" where
  "inspect_normalise r =
     \<lparr>cn_ID = ir_ID r,
      cn_Service = label (ir_Labels r) composeServiceLabel,
      cn_Project = label (ir_Labels r) composeProjectLabel,
      cn_Networks = addresses (ir_Networks r),
      cn_StartedAt = ir_StartedAt r\<rparr>"

record summaryRecord =
  sr_ID :: string
  sr_Labels :: "string \<rightharpoonup> string"
  sr_Networks :: "(string \<times> string) list"

definition summary_normalise :: "summaryRecord \<Rightarrow> container" where
  "summary_normalise r =
     \<lparr>cn_ID = sr_ID r,
      cn_Service = label (sr_Labels r) composeServiceLabel,
      cn_Project = label (sr_Labels r) composeProjectLabel,
      cn_Networks = addresses (sr_Networks r),
      cn_StartedAt = []\<rparr>"

section \<open>The client\<close>

text \<open>The outcome of sending a request: it could not be built, sent or read, or there is an answer
  with its code, status line and body.\<close>

datatype http_method = GET | POST

primrec method_text :: "http_method \<Rightarrow> string" where
  "method_text GET = ''GET''"
| "method_text POST = ''POST''"

datatype exchange =
    Not_built error
  | Not_sent error
  | Not_read error
  | Answer int string string

record 'w docker_client =
  dc_baseURL :: string
  dc_dialect :: dialect
  dc_project :: string
  dc_ipv4Network :: string
  dc_reach :: "'w \<Rightarrow> bool \<times> 'w"
  dc_exchange :: "http_method \<Rightarrow> string \<Rightarrow> 'w \<Rightarrow> exchange \<times> 'w"
  dc_summaries :: "string \<Rightarrow> summaryRecord list res"
  dc_inspects :: "string \<Rightarrow> inspectRecord list res"
  dc_inspected :: "string \<Rightarrow> inspectRecord res"
  dc_processes :: "string \<Rightarrow> string list list res"
  dc_msg_processes :: "string \<Rightarrow> string list list res"

definition do_request ::
  "'w docker_client \<Rightarrow> http_method \<Rightarrow> string \<Rightarrow> (string \<Rightarrow> 'a res) option \<Rightarrow> 'w \<Rightarrow> 'a option res \<times> 'w" where
  "do_request c m path decode w =
     (let what = method_text m @ '' '' @ path in
      case dc_exchange c m (dc_baseURL c @ path) w of
        (Not_built err, w') \<Rightarrow> (Inl (''building the '' @ what @ '' request: '' @ err), w')
      | (Not_sent err, w') \<Rightarrow> (Inl (what @ '': '' @ err), w')
      | (Not_read err, w') \<Rightarrow> (Inl (''reading the '' @ what @ '' response: '' @ err), w')
      | (Answer code status body, w') \<Rightarrow>
          (if code < 200 \<or> code \<ge> 300 then (Inl (what @ '' returned '' @ status), w')
           else case decode of
             None \<Rightarrow> (Inr None, w')
           | Some dec \<Rightarrow>
               (case dec body of
                  Inl err \<Rightarrow> (Inl (''decoding the '' @ what @ '' response: '' @ err), w')
                | Inr v \<Rightarrow> (Inr (Some v), w'))))"

text \<open>A request whose reply is decoded into \<open>'a\<close>: a success carries the value.\<close>

definition do_decoded ::
  "'w docker_client \<Rightarrow> http_method \<Rightarrow> string \<Rightarrow> (string \<Rightarrow> 'a res) \<Rightarrow> 'w \<Rightarrow> 'a res \<times> 'w" where
  "do_decoded c m path decode w =
     (case do_request c m path (Some decode) w of
        (Inl err, w') \<Rightarrow> (Inl err, w')
      | (Inr (Some v), w') \<Rightarrow> (Inr v, w')
      | (Inr None, w') \<Rightarrow> (Inl [], w'))"

definition docker_get :: "'w docker_client \<Rightarrow> string \<Rightarrow> (string \<Rightarrow> 'a res) \<Rightarrow> 'w \<Rightarrow> 'a res \<times> 'w" where
  "docker_get c path decode w = do_decoded c GET path decode w"

definition map_res :: "('a \<Rightarrow> 'b) \<Rightarrow> 'a res \<Rightarrow> 'b res" where
  "map_res f r = (case r of Inl e \<Rightarrow> Inl e | Inr x \<Rightarrow> Inr (f x))"

definition in_project :: "string \<Rightarrow> container \<Rightarrow> bool" where
  "in_project project c \<longleftrightarrow> \<not> (project \<noteq> [] \<and> \<not> contains (to_lower (cn_Project c)) project)"

definition docker_all :: "'w docker_client \<Rightarrow> 'w \<Rightarrow> container list res \<times> 'w" where
  "docker_all c w =
     (case dc_dialect c of
        DialectEngine \<Rightarrow>
          (case docker_get c ''/containers/json'' (dc_summaries c) w of
             (r, w') \<Rightarrow> (map_res (map summary_normalise) r, w'))
      | _ \<Rightarrow>
          (case docker_get c ''/containers/json'' (dc_inspects c) w of
             (r, w') \<Rightarrow> (map_res (map inspect_normalise) r, w')))"

definition docker_List :: "'w docker_client \<Rightarrow> 'w \<Rightarrow> container list res \<times> 'w" where
  "docker_List c w =
     (case docker_all c w of (r, w') \<Rightarrow> (map_res (filter (in_project (dc_project c))) r, w'))"

text \<open>url.PathEscape: letters, digits and \<open>-_.~$&+=:@\<close> stay, every other byte becomes its
  percent escape.\<close>

definition path_safe :: "char \<Rightarrow> bool" where
  "path_safe ch \<longleftrightarrow> is_alnum ch \<or> ch \<in> set ''-_.~$&+=:@''"

definition path_escape :: "string \<Rightarrow> string" where
  "path_escape = percent_escape path_safe"

definition container_path :: "string \<Rightarrow> string \<Rightarrow> string" where
  "container_path cid op = ''/containers/'' @ path_escape cid @ ''/'' @ op"

definition docker_Inspect :: "'w docker_client \<Rightarrow> string \<Rightarrow> 'w \<Rightarrow> container res \<times> 'w" where
  "docker_Inspect c cid w =
     (case docker_get c (container_path cid ''json'') (dc_inspected c) w of
        (r, w') \<Rightarrow> (map_res inspect_normalise r, w'))"

fun find_matching ::
  "'w docker_client \<Rightarrow> string \<Rightarrow> container list \<Rightarrow> 'w \<Rightarrow> container list res \<times> 'w" where
  "find_matching c service [] w = (Inr [], w)"
| "find_matching c service (ct # cts) w =
     (if cn_Service ct \<noteq> service then find_matching c service cts w
      else if cn_StartedAt ct = [] \<and> dc_dialect c = DialectEngine
      then (case docker_Inspect c (cn_ID ct) w of
              (Inl err, w') \<Rightarrow> (Inl err, w')
            | (Inr full, w') \<Rightarrow>
                (case find_matching c service cts w' of
                   (r, w'') \<Rightarrow> (map_res (\<lambda>matched. ct\<lparr>cn_StartedAt := cn_StartedAt full\<rparr> # matched) r, w'')))
      else (case find_matching c service cts w of
              (r, w') \<Rightarrow> (map_res (\<lambda>matched. ct # matched) r, w')))"

definition docker_Find :: "'w docker_client \<Rightarrow> string \<Rightarrow> 'w \<Rightarrow> container list res \<times> 'w" where
  "docker_Find c service w =
     (case docker_List c w of
        (Inl err, w') \<Rightarrow> (Inl err, w')
      | (Inr all, w') \<Rightarrow> find_matching c service all w')"

definition pickAddress :: "'w docker_client \<Rightarrow> container \<Rightarrow> string" where
  "pickAddress c ct =
     (case find (\<lambda>n. \<not> (dc_ipv4Network c \<noteq> [] \<and> \<not> has_prefix (snd n) (dc_ipv4Network c))) (cn_Networks ct) of
        None \<Rightarrow> []
      | Some n \<Rightarrow> snd n)"

text \<open>IP; \<open>shuffle\<close> is rand.Shuffle.\<close>

definition docker_IP ::
  "(container list \<Rightarrow> container list) \<Rightarrow> 'w docker_client \<Rightarrow> string \<Rightarrow> 'w \<Rightarrow> string res \<times> 'w" where
  "docker_IP shuffle c service w =
     (case docker_List c w of
        (Inl err, w') \<Rightarrow> (Inl err, w')
      | (Inr all, w') \<Rightarrow>
          (let matched = filter (\<lambda>ct. cn_Service ct = service) all in
           if matched = []
           then (Inl (''no container runs the service '' @ quote service @ '' in project '' @ quote (dc_project c)), w')
           else case find (\<lambda>ip. ip \<noteq> []) (map (pickAddress c) (shuffle matched)) of
             Some ip \<Rightarrow> (Inr ip, w')
           | None \<Rightarrow> (Inl (''service '' @ quote service @ '' has no address on network '' @ quote (dc_ipv4Network c)), w')))"

definition docker_Restart :: "'w docker_client \<Rightarrow> string \<Rightarrow> 'w \<Rightarrow> error option \<times> 'w" where
  "docker_Restart c cid w =
     (case do_request c POST (container_path cid ''restart'') (None :: (string \<Rightarrow> unit res) option) w of
        (Inl err, w') \<Rightarrow> (Some err, w')
      | (Inr _, w') \<Rightarrow> (None, w'))"

definition docker_Top :: "'w docker_client \<Rightarrow> string \<Rightarrow> 'w \<Rightarrow> string list list res \<times> 'w" where
  "docker_Top c cid w =
     (if dc_dialect c = DialectEngine
      then docker_get c (container_path cid ''top'') (dc_processes c) w
      else do_decoded c POST (container_path cid ''top'') (dc_msg_processes c) w)"

definition docker_Running :: "'w docker_client \<Rightarrow> string \<Rightarrow> string \<Rightarrow> 'w \<Rightarrow> bool res \<times> 'w" where
  "docker_Running c cid want w =
     (case docker_Top c cid w of
        (Inl err, w') \<Rightarrow> (Inl err, w')
      | (Inr processes, w') \<Rightarrow> (Inr (list_ex (\<lambda>p. contains (join '' '' p) want) processes), w'))"

definition docker_Reachable :: "'w docker_client \<Rightarrow> 'w \<Rightarrow> bool \<times> 'w" where
  "docker_Reachable c w = dc_reach c w"

section \<open>New\<close>

text \<open>url.Parse's result, as far as New reads it.\<close>

record url =
  ur_Scheme :: string
  ur_Host :: string
  ur_Path :: string
  ur_Opaque :: string
  ur_Hostname :: string
  ur_Port :: string

definition reachPort :: "url \<Rightarrow> string" where
  "reachPort endpoint =
     (if ur_Port endpoint \<noteq> [] then ur_Port endpoint
      else if ur_Scheme endpoint = ''http'' then ''80'' else ''443'')"

text \<open>What New decides: the base URL, the dialect, and what the transport connects to.\<close>

datatype target =
    Unix_socket string
  | Tcp_endpoint string string bool

record docker_setup =
  du_baseURL :: string
  du_dialect :: dialect
  du_project :: string
  du_ipv4Network :: string
  du_target :: target

text \<open>The endpoint's test connection: net.Dialer and tls.Dialer, which completes the handshake.\<close>

record 'w docker_dialer =
  dd_Dial :: "string \<Rightarrow> string \<Rightarrow> 'w \<Rightarrow> error option \<times> 'w"
  dd_DialTLS :: "string \<Rightarrow> string \<Rightarrow> 'w \<Rightarrow> error option \<times> 'w"
  dd_Close :: "'w \<Rightarrow> 'w"

definition dialUnix :: "'w docker_dialer \<Rightarrow> string \<Rightarrow> 'w \<Rightarrow> bool \<times> 'w" where
  "dialUnix d socket w =
     (case dd_Dial d ''unix'' socket w of (Some err, w') \<Rightarrow> (False, w') | (None, w') \<Rightarrow> (True, dd_Close d w'))"

definition dialTCP :: "'w docker_dialer \<Rightarrow> string \<Rightarrow> string \<Rightarrow> bool \<Rightarrow> 'w \<Rightarrow> bool \<times> 'w" where
  "dialTCP d host port secure w =
     (let addr = join_host_port host port in
      case (if secure then dd_DialTLS d ''tcp'' addr w else dd_Dial d ''tcp'' addr w) of
        (Some err, w') \<Rightarrow> (False, w')
      | (None, w') \<Rightarrow> (True, dd_Close d w'))"

primrec target_reach :: "'w docker_dialer \<Rightarrow> target \<Rightarrow> 'w \<Rightarrow> bool \<times> 'w" where
  "target_reach d (Unix_socket socket) = dialUnix d socket"
| "target_reach d (Tcp_endpoint host port secure) = dialTCP d host port secure"

definition docker_new ::
  "(string \<Rightarrow> url res) \<Rightarrow> string \<Rightarrow> string \<Rightarrow> string \<Rightarrow> dialect \<Rightarrow> docker_setup res" where
  "docker_new parse_url baseURL project ipv4Network dialect =
     (case parse_url baseURL of
        Inl err \<Rightarrow> Inl (''parsing the docker API URL '' @ quote baseURL @ '': '' @ err)
      | Inr parsed \<Rightarrow>
          (let setup = (\<lambda>base implied tgt.
                 \<lparr>du_baseURL = base, du_dialect = (if dialect = DialectAuto then implied else dialect),
                  du_project = to_lower project, du_ipv4Network = ipv4Network, du_target = tgt\<rparr>)
           in if ur_Scheme parsed = ''unix''
              then (let socket = (if ur_Path parsed = [] then ur_Opaque parsed else ur_Path parsed) in
                    if socket = [] then Inl (''the docker API URL '' @ quote baseURL @ '' names no socket path'')
                    else Inr (setup ''http://docker'' DialectEngine (Unix_socket socket)))
              else if ur_Scheme parsed = ''https'' \<or> ur_Scheme parsed = ''http''
              then (if ur_Host parsed = [] then Inl (''the docker API URL '' @ quote baseURL @ '' has no host'')
                    else Inr (setup (trim_suffix (trim_suffix baseURL ''/'') (ur_Path parsed)) DialectMailcow
                           (Tcp_endpoint (ur_Hostname parsed) (reachPort parsed) (ur_Scheme parsed = ''https''))))
              else if ur_Scheme parsed = []
              then Inl (''the docker API URL '' @ quote baseURL @ '' has no scheme, want https:// or unix://'')
              else Inl (''unsupported docker API scheme '' @ quote (ur_Scheme parsed) @ '', want https:// or unix://'')))"

section \<open>Listing and finding\<close>

lemma map_res_simps [simp]: "map_res f (Inl e) = Inl e" "map_res f (Inr x) = Inr (f x)"
  by (simp_all add: map_res_def)

lemma map_res_Inr: "map_res f r = Inr y \<longleftrightarrow> (\<exists>x. r = Inr x \<and> y = f x)"
  by (cases r) auto

lemma do_decoded_Answer:
  "dc_exchange c m (dc_baseURL c @ path) w = (Answer code status body, w') \<Longrightarrow> 200 \<le> code \<Longrightarrow> code < 300 \<Longrightarrow>
     dec body = Inr v \<Longrightarrow> do_decoded c m path dec w = (Inr v, w')"
  by (simp add: do_decoded_def do_request_def Let_def)

text \<open>A container with its start time left out: what listing and inspecting have in common.\<close>

definition same_container :: "container \<Rightarrow> container \<Rightarrow> bool" where
  "same_container a b \<longleftrightarrow> a\<lparr>cn_StartedAt := []\<rparr> = b\<lparr>cn_StartedAt := []\<rparr>"

lemma find_matching_exact:
  "find_matching c service cts w = (Inr found, w') \<Longrightarrow>
     list_all2 same_container found (filter (\<lambda>ct. cn_Service ct = service) cts)"
proof (induction cts arbitrary: w found w')
  case Nil
  then show ?case by simp
next
  case (Cons ct cts)
  show ?case
  proof (cases "cn_Service ct = service")
    case False
    with Cons show ?thesis by simp
  next
    case True
    with Cons.prems obtain rest v at v' where
      "find_matching c service cts v = (Inr rest, v')" "found = ct\<lparr>cn_StartedAt := at\<rparr> # rest"
    proof (cases "cn_StartedAt ct = [] \<and> dc_dialect c = DialectEngine")
      case eng: True
      with Cons.prems True obtain full v where i: "docker_Inspect c (cn_ID ct) w = (Inr full, v)"
        by (auto split: prod.splits sum.splits)
      obtain r v' where r: "find_matching c service cts v = (r, v')" by (cases "find_matching c service cts v")
      with eng i Cons.prems True show thesis
        by (cases r) (auto intro!: that)
    next
      case plain: False
      obtain r v' where r: "find_matching c service cts w = (r, v')" by (cases "find_matching c service cts w")
      with plain Cons.prems True have "r = Inr (tl found)" "found = ct # tl found"
        by (cases r; force)+
      with r show thesis by (intro that [of w "tl found" v' "cn_StartedAt ct"]) simp_all
    qed
    then show ?thesis using Cons.IH True by (simp add: same_container_def)
  qed
qed

section \<open>Path escapes\<close>

definition unhex :: "char \<Rightarrow> nat" where
  "unhex d = (if of_char d < (58::nat) then of_char d - 48 else of_char d - 55)"

fun path_unescape :: "string \<Rightarrow> string" where
  "path_unescape [] = []"
| "path_unescape [c] = [c]"
| "path_unescape [c, d] = [c, d]"
| "path_unescape (c # h # l # s) =
     (if c = CHR ''%''
      then char_of (16 * unhex h + unhex l) # path_unescape s
      else c # path_unescape (h # l # s))"

lemma path_unescape_safe: "c \<noteq> CHR ''%'' \<Longrightarrow> path_unescape (c # s) = c # path_unescape s"
  by (cases s rule: path_unescape.cases) auto

lemma upper_hex_value: "n < 16 \<Longrightarrow> unhex (upper_hex n) = n"
  by (auto simp: upper_hex_def unhex_def)

lemma path_unescape_escape: "path_unescape (percent_char path_safe c @ s) = c # path_unescape s"
proof (cases "path_safe c")
  case True
  then have "c \<noteq> CHR ''%''" by (auto simp: path_safe_def is_alnum_def)
  with True show ?thesis by (simp add: percent_char_def path_unescape_safe)
next
  case False
  have h: "(of_char c :: nat) div 16 < 16" "(of_char c :: nat) mod 16 < 16"
    by (simp_all add: less_mult_imp_div_less)
  show ?thesis
    using False by (simp add: percent_char_def Let_def upper_hex_value [OF h(1)] upper_hex_value [OF h(2)])
qed

lemma path_unescape_path_escape: "path_unescape (path_escape s) = s"
  by (induction s) (simp_all add: path_escape_def percent_escape_def path_unescape_escape)

lemma percent_char_segment: "d \<in> set (percent_char path_safe c) \<Longrightarrow> d \<noteq> CHR ''/'' \<and> d \<noteq> CHR ''?'' \<and> d \<noteq> CHR ''#''"
proof -
  have h: "(of_char c :: nat) div 16 < 16" "(of_char c :: nat) mod 16 < 16"
    by (simp_all add: less_mult_imp_div_less)
  have "upper_hex n \<noteq> CHR ''/'' \<and> upper_hex n \<noteq> CHR ''?'' \<and> upper_hex n \<noteq> CHR ''#''" if "n < 16" for n
  proof -
    have "path_safe (upper_hex n)" using that by (auto simp: upper_hex_def path_safe_def is_alnum_def Let_def)
    then show ?thesis by (auto simp: path_safe_def is_alnum_def)
  qed
  with h show "d \<in> set (percent_char path_safe c) \<Longrightarrow> ?thesis"
    by (auto simp: percent_char_def Let_def path_safe_def is_alnum_def split: if_splits)
qed

section \<open>The two dialects\<close>

text \<open>A daemon running the containers \<open>rs\<close>, as either endpoint answers for it: the engine lists
  summaries and inspects one container at a time, the mailcow service lists full records.\<close>

definition summary_of :: "inspectRecord \<Rightarrow> summaryRecord" where
  "summary_of r = \<lparr>sr_ID = ir_ID r, sr_Labels = ir_Labels r, sr_Networks = ir_Networks r\<rparr>"

definition answers :: "'w docker_client \<Rightarrow> string \<Rightarrow> (string \<Rightarrow> 'a res) \<Rightarrow> 'a \<Rightarrow> bool" where
  "answers c path dec v \<longleftrightarrow>
     (\<forall>w. \<exists>code status body. dc_exchange c GET (dc_baseURL c @ path) w = (Answer code status body, w) \<and>
        200 \<le> code \<and> code < 300 \<and> dec body = Inr v)"

definition serves_engine :: "'w docker_client \<Rightarrow> inspectRecord list \<Rightarrow> bool" where
  "serves_engine c rs \<longleftrightarrow> dc_dialect c = DialectEngine \<and>
     answers c ''/containers/json'' (dc_summaries c) (map summary_of rs) \<and>
     list_all (\<lambda>r. answers c (container_path (ir_ID r) ''json'') (dc_inspected c) r) rs"

definition serves_mailcow :: "'w docker_client \<Rightarrow> inspectRecord list \<Rightarrow> bool" where
  "serves_mailcow c rs \<longleftrightarrow> dc_dialect c = DialectMailcow \<and>
     answers c ''/containers/json'' (dc_inspects c) rs"

lemma answers_get: "answers c path dec v \<Longrightarrow> docker_get c path dec w = (Inr v, w)"
  unfolding answers_def docker_get_def by (metis do_decoded_Answer)

lemma normalise_fields [simp]:
  "cn_Service (summary_normalise (summary_of r)) = cn_Service (inspect_normalise r)"
  "cn_Project (summary_normalise (summary_of r)) = cn_Project (inspect_normalise r)"
  "cn_ID (summary_normalise (summary_of r)) = ir_ID r" "cn_ID (inspect_normalise r) = ir_ID r"
  "cn_StartedAt (summary_normalise (summary_of r)) = []"
  "(summary_normalise (summary_of r))\<lparr>cn_StartedAt := cn_StartedAt (inspect_normalise r)\<rparr> = inspect_normalise r"
  by (simp_all add: summary_normalise_def summary_of_def inspect_normalise_def)

lemma in_project_normalise [simp]:
  "in_project p (summary_normalise (summary_of r)) = in_project p (inspect_normalise r)"
  by (simp add: in_project_def)

lemma find_matching_mailcow:
  "dc_dialect c = DialectMailcow \<Longrightarrow>
     find_matching c service cts w = (Inr (filter (\<lambda>ct. cn_Service ct = service) cts), w)"
  by (induction cts) simp_all

lemma find_matching_engine:
  "dc_dialect c = DialectEngine \<Longrightarrow>
   list_all (\<lambda>r. answers c (container_path (ir_ID r) ''json'') (dc_inspected c) r) rs \<Longrightarrow>
     find_matching c service (map (\<lambda>r. summary_normalise (summary_of r)) rs) w
       = (Inr (filter (\<lambda>ct. cn_Service ct = service) (map inspect_normalise rs)), w)"
proof (induction rs)
  case Nil
  then show ?case by simp
next
  case (Cons r rs)
  then have "docker_get c (container_path (ir_ID r) ''json'') (dc_inspected c) w = (Inr r, w)"
    by (intro answers_get) simp
  with Cons show ?case by (simp add: docker_Inspect_def)
qed

lemma Find_mailcow:
  assumes "serves_mailcow c rs"
  shows "docker_Find c service w =
     (Inr (filter (\<lambda>ct. in_project (dc_project c) ct \<and> cn_Service ct = service) (map inspect_normalise rs)), w)"
proof -
  have "docker_get c ''/containers/json'' (dc_inspects c) w = (Inr rs, w)" "dc_dialect c = DialectMailcow"
    using assms answers_get by (auto simp: serves_mailcow_def)
  then show ?thesis
    by (simp add: docker_Find_def docker_List_def docker_all_def find_matching_mailcow conj_commute)
qed

lemma Find_engine:
  assumes "serves_engine c rs"
  shows "docker_Find c service w =
     (Inr (filter (\<lambda>ct. in_project (dc_project c) ct \<and> cn_Service ct = service) (map inspect_normalise rs)), w)"
proof -
  let ?rs = "filter (\<lambda>r. in_project (dc_project c) (inspect_normalise r)) rs"
  have "docker_get c ''/containers/json'' (dc_summaries c) w = (Inr (map summary_of rs), w)"
    "dc_dialect c = DialectEngine"
    "list_all (\<lambda>r. answers c (container_path (ir_ID r) ''json'') (dc_inspected c) r) ?rs"
    using assms answers_get by (auto simp: serves_engine_def list_all_iff)
  with find_matching_engine [of c ?rs service w] show ?thesis
    by (simp add: docker_Find_def docker_List_def docker_all_def filter_map comp_def conj_commute)
qed

section \<open>Properties\<close>

text \<open>Find returns exactly the containers of the service: when it succeeds, the result is the
  listed containers of the project whose compose service name is the one asked for, in the listed
  order, each as listed except that its start time may have been filled in. No other container can be
  handed to a restart.\<close>

theorem find_returns_exact_matches:
  assumes "docker_Find c service w = (Inr found, w')"
  shows "\<exists>all v. docker_List c w = (Inr all, v) \<and>
           list_all2 same_container found (filter (\<lambda>ct. cn_Service ct = service) all)"
  using assms find_matching_exact by (fastforce simp: docker_Find_def split: prod.splits sum.splits)

text \<open>C39. The dialect does not matter: for the same containers, the client of the Docker engine
  (summaries, then one inspection per match) and the client of the mailcow service (full records)
  find the same list, start times included.\<close>

theorem dialects_find_the_same:
  assumes "serves_engine e rs" "serves_mailcow m rs" "dc_project e = dc_project m"
  shows "fst (docker_Find e service w) = fst (docker_Find m service v)"
  using Find_engine [OF assms(1)] Find_mailcow [OF assms(2)] assms(3) by simp

definition demo_record :: inspectRecord where
  "demo_record =
     \<lparr>ir_ID = ''abc'', ir_Labels = [composeServiceLabel \<mapsto> ''nginx-mailcow'', composeProjectLabel \<mapsto> ''mailcowdockerized''],
      ir_Networks = [(''mailcow-network'', ''172.22.1.9'')], ir_StartedAt = ''2026-02-28T10:00:00Z''\<rparr>"

definition demo_client :: "dialect \<Rightarrow> unit docker_client" where
  "demo_client d =
     \<lparr>dc_baseURL = ''http://docker'', dc_dialect = d, dc_project = ''mailcowdockerized'', dc_ipv4Network = ''172.22.1'',
      dc_reach = \<lambda>w. (True, w),
      dc_exchange = \<lambda>m u w. (Answer 200 ''200 OK'' u, w),
      dc_summaries = \<lambda>b. Inr [summary_of demo_record], dc_inspects = \<lambda>b. Inr [demo_record],
      dc_inspected = \<lambda>b. Inr demo_record, dc_processes = \<lambda>b. Inr [], dc_msg_processes = \<lambda>b. Inr []\<rparr>"

lemma demo_serves:
  "serves_engine (demo_client DialectEngine) [demo_record]" "serves_mailcow (demo_client DialectMailcow) [demo_record]"
  by (simp_all add: serves_engine_def serves_mailcow_def answers_def demo_client_def)

theorem dialects_find_the_same_witness:
  "fst (docker_Find (demo_client DialectEngine) ''nginx-mailcow'' ()) = fst (docker_Find (demo_client DialectMailcow) ''nginx-mailcow'' ())"
  by (rule dialects_find_the_same [OF demo_serves]) (simp add: demo_client_def)

theorem find_returns_exact_matches_witness:
  "\<exists>all v. docker_List (demo_client DialectEngine) () = (Inr all, v) \<and>
     list_all2 same_container (filter (\<lambda>ct. in_project ''mailcowdockerized'' ct \<and> cn_Service ct = ''nginx-mailcow'')
       (map inspect_normalise [demo_record])) (filter (\<lambda>ct. cn_Service ct = ''nginx-mailcow'') all)"
  by (rule find_returns_exact_matches [of _ _ _ _ "()"], subst Find_engine [OF demo_serves(1)]) (simp add: demo_client_def)

text \<open>A container id stays one path segment and keeps its identity: the escaped id has no slash,
  question mark or fragment mark in it, and different ids give different paths, so Inspect, Restart
  and Top reach the endpoint of the container they were given and no other.\<close>

theorem container_path_addresses_one_id:
  "set (path_escape i) \<inter> set ''/?#'' = {} \<and>
   (container_path i op = container_path j op \<longleftrightarrow> i = j)"
proof -
  have "d \<notin> set ''/?#''" if "d \<in> set (path_escape i)" for d
  proof -
    from that obtain c where "d \<in> set (percent_char path_safe c)" by (auto simp: path_escape_def percent_escape_def)
    then show ?thesis using percent_char_segment by simp
  qed
  moreover have "path_escape i = path_escape j \<longleftrightarrow> i = j"
    by (metis path_unescape_path_escape)
  ultimately show ?thesis by (auto simp: container_path_def)
qed

text \<open>An address IP returns is one the probes can use: it is not empty, lies on the mailcow
  network's prefix, and belongs to a listed container of exactly the service asked for, whatever
  the shuffle picks first.\<close>

theorem ip_is_of_the_service:
  assumes "docker_IP shuffle c service w = (Inr ip, w')" "\<And>xs. mset (shuffle xs) = mset xs"
  shows "ip \<noteq> [] \<and> has_prefix ip (dc_ipv4Network c) \<and>
    (\<exists>all v ct name. docker_List c w = (Inr all, v) \<and> ct \<in> set all \<and> cn_Service ct = service \<and>
       (name, ip) \<in> set (cn_Networks ct))"
proof -
  obtain all where l: "docker_List c w = (Inr all, w')" and
    f: "find (\<lambda>ip. ip \<noteq> []) (map (pickAddress c) (shuffle (filter (\<lambda>ct. cn_Service ct = service) all))) = Some ip"
    using assms(1) by (auto simp: docker_IP_def Let_def split: prod.splits sum.splits if_splits option.splits)
  let ?m = "filter (\<lambda>ct. cn_Service ct = service) all"
  from f have "ip \<noteq> []" "ip \<in> set (map (pickAddress c) (shuffle ?m))"
    unfolding find_Some_iff by (metis nth_mem)+
  moreover have "set (shuffle ?m) = set ?m" using assms(2) by (metis set_mset_mset)
  ultimately obtain ct where ct: "ct \<in> set all" "cn_Service ct = service" "ip = pickAddress c ct" by auto
  with \<open>ip \<noteq> []\<close> obtain n where "find (\<lambda>n. \<not> (dc_ipv4Network c \<noteq> [] \<and> \<not> has_prefix (snd n) (dc_ipv4Network c))) (cn_Networks ct) = Some n"
    "ip = snd n"
    by (auto simp: pickAddress_def split: option.splits)
  then have "n \<in> set (cn_Networks ct)" "dc_ipv4Network c = [] \<or> has_prefix ip (dc_ipv4Network c)"
    unfolding find_Some_iff by (auto simp: nth_mem)
  with ct l \<open>ip \<noteq> []\<close> \<open>ip = snd n\<close> show ?thesis
    by (metis has_prefix_Nil prod.collapse)
qed

theorem ip_is_of_the_service_witness:
  "''172.22.1.9'' \<noteq> [] \<and> has_prefix ''172.22.1.9'' (dc_ipv4Network (demo_client DialectMailcow))"
proof -
  have "docker_IP rev (demo_client DialectMailcow) ''nginx-mailcow'' () = (Inr ''172.22.1.9'', ())"
    by (simp add: docker_IP_def docker_List_def docker_all_def docker_get_def do_decoded_def do_request_def demo_client_def
        inspect_normalise_def demo_record_def label_def addresses_def in_project_def pickAddress_def
        composeServiceLabel_def composeProjectLabel_def to_lower_def lower_char_def Let_def)
  from ip_is_of_the_service [OF this] show ?thesis by simp
qed

text \<open>The project filter is a substring test: a neighbouring stack whose project name contains ours
  passes it.\<close>

lemma neighbour_in_project:
  "in_project ''mailcow'' \<lparr>cn_ID = ''x'', cn_Service = ''nginx-mailcow'', cn_Project = ''mailcow2'', cn_Networks = [], cn_StartedAt = []\<rparr>"
  by (simp add: in_project_def to_lower_def lower_char_def Let_def)

end
