(* ===== verification/Probe.thy ===== *)
theory Probe
  imports Health
begin

text \<open>
  internal/probe/probe.go: a probe's verdict, the wrapper that fixes the price of a failure, the
  harness that runs a probe and survives its panic, and the certificate verdict. What a probe sees
  of the outside is part of a world \<open>'w\<close> it runs in; the clock is a function of that world. The
  context's timeout reaches a probe as the failures of its reads and writes.
\<close>

section \<open>Result\<close>

record result =
  rs_Probe :: string
  rs_Status :: status
  rs_Message :: string
  rs_Duration :: int
  rs_Points :: int

definition DefaultTimeout :: int where
  "DefaultTimeout = 10 * 1000000000"

definition result_of :: "status \<Rightarrow> string \<Rightarrow> result" where
  "result_of s message =
     \<lparr>rs_Probe = [], rs_Status = s, rs_Message = message, rs_Duration = 0, rs_Points = s\<rparr>"

definition OK :: "string \<Rightarrow> result" where "OK = result_of StatusOK"
definition Warning :: "string \<Rightarrow> result" where "Warning = result_of StatusWarning"
definition Critical :: "string \<Rightarrow> result" where "Critical = result_of StatusCritical"
definition Unknown :: "string \<Rightarrow> result" where "Unknown = result_of StatusUnknown"

definition result_weight :: "result \<Rightarrow> int" where
  "result_weight r = rs_Points r"

lemmas verdict_defs = OK_def Warning_def Critical_def Unknown_def result_of_def

section \<open>Probe, Cost and Run\<close>

text \<open>A probe: its name, and its Run, which returns a result or panics with a value.\<close>

record 'w probe =
  pb_Name :: string
  pb_Run :: "'w \<Rightarrow> result res \<times> 'w"

definition cost_result :: "int \<Rightarrow> result \<Rightarrow> result" where
  "cost_result points r = (if rs_Status r \<noteq> StatusOK then r\<lparr>rs_Points := points\<rparr> else r)"

definition Cost :: "int \<Rightarrow> 'w probe \<Rightarrow> 'w probe" where
  "Cost points p =
     \<lparr>pb_Name = pb_Name p,
      pb_Run = (\<lambda>w. case pb_Run p w of
          (Inl v, w') \<Rightarrow> (Inl v, w')
        | (Inr r, w') \<Rightarrow> (Inr (cost_result points r), w'))\<rparr>"

definition probe_run :: "('w \<Rightarrow> int) \<Rightarrow> 'w probe \<Rightarrow> 'w \<Rightarrow> result \<times> 'w" where
  "probe_run now p w =
     (let start = now w in
      case pb_Run p w of
        (out, w') \<Rightarrow>
          (let res = (case out of Inl v \<Rightarrow> Unknown (''probe panicked: '' @ v) | Inr r \<Rightarrow> r)
           in (res\<lparr>rs_Probe := pb_Name p, rs_Duration := now w' - start\<rparr>, w')))"

section \<open>Certificates\<close>

text \<open>The parts of a peer certificate a verdict uses: the validity instants and the two names as
  text.\<close>

record certificate =
  ct_NotBefore :: int
  ct_NotAfter :: int
  ct_Subject :: string
  ct_Issuer :: string

definition describe :: "certificate \<Rightarrow> string" where
  "describe leaf =
     (let subject = ct_Subject leaf; issuer = ct_Issuer leaf in
      if issuer \<noteq> subject then ''subject '' @ quote subject @ '', issuer '' @ quote issuer
      else ''subject '' @ quote subject @ '', self-signed'')"

text \<open>certExpiry; \<open>rfc3339\<close> renders an instant and \<open>now\<close> is the current one. The remaining time
  in hours divided by 24 and truncated is the number of whole days.\<close>

definition nanos_per_day :: int where
  "nanos_per_day = 86400 * 1000000000"

definition cert_expiry :: "(int \<Rightarrow> string) \<Rightarrow> int \<Rightarrow> certificate list \<Rightarrow> int \<Rightarrow> string \<Rightarrow> result" where
  "cert_expiry rfc3339 now chain minDays label =
     (case chain of
        [] \<Rightarrow> Critical (label @ '': server presented no certificate'')
      | leaf # _ \<Rightarrow>
          (let who = describe leaf in
           if now < ct_NotBefore leaf
           then Critical (label @ '': certificate is not valid before '' @ rfc3339 (ct_NotBefore leaf) @ '', '' @ who)
           else let left = ct_NotAfter leaf - now;
                    days = go_div left nanos_per_day
                in if left \<le> 0
                   then Critical (label @ '': certificate expired on '' @ rfc3339 (ct_NotAfter leaf) @ '', '' @ who)
                   else if days < minDays
                   then Critical (label @ '': certificate expires in '' @ itoa days @ '' days (''
                          @ rfc3339 (ct_NotAfter leaf) @ ''), minimum is '' @ itoa minDays @ '', '' @ who)
                   else OK (label @ '': certificate valid for '' @ itoa days @ '' more days (until ''
                          @ rfc3339 (ct_NotAfter leaf) @ ''), '' @ who)))"

section \<open>Addresses\<close>

text \<open>Addr and resolve: a failed lookup is the UNKNOWN verdict of a probe that could not start.\<close>

type_synonym 'w addr = "'w \<Rightarrow> string res \<times> 'w"

definition Static :: "string \<Rightarrow> 'w addr" where
  "Static host w = (Inr host, w)"

definition resolve :: "'w addr \<Rightarrow> string \<Rightarrow> 'w \<Rightarrow> (result + string) \<times> 'w" where
  "resolve addr name w =
     (case addr w of
        (Inl err, w') \<Rightarrow> (Inl (Unknown (name @ '': cannot resolve target: '' @ err)), w')
      | (Inr host, w') \<Rightarrow> (Inr host, w'))"

section \<open>What every verdict satisfies\<close>

text \<open>A verdict built by OK, Warning, Critical or Unknown: one of the four Nagios states, priced at
  its exit code.\<close>

definition graded :: "result \<Rightarrow> bool" where
  "graded r \<longleftrightarrow> rs_Status r \<in> {StatusOK, StatusWarning, StatusCritical, StatusUnknown}
                 \<and> rs_Points r = rs_Status r"

lemma graded_verdicts [simp]: "graded (OK m)" "graded (Warning m)" "graded (Critical m)" "graded (Unknown m)"
  by (simp_all add: graded_def verdict_defs)

lemma verdict_status [simp]:
  "rs_Status (OK m) = 0" "rs_Status (Warning m) = 1" "rs_Status (Critical m) = 2" "rs_Status (Unknown m) = 3"
  "rs_Points (OK m) = 0" "rs_Points (Warning m) = 1" "rs_Points (Critical m) = 2" "rs_Points (Unknown m) = 3"
  "rs_Message (OK m) = m" "rs_Message (Warning m) = m" "rs_Message (Critical m) = m" "rs_Message (Unknown m) = m"
  by (simp_all add: verdict_defs)

lemma graded_cases:
  "graded r \<Longrightarrow> rs_Status r = 0 \<or> rs_Status r = 1 \<or> rs_Status r = 2 \<or> rs_Status r = 3"
  by (auto simp: graded_def)

lemma resolve_bad: "resolve addr name w = (Inl bad, w') \<Longrightarrow> graded bad \<and> rs_Status bad = 3"
  by (auto simp: resolve_def split: prod.splits sum.splits)

text \<open>
  The Probe interface: what the runner relies on whatever the probe measures. \<open>run\<close> takes all a
  probe's inputs at once.
\<close>

locale probe_contract =
  fixes run :: "'i \<Rightarrow> result"
  assumes run_graded: "graded (run i)"
begin

lemma points_bounds: "0 \<le> result_weight (run i) \<and> result_weight (run i) \<le> 3"
  using graded_cases [OF run_graded [of i]] run_graded [of i] by (auto simp: graded_def result_weight_def)

lemma free_iff_ok: "result_weight (run i) = 0 \<longleftrightarrow> rs_Status (run i) = StatusOK"
  using run_graded [of i] by (auto simp: graded_def result_weight_def)

lemma label_valid: "status_string (rs_Status (run i)) \<noteq> ''INVALID''"
  using graded_cases [OF run_graded [of i]] by (auto simp: status_string_def)

lemma cost_weight:
  "result_weight (cost_result n (run i)) = (if rs_Status (run i) = StatusOK then 0 else n)"
  using run_graded [of i] by (auto simp: graded_def result_weight_def cost_result_def)

lemma cost_keeps: "rs_Status (cost_result n (run i)) = rs_Status (run i)"
  "rs_Message (cost_result n (run i)) = rs_Message (run i)"
  by (simp_all add: cost_result_def)

end

lemma graded_cert_expiry [simp]: "graded (cert_expiry rfc now chain minDays label)"
  by (simp add: cert_expiry_def Let_def split: list.splits)

interpretation cert: probe_contract "\<lambda>(rfc, now, chain, minDays, label). cert_expiry rfc now chain minDays label"
  by unfold_locales (simp split: prod.splits)

text \<open>A weight as the runner adds it up: a panic or an ungraded price cannot make it negative.\<close>

definition priced :: "'w probe \<Rightarrow> int \<Rightarrow> bool" where
  "priced p n \<longleftrightarrow> (\<forall>w r w'. pb_Run p w = (Inr r, w') \<longrightarrow>
      0 \<le> rs_Points r \<and> rs_Points r \<le> n \<and> (rs_Points r = 0 \<longleftrightarrow> rs_Status r = StatusOK))"

lemma probe_run_name [simp]: "rs_Probe (fst (probe_run now p w)) = pb_Name p"
  by (simp add: probe_run_def Let_def split: prod.splits)

lemma probe_run_weight:
  assumes "priced p n" "3 \<le> n"
  shows "0 \<le> result_weight (fst (probe_run now p w)) \<and> result_weight (fst (probe_run now p w)) \<le> n"
  using assms by (auto simp: probe_run_def Let_def result_weight_def priced_def split: prod.splits sum.splits)

lemma priced_Cost: "priced p n \<Longrightarrow> 0 < k \<Longrightarrow> k \<le> m \<Longrightarrow> priced (Cost k p) m"
  by (force simp: priced_def Cost_def cost_result_def split: prod.splits sum.splits if_splits)

lemma cert_accepted_iff:
  assumes "1 \<le> minDays"
  shows "rs_Status (cert_expiry rfc now chain minDays label) = StatusOK \<longleftrightarrow>
    (\<exists>leaf rest. chain = leaf # rest \<and> ct_NotBefore leaf \<le> now \<and> now + minDays * nanos_per_day \<le> ct_NotAfter leaf)"
proof (cases chain)
  case (Cons leaf rest)
  let ?left = "ct_NotAfter leaf - now"
  have days: "go_div ?left nanos_per_day < minDays \<longleftrightarrow> ?left < minDays * nanos_per_day" if "0 < ?left"
    using that by (simp add: nanos_per_day_def int_div_less_iff)
  have pos: "minDays * nanos_per_day \<le> ?left \<Longrightarrow> 0 < ?left"
    using assms by (simp add: nanos_per_day_def)
  show ?thesis using days pos by (auto simp: Cons cert_expiry_def Let_def)
qed (simp add: cert_expiry_def)

lemma cert_rejected:
  "rs_Status (cert_expiry rfc now chain minDays label) \<noteq> StatusOK \<Longrightarrow>
     rs_Status (cert_expiry rfc now chain minDays label) = StatusCritical \<and> result_weight (cert_expiry rfc now chain minDays label) = 2"
  by (auto simp: cert_expiry_def Let_def result_weight_def split: list.splits)

section \<open>Properties\<close>

text \<open>A certificate is accepted exactly when it is valid now and has at least \<open>minDays\<close> whole
  days left, at every instant and for every threshold of at least one day; anything else, an empty
  chain included, is CRITICAL and costs two points.\<close>

theorem cert_expiry_accepts_iff:
  assumes "1 \<le> minDays"
  shows "(rs_Status (cert_expiry rfc now chain minDays label) = StatusOK \<longleftrightarrow>
           (\<exists>leaf rest. chain = leaf # rest \<and> ct_NotBefore leaf \<le> now \<and>
              now + minDays * nanos_per_day \<le> ct_NotAfter leaf)) \<and>
         (rs_Status (cert_expiry rfc now chain minDays label) \<noteq> StatusOK \<longrightarrow>
           rs_Status (cert_expiry rfc now chain minDays label) = StatusCritical \<and>
           result_weight (cert_expiry rfc now chain minDays label) = 2)"
  using cert_accepted_iff [OF assms] cert_rejected by blast

theorem cert_expiry_accepts_iff_witness:
  "rs_Status (cert_expiry (\<lambda>t. '''') 0 [\<lparr>ct_NotBefore = 0, ct_NotAfter = 7 * nanos_per_day,
     ct_Subject = ''CN=a'', ct_Issuer = ''CN=b''\<rparr>] 7 ''postfix-cert'') = StatusOK \<and>
   rs_Status (cert_expiry (\<lambda>t. '''') 1 [\<lparr>ct_NotBefore = 0, ct_NotAfter = 7 * nanos_per_day,
     ct_Subject = ''CN=a'', ct_Issuer = ''CN=b''\<rparr>] 7 ''postfix-cert'') = StatusCritical"
  using cert_expiry_accepts_iff [of 7 "\<lambda>t. ''''" 0 "[\<lparr>ct_NotBefore = 0, ct_NotAfter = 7 * nanos_per_day,
     ct_Subject = ''CN=a'', ct_Issuer = ''CN=b''\<rparr>]" "''postfix-cert''"]
    cert_expiry_accepts_iff [of 7 "\<lambda>t. ''''" 1 "[\<lparr>ct_NotBefore = 0, ct_NotAfter = 7 * nanos_per_day,
     ct_Subject = ''CN=a'', ct_Issuer = ''CN=b''\<rparr>]" "''postfix-cert''"]
  by (simp add: nanos_per_day_def)

text \<open>The harness turns every run of a probe into a verdict: a panic becomes UNKNOWN at three
  points, and the result carries the probe's own name, whatever the probe wrote there; a probe
  wrapped in Cost(k) costs nothing on OK and exactly \<open>k\<close> on every other verdict, and reports the
  severity and the message it observed.\<close>

theorem probe_run_total:
  "rs_Probe (fst (probe_run now p w)) = pb_Name p \<and>
   (case pb_Run p w of
      (Inl v, w') \<Rightarrow> probe_run now (Cost k p) w = probe_run now p w \<and>
        rs_Status (fst (probe_run now p w)) = StatusUnknown \<and>
        result_weight (fst (probe_run now p w)) = 3 \<and> snd (probe_run now p w) = w'
    | (Inr r, w') \<Rightarrow>
        rs_Status (fst (probe_run now (Cost k p) w)) = rs_Status r \<and>
        rs_Message (fst (probe_run now (Cost k p) w)) = rs_Message r \<and>
        result_weight (fst (probe_run now (Cost k p) w)) = (if rs_Status r = StatusOK then rs_Points r else k) \<and>
        snd (probe_run now (Cost k p) w) = snd (probe_run now p w))"
  by (auto simp: probe_run_def Cost_def cost_result_def result_weight_def Let_def split: prod.splits sum.splits)

end
