(* ===== verification/Runner.thy ===== *)
theory Runner
  imports Gate Checks Metrics Notify Dockerapi Probe
begin

text \<open>
  internal/supervisor/runner.go and the state it shares with supervisor.go. \<open>deps\<close> are the
  collaborators, fixed once the supervisor is built; \<open>sup\<close> is what changes: the runners (each a
  check and its tracker), the gate, the metrics, the event queue and the outside world. A running
  check adds its probes and closures to the fields of \<open>check\<close>. An event names its check by the
  runner's index, which is the pointer it carries.
\<close>

section \<open>Collaborators\<close>

record 'w docker_api =
  da_Find :: "string \<Rightarrow> 'w \<Rightarrow> container list res \<times> 'w"
  da_Restart :: "string \<Rightarrow> 'w \<Rightarrow> error option \<times> 'w"
  da_Running :: "string \<Rightarrow> string \<Rightarrow> 'w \<Rightarrow> bool res \<times> 'w"
  da_Reachable :: "'w \<Rightarrow> bool \<times> 'w"

definition client_api :: "'w docker_client \<Rightarrow> 'w docker_api" where
  "client_api c = \<lparr>da_Find = docker_Find c, da_Restart = docker_Restart c, da_Running = docker_Running c,
     da_Reachable = docker_Reachable c\<rparr>"

record 'w log_store =
  ls_LogMessage :: "string \<Rightarrow> 'w \<Rightarrow> error option \<times> 'w"
  ls_LogProgress :: "snapshot \<Rightarrow> 'w \<Rightarrow> error option \<times> 'w"

definition redis_log_store :: "'w redis_client \<Rightarrow> 'w log_store" where
  "redis_log_store r = \<lparr>ls_LogMessage = redis_log_message r, ls_LogProgress = redis_log_progress r\<rparr>"

record 'w deps =
  de_docker :: "'w docker_api option"
  de_store :: "'w log_store"
  de_dispatcher :: "'w dispatcher option"
  de_whois :: "(string \<Rightarrow> 'w \<Rightarrow> string res \<times> 'w) option"
  de_now :: "'w \<Rightarrow> int"
  de_sleep :: "int \<Rightarrow> 'w \<Rightarrow> error option \<times> 'w"
  de_ctx :: "'w \<Rightarrow> error option"
  de_rand :: "'w \<Rightarrow> int \<Rightarrow> int"
  de_parse_time :: "string \<Rightarrow> gotime res"
  de_notifyBans :: bool

section \<open>State\<close>

record 'w live_check = check +
  lc_Probes :: "'w probe list"
  lc_Bans :: "('w \<Rightarrow> string list) option"
  lc_details :: "('w \<Rightarrow> string \<times> 'w) option"

record 'w runner =
  rn_check :: "'w live_check"
  rn_tracker :: tracker

record event =
  ev_Check :: nat
  ev_Snapshot :: snapshot

record 'w sup =
  su_runners :: "'w runner list"
  su_gate :: gate
  su_metrics :: metrics
  su_events :: "event list"
  su_capacity :: nat
  su_world :: 'w

definition new_runner :: "'w live_check \<Rightarrow> 'w runner" where
  "new_runner c = \<lparr>rn_check = c, rn_tracker = tracker_new (ck_Service c) (ck_Threshold c)\<rparr>"

definition runner_check :: "nat \<Rightarrow> 'w sup \<Rightarrow> 'w live_check" where
  "runner_check i st = rn_check (su_runners st ! i)"

definition runner_tracker :: "nat \<Rightarrow> 'w sup \<Rightarrow> tracker" where
  "runner_tracker i st = rn_tracker (su_runners st ! i)"

definition upd_runner :: "nat \<Rightarrow> ('w runner \<Rightarrow> 'w runner) \<Rightarrow> 'w sup \<Rightarrow> 'w sup" where
  "upd_runner i f st = st\<lparr>su_runners := (su_runners st)[i := f (su_runners st ! i)]\<rparr>"

definition upd_metrics :: "(metrics \<Rightarrow> metrics) \<Rightarrow> 'w sup \<Rightarrow> 'w sup" where
  "upd_metrics f st = st\<lparr>su_metrics := f (su_metrics st)\<rparr>"

definition set_world :: "'w \<Rightarrow> 'w sup \<Rightarrow> 'w sup" where
  "set_world w st = st\<lparr>su_world := w\<rparr>"

section \<open>Check.Details\<close>

definition check_details :: "'w live_check \<Rightarrow> 'w \<Rightarrow> string \<times> 'w" where
  "check_details c w = (case lc_details c of Some f \<Rightarrow> f w | None \<Rightarrow> (check_transcript_text c, w))"

section \<open>Runner\<close>

definition runner_heal :: "int \<Rightarrow> 'w runner \<Rightarrow> 'w runner" where
  "runner_heal points r = r\<lparr>rn_tracker := snd (tracker_heal points (rn_tracker r))\<rparr>"

definition runner_snapshot :: "'w runner \<Rightarrow> snapshot" where
  "runner_snapshot r = tracker_snapshot (rn_tracker r)"

text \<open>publish: an error of the store is only logged.\<close>

definition publish :: "'w deps \<Rightarrow> nat \<Rightarrow> snapshot \<Rightarrow> 'w sup \<Rightarrow> 'w sup" where
  "publish d i s st =
     (let st = upd_metrics (observe_health (ck_Name (runner_check i st)) s) st
      in set_world (snd (ls_LogProgress (de_store d) s (su_world st))) st)"

text \<open>One probe of a round: its line goes to the transcript, its weight into the sum.\<close>

definition run_probe :: "'w deps \<Rightarrow> nat \<Rightarrow> 'w probe \<Rightarrow> int \<times> 'w sup \<Rightarrow> int \<times> 'w sup" where
  "run_probe d i p acc =
     (let (weight, st) = acc;
          (res, w') = probe_run (de_now d) p (su_world st);
          st = set_world w' st;
          st = upd_runner i (\<lambda>r. r\<lparr>rn_check := check_record
                 [status_string (rs_Status res) @ '': '' @ rs_Message res] (rn_check r)\<rparr>) st;
          st = upd_metrics (observe_probe (ck_Name (runner_check i st)) (rs_Probe res) (rs_Status res) (rs_Duration res)) st
      in (wrap64 (weight + result_weight res), st))"

text \<open>The end of a round: the sum is charged to the budget, and the outcome published.\<close>

definition conclude_round :: "'w deps \<Rightarrow> nat \<Rightarrow> int \<Rightarrow> 'w sup \<Rightarrow> snapshot \<times> 'w sup" where
  "conclude_round d i weight st =
     (let (snapshot, t) = tracker_record weight (runner_tracker i st);
          st = upd_runner i (\<lambda>r. r\<lparr>rn_tracker := t\<rparr>) st
      in (snapshot, publish d i snapshot st))"

definition runner_round :: "'w deps \<Rightarrow> nat \<Rightarrow> 'w sup \<Rightarrow> snapshot \<times> 'w sup" where
  "runner_round d i st =
     (let (weight, st) = fold (run_probe d i) (lc_Probes (runner_check i st)) (0, st)
      in conclude_round d i weight st)"

text \<open>The pause after a round: Pick is always called (it may panic), and replaced when the budget is
  spent.\<close>

definition round_delay :: "'w deps \<Rightarrow> nat \<Rightarrow> snapshot \<Rightarrow> 'w sup \<Rightarrow> int option" where
  "round_delay d i s st =
     (let c = runner_check i st in
      map_option (\<lambda>delay. if snapshot_dead s then ck_DeadDelay c else delay)
        (interval_pick (de_rand d (su_world st)) (ck_Interval c)))"

text \<open>What follows the sleep of a spent budget: the fresh budget and the metric, before the event.\<close>

definition exhaust :: "nat \<Rightarrow> 'w sup \<Rightarrow> 'w sup" where
  "exhaust i st =
     (let st = upd_runner i (\<lambda>r. r\<lparr>rn_tracker := tracker_reset (rn_tracker r)\<rparr>) st
      in upd_metrics (observe_exhausted (ck_Name (runner_check i st))) st)"

text \<open>Sending on the channel of events blocks while the buffer is full.\<close>

definition send_event :: "event \<Rightarrow> 'w sup \<Rightarrow> 'w sup option" where
  "send_event e st =
     (if length (su_events st) < su_capacity st then Some (st\<lparr>su_events := su_events st @ [e]\<rparr>) else None)"

section \<open>Framing\<close>

lemma upd_runner_fields [simp]:
  "su_gate (upd_runner i f st) = su_gate st" "su_metrics (upd_runner i f st) = su_metrics st"
  "su_events (upd_runner i f st) = su_events st" "su_capacity (upd_runner i f st) = su_capacity st"
  "su_world (upd_runner i f st) = su_world st" "length (su_runners (upd_runner i f st)) = length (su_runners st)"
  by (simp_all add: upd_runner_def)

lemma upd_metrics_fields [simp]:
  "su_gate (upd_metrics f st) = su_gate st" "su_runners (upd_metrics f st) = su_runners st"
  "su_events (upd_metrics f st) = su_events st" "su_capacity (upd_metrics f st) = su_capacity st"
  "su_world (upd_metrics f st) = su_world st" "su_metrics (upd_metrics f st) = f (su_metrics st)"
  "runner_check i (upd_metrics f st) = runner_check i st" "runner_tracker i (upd_metrics f st) = runner_tracker i st"
  by (simp_all add: upd_metrics_def runner_check_def runner_tracker_def)

lemma set_world_fields [simp]:
  "su_gate (set_world w st) = su_gate st" "su_runners (set_world w st) = su_runners st"
  "su_events (set_world w st) = su_events st" "su_capacity (set_world w st) = su_capacity st"
  "su_world (set_world w st) = w" "su_metrics (set_world w st) = su_metrics st"
  "runner_check i (set_world w st) = runner_check i st" "runner_tracker i (set_world w st) = runner_tracker i st"
  by (simp_all add: set_world_def runner_check_def runner_tracker_def)

lemma upd_runner_nth:
  "i < length (su_runners st) \<Longrightarrow> su_runners (upd_runner i f st) ! j = (if j = i then f (su_runners st ! i) else su_runners st ! j)"
  by (simp add: upd_runner_def nth_list_update)

text \<open>What no step of a round changes: everything but the runner's own record, the metrics and the
  world.\<close>

definition framed :: "nat \<Rightarrow> 'w sup \<Rightarrow> 'w sup \<Rightarrow> bool" where
  "framed i st st' \<longleftrightarrow>
     su_gate st' = su_gate st \<and> su_events st' = su_events st \<and> su_capacity st' = su_capacity st \<and>
     length (su_runners st') = length (su_runners st) \<and>
     (\<forall>j. j \<noteq> i \<longrightarrow> su_runners st' ! j = su_runners st ! j)"

lemma framed_refl [simp]: "framed i st st"
  by (simp add: framed_def)

lemma framed_trans: "framed i st st' \<Longrightarrow> framed i st' st'' \<Longrightarrow> framed i st st''"
  by (auto simp: framed_def)

lemma framed_steps [simp]:
  "framed i st (upd_runner i f st)" "framed i st (upd_metrics g st)" "framed i st (set_world w st)"
  by (auto simp: framed_def upd_runner_def)

section \<open>A round as a whole\<close>

text \<open>What the probes of a round report, one after the other in the changing world, the weight the
  round adds up, and the transcript line of a result.\<close>

fun probe_results :: "('w \<Rightarrow> int) \<Rightarrow> 'w probe list \<Rightarrow> 'w \<Rightarrow> result list \<times> 'w" where
  "probe_results now [] w = ([], w)"
| "probe_results now (p # ps) w =
     (let (r, w') = probe_run now p w; (rs, w'') = probe_results now ps w' in (r # rs, w''))"

definition round_weight :: "result list \<Rightarrow> int" where
  "round_weight rs = foldl (\<lambda>weight r. wrap64 (weight + result_weight r)) 0 rs"

definition result_line :: "result \<Rightarrow> string" where
  "result_line r = status_string (rs_Status r) @ '': '' @ rs_Message r"

lemma result_line_nonempty [simp]: "result_line r \<noteq> []"
  by (simp add: result_line_def)

lemma length_probe_results [simp]: "length (fst (probe_results now ps w)) = length ps"
  by (induction ps arbitrary: w) (simp_all add: Let_def case_prod_beta)

lemma foldl_weight_sum:
  "0 \<le> a \<Longrightarrow> (\<And>r. r \<in> set rs \<Longrightarrow> 0 \<le> result_weight r) \<Longrightarrow> a + sum_list (map result_weight rs) \<le> max_int64 \<Longrightarrow>
     foldl (\<lambda>weight r. wrap64 (weight + result_weight r)) a rs = a + sum_list (map result_weight rs)"
proof (induction rs arbitrary: a)
  case Nil
  then show ?case by simp
next
  case (Cons r rs)
  have "0 \<le> result_weight r" using Cons.prems(2) by simp
  moreover have "0 \<le> sum_list (map result_weight rs)"
    by (rule sum_list_nonneg) (use Cons.prems(2) in auto)
  moreover from this have "wrap64 (a + result_weight r) = a + result_weight r"
    using Cons.prems by (intro wrap64_nonneg) auto
  ultimately show ?case using Cons.prems Cons.IH [of "a + result_weight r"] by (simp add: add.assoc)
qed

lemma round_weight_sum:
  "(\<And>r. r \<in> set rs \<Longrightarrow> 0 \<le> result_weight r) \<Longrightarrow> sum_list (map result_weight rs) \<le> max_int64 \<Longrightarrow>
     round_weight rs = sum_list (map result_weight rs)"
  using foldl_weight_sum [of 0 rs] by (simp add: round_weight_def)

text \<open>The runner's record after some results, and the metrics they leave.\<close>

definition with_lines :: "string list \<Rightarrow> 'w runner \<Rightarrow> 'w runner" where
  "with_lines ls r = r\<lparr>rn_check := (rn_check r)\<lparr>ck_transcript := last_n 50 (ck_transcript (rn_check r) @ ls)\<rparr>\<rparr>"

definition probe_calls :: "string \<Rightarrow> result \<Rightarrow> metrics" where
  "probe_calls name r = observe_probe name (rs_Probe r) (rs_Status r) (rs_Duration r) []"

lemma check_record_line:
  "l \<noteq> [] \<Longrightarrow> check_record [l] c = c\<lparr>ck_transcript := last_n 50 (ck_transcript c @ [l])\<rparr>"
  using check_record_transcript [of "[l]" c] by (simp add: check_record_def Let_def)

lemma run_probe_step:
  assumes "i < length (su_runners st)" "probe_run (de_now d) p (su_world st) = (res, w')"
  shows "run_probe d i p (weight, st) =
    (wrap64 (weight + result_weight res),
     st\<lparr>su_world := w',
        su_runners := (su_runners st)[i := with_lines [result_line res] (su_runners st ! i)],
        su_metrics := su_metrics st @ probe_calls (ck_Name (runner_check i st)) res\<rparr>)"
  using assms
  by (simp add: run_probe_def upd_runner_def upd_metrics_def set_world_def runner_check_def with_lines_def
      check_record_line result_line_def probe_calls_def observe_probe_def)

lemma with_lines_with_lines:
  "with_lines ls' (with_lines ls r) = with_lines (ls @ ls') r"
  by (simp add: with_lines_def last_n_append)

lemma with_lines_fields [simp]:
  "rn_tracker (with_lines ls r) = rn_tracker r" "ck_Name (rn_check (with_lines ls r)) = ck_Name (rn_check r)"
  "ck_Event (rn_check (with_lines ls r)) = ck_Event (rn_check r)"
  "ck_Threshold (rn_check (with_lines ls r)) = ck_Threshold (rn_check r)"
  "ck_Interval (rn_check (with_lines ls r)) = ck_Interval (rn_check r)"
  "ck_DeadDelay (rn_check (with_lines ls r)) = ck_DeadDelay (rn_check r)"
  "ck_Service (rn_check (with_lines ls r)) = ck_Service (rn_check r)"
  "lc_Probes (rn_check (with_lines ls r)) = lc_Probes (rn_check r)"
  "lc_details (rn_check (with_lines ls r)) = lc_details (rn_check r)"
  "lc_Bans (rn_check (with_lines ls r)) = lc_Bans (rn_check r)"
  by (simp_all add: with_lines_def)

text \<open>A fold of probes, for a runner whose transcript already has its bounded form.\<close>

lemma fold_run_probe:
  assumes "i < length (su_runners st)" "probe_results (de_now d) ps (su_world st) = (rs, w')"
    and "length (ck_transcript (runner_check i st)) \<le> 50"
  shows "fold (run_probe d i) ps (weight, st) =
    (foldl (\<lambda>weight r. wrap64 (weight + result_weight r)) weight rs,
     st\<lparr>su_world := w',
        su_runners := (su_runners st)[i := with_lines (map result_line rs) (su_runners st ! i)],
        su_metrics := su_metrics st @ concat (map (probe_calls (ck_Name (runner_check i st))) rs)\<rparr>)"
  using assms
proof (induction ps arbitrary: weight st rs w')
  case Nil
  have "with_lines [] (su_runners st ! i) = su_runners st ! i"
    using Nil.prems(3) by (simp add: with_lines_def last_n_def runner_check_def)
  with Nil show ?case by simp
next
  case (Cons p ps)
  obtain r w1 where r: "probe_run (de_now d) p (su_world st) = (r, w1)" by (cases "probe_run (de_now d) p (su_world st)")
  obtain rs1 w2 where rs: "probe_results (de_now d) ps w1 = (rs1, w2)" by (cases "probe_results (de_now d) ps w1")
  define st1 where "st1 = st\<lparr>su_world := w1,
        su_runners := (su_runners st)[i := with_lines [result_line r] (su_runners st ! i)],
        su_metrics := su_metrics st @ probe_calls (ck_Name (runner_check i st)) r\<rparr>"
  have e: "rs = r # rs1" "w' = w2" using Cons.prems r rs by (simp_all add: Let_def)
  have "length (ck_transcript (runner_check i st1)) \<le> 50"
    using Cons.prems(1) by (simp add: st1_def runner_check_def with_lines_def last_n_def)
  moreover have "probe_results (de_now d) ps (su_world st1) = (rs1, w2)" using rs by (simp add: st1_def)
  ultimately have "fold (run_probe d i) ps (wrap64 (weight + result_weight r), st1) =
    (foldl (\<lambda>weight r. wrap64 (weight + result_weight r)) (wrap64 (weight + result_weight r)) rs1,
     st1\<lparr>su_world := w2,
        su_runners := (su_runners st1)[i := with_lines (map result_line rs1) (su_runners st1 ! i)],
        su_metrics := su_metrics st1 @ concat (map (probe_calls (ck_Name (runner_check i st1))) rs1)\<rparr>)"
    using Cons.prems(1) by (intro Cons.IH) (simp_all add: st1_def)
  then show ?case
    using Cons.prems(1) by (simp add: run_probe_step [OF _ r] e st1_def [symmetric])
      (simp add: st1_def runner_check_def with_lines_with_lines)
qed

text \<open>The state after a round, in one equation.\<close>

lemma runner_round_eq:
  assumes "i < length (su_runners st)" "length (ck_transcript (runner_check i st)) \<le> 50"
    and "probe_results (de_now d) (lc_Probes (runner_check i st)) (su_world st) = (rs, w')"
    and "tracker_record (round_weight rs) (runner_tracker i st) = (s, t)"
  shows "runner_round d i st =
    (s, st\<lparr>su_world := snd (ls_LogProgress (de_store d) s w'),
           su_runners := (su_runners st)[i := (with_lines (map result_line rs) (su_runners st ! i))\<lparr>rn_tracker := t\<rparr>],
           su_metrics := su_metrics st @ concat (map (probe_calls (ck_Name (runner_check i st))) rs)
             @ observe_health (ck_Name (runner_check i st)) s []\<rparr>)"
  using assms(1,4) fold_run_probe [OF assms(1,3,2), of 0]
  by (simp add: runner_round_def conclude_round_def round_weight_def runner_tracker_def publish_def upd_runner_def upd_metrics_def
      set_world_def runner_check_def observe_health_def)

lemma framed_run_probe: "framed i (snd a) (snd (run_probe d i p a))"
  by (auto simp: run_probe_def framed_def upd_runner_def Let_def split: prod.splits)

lemma framed_conclude: "framed i st (snd (conclude_round d i weight st))"
  by (auto simp: conclude_round_def publish_def framed_def upd_runner_def Let_def split: prod.splits)

section \<open>Properties\<close>

text \<open>C19. A round accounts for every probe exactly once: the health it publishes is that of the budget
  charged with the sum of the weights the probes reported, each probe leaves one transcript line and
  its two metric calls, in order, the published snapshot is exported, the tracker is left in the
  state Record gives, and the store's answer has no influence on any of it.\<close>

theorem round_accounts_for_probes:
  assumes "i < length (su_runners st)" "length (ck_transcript (runner_check i st)) \<le> 50"
    and "probe_results (de_now d) (lc_Probes (runner_check i st)) (su_world st) = (rs, w')"
    and "\<And>r. r \<in> set rs \<Longrightarrow> 0 \<le> result_weight r" "sum_list (map result_weight rs) \<le> max_int64"
  shows "fst (runner_round d i st) = fst (tracker_record (sum_list (map result_weight rs)) (runner_tracker i st)) \<and>
    runner_tracker i (snd (runner_round d i st)) = snd (tracker_record (sum_list (map result_weight rs)) (runner_tracker i st)) \<and>
    ck_transcript (runner_check i (snd (runner_round d i st)))
      = last_n 50 (ck_transcript (runner_check i st) @ map result_line rs) \<and>
    su_metrics (snd (runner_round d i st)) = su_metrics st
      @ concat (map (probe_calls (ck_Name (runner_check i st))) rs)
      @ observe_health (ck_Name (runner_check i st)) (fst (runner_round d i st)) []"
proof -
  obtain s t where "tracker_record (round_weight rs) (runner_tracker i st) = (s, t)"
    by (cases "tracker_record (round_weight rs) (runner_tracker i st)")
  from this runner_round_eq [OF assms(1-3) this] show ?thesis
    using assms(1) by (simp add: round_weight_sum [OF assms(4,5)] runner_tracker_def runner_check_def with_lines_def)
qed

section \<open>A concrete runner\<close>

definition silent_store :: "'w log_store" where
  "silent_store = \<lparr>ls_LogMessage = \<lambda>m. Pair None, ls_LogProgress = \<lambda>s. Pair (Some ''refused'')\<rparr>"

definition demo_deps :: "'w deps" where
  "demo_deps =
     \<lparr>de_docker = None, de_store = silent_store, de_dispatcher = None, de_whois = None, de_now = \<lambda>w. 0,
      de_sleep = \<lambda>n. Pair None, de_ctx = \<lambda>w. None, de_rand = \<lambda>w n. 0, de_parse_time = \<lambda>s. Inl s,
      de_notifyBans = True\<rparr>"

definition fixed_probe :: "string \<Rightarrow> result \<Rightarrow> 'w probe" where
  "fixed_probe n r = \<lparr>pb_Name = n, pb_Run = Pair (Inr r)\<rparr>"

definition demo_check :: "string \<Rightarrow> 'w live_check" where
  "demo_check event =
     \<lparr>ck_Name = ''nginx'', ck_Service = ''Nginx'', ck_Event = event, ck_Threshold = 5,
      ck_Interval = \<lparr>iv_Min = 20, iv_Max = 80\<rparr>, ck_DeadDelay = 1, ck_transcript = [],
      lc_Probes = [fixed_probe ''http'' (Critical ''refused''), fixed_probe ''tls'' (OK ''valid'')],
      lc_Bans = None, lc_details = None\<rparr>"

definition demo_sup :: "string \<Rightarrow> 'w \<Rightarrow> 'w sup" where
  "demo_sup event w =
     \<lparr>su_runners = [new_runner (demo_check event)], su_gate = \<lparr>g_open = 0, g_fresh = 1, g_closed = [0]\<rparr>,
      su_metrics = [], su_events = [], su_capacity = 1, su_world = w\<rparr>"

definition demo_results :: "result list" where
  "demo_results = [(Critical ''refused'')\<lparr>rs_Probe := ''http''\<rparr>, (OK ''valid'')\<lparr>rs_Probe := ''tls''\<rparr>]"

lemma demo_sup_fields [simp]:
  "length (su_runners (demo_sup e w)) = 1" "runner_check 0 (demo_sup e w) = demo_check e"
  "runner_tracker 0 (demo_sup e w) = tracker_new ''Nginx'' 5" "su_world (demo_sup e w) = w"
  "su_events (demo_sup e w) = []" "su_capacity (demo_sup e w) = 1"
  "ck_transcript (demo_check e) = []" "ck_Event (demo_check e) = e"
  by (simp_all add: demo_sup_def runner_check_def runner_tracker_def new_runner_def demo_check_def)

lemma demo_probe_results:
  "probe_results (de_now demo_deps) (lc_Probes (runner_check 0 (demo_sup e w))) (su_world (demo_sup e w)) = (demo_results, w)"
  by (simp add: demo_check_def demo_deps_def demo_results_def fixed_probe_def probe_run_def Critical_def OK_def result_of_def)

lemma demo_results_weights [simp]:
  "r \<in> set demo_results \<Longrightarrow> 0 \<le> result_weight r" "sum_list (map result_weight demo_results) = 2"
  "map result_line demo_results = [''CRITICAL: refused'', ''OK: valid'']"
  by (auto simp: demo_results_def result_weight_def result_line_def status_string_def)

theorem round_accounts_for_probes_witness:
  "fst (runner_round demo_deps 0 (demo_sup ''nginx-mailcow'' ())) = fst (tracker_record 2 (tracker_new ''Nginx'' 5)) \<and>
   ck_transcript (runner_check 0 (snd (runner_round demo_deps 0 (demo_sup ''nginx-mailcow'' ()))))
     = [''CRITICAL: refused'', ''OK: valid'']"
  using round_accounts_for_probes [OF _ _ demo_probe_results [of "''nginx-mailcow''" "()"]]
  by (simp add: last_n_def)

end
