(* ===== verification/Supervisor.thy ===== *)
theory Supervisor
  imports Runner "HOL-Library.Sublist"
begin

text \<open>
  internal/supervisor/supervisor.go: acting on events. Every function here runs on one goroutine
  (the event loop or the API watcher); the interleaving with the runners is the step relation of
  the theory System. A function that may panic returns an option; the only panic would be
  closing the gate's channel twice.
\<close>

section \<open>Constants\<close>

definition MinUptime :: int where "MinUptime = 360 * second"
definition PauseBeforeRestart :: int where "PauseBeforeRestart = 10 * second"
definition SettleAfterRestart :: int where "SettleAfterRestart = 35 * second"
definition InitDBDelay :: int where "InitDBDelay = 60 * second"
definition HealPoints :: int where "HealPoints = 2"
definition DockerAPIPoll :: int where "DockerAPIPoll = 3 * second"
definition replicationThrottle :: int where "replicationThrottle = 10 * minute"
definition certThrottle :: int where "certThrottle = 24 * hour"

text \<open>From internal/check/registry.go.\<close>

definition PHPFPMService :: string where "PHPFPMService = ''php-fpm-mailcow''"
definition InitDBProcess :: string where
  "InitDBProcess = ''php -c /usr/local/etc/php -f /web/inc/init_db.inc.php''"

section \<open>New\<close>

definition supervisor_new ::
  "'w live_check list \<Rightarrow> metrics option \<Rightarrow> 'w log_store option \<Rightarrow> 'w \<Rightarrow> 'w sup res option" where
  "supervisor_new checks metrics store w =
     (if checks = [] then Some (Inl ''no checks are enabled'')
      else case metrics of
        None \<Rightarrow> Some (Inl ''no metrics supplied'')
      | Some m \<Rightarrow>
          (case store of
             None \<Rightarrow> Some (Inl ''no store supplied'')
           | Some st \<Rightarrow>
               map_option (\<lambda>g. Inr
                 \<lparr>su_runners = map new_runner checks, su_gate = g,
                  su_metrics = fold (\<lambda>c. init_check (ck_Name c) (ck_Threshold c)) checks m,
                  su_events = [], su_capacity = length checks, su_world = w\<rparr>) gate_new))"

section \<open>Pausing, resuming and healing\<close>

definition pauseAll :: "'w sup \<Rightarrow> 'w sup" where
  "pauseAll st = upd_metrics (set_paused True) (st\<lparr>su_gate := gate_pause (su_gate st)\<rparr>)"

definition resumeAll :: "'w sup \<Rightarrow> 'w sup option" where
  "resumeAll st =
     map_option (\<lambda>g. upd_metrics (set_paused False) (st\<lparr>su_gate := g\<rparr>)) (gate_resume (su_gate st))"

definition healAll :: "'w sup \<Rightarrow> 'w sup" where
  "healAll st = st\<lparr>su_runners := map (runner_heal HealPoints) (su_runners st)\<rparr>"

section \<open>Alerts and the log\<close>

definition raise_alert :: "'w deps \<Rightarrow> alert \<Rightarrow> 'w sup \<Rightarrow> 'w sup" where
  "raise_alert d a st =
     (case de_dispatcher d of
        None \<Rightarrow> upd_metrics (observe_notification ''disabled'') st
      | Some disp \<Rightarrow>
          (case dispatch disp a (su_world st) of
             (Some err, w) \<Rightarrow> upd_metrics (observe_notification ''failed'') (set_world w st)
           | (None, w) \<Rightarrow> upd_metrics (observe_notification ''sent'') (set_world w st)))"

definition logToRedis :: "'w deps \<Rightarrow> string \<Rightarrow> 'w sup \<Rightarrow> 'w sup" where
  "logToRedis d message st = set_world (snd (ls_LogMessage (de_store d) message (su_world st))) st"

text \<open>An alert about a check: its Details are asked for first.\<close>

definition alert_about :: "'w deps \<Rightarrow> nat \<Rightarrow> string \<Rightarrow> int \<Rightarrow> 'w sup \<Rightarrow> 'w sup" where
  "alert_about d i message throttle st =
     (let c = runner_check i st;
          (details, w) = check_details c (su_world st)
      in raise_alert d \<lparr>al_Service = ck_Event c, al_Message = message, al_Details = details, al_Throttle = throttle\<rparr>
           (set_world w st))"

section \<open>Bans\<close>

definition ban_details :: "'w deps \<Rightarrow> string \<Rightarrow> 'w sup \<Rightarrow> string \<times> 'w sup" where
  "ban_details d host st =
     (case de_whois d of
        None \<Rightarrow> ([], st)
      | Some lookup \<Rightarrow>
          (case lookup host (su_world st) of
             (Inl err, w) \<Rightarrow> ([], set_world w st)
           | (Inr record, w) \<Rightarrow> (record, set_world w st)))"

definition handle_ban :: "'w deps \<Rightarrow> string \<Rightarrow> string \<Rightarrow> 'w sup \<Rightarrow> 'w sup" where
  "handle_ban d event host st =
     (let (details, st) = ban_details d host st in
      if \<not> de_notifyBans d then st
      else raise_alert d \<lparr>al_Service = event, al_Message = ''IP ban: '' @ host, al_Details = details, al_Throttle = 0\<rparr> st)"

definition handleBans :: "'w deps \<Rightarrow> nat \<Rightarrow> 'w sup \<Rightarrow> 'w sup" where
  "handleBans d i st =
     (let c = runner_check i st;
          st = upd_metrics (observe_event (ck_Event c) ''notify'') st;
          bans = (case lc_Bans c of None \<Rightarrow> [] | Some f \<Rightarrow> f (su_world st))
      in fold (handle_ban d (ck_Event c)) bans st)"

section \<open>Restarting\<close>

text \<open>time.Time.Sub saturates at the largest and smallest duration.\<close>

definition time_sub :: "int \<Rightarrow> int \<Rightarrow> int" where
  "time_sub a b = max (- (2 ^ 63)) (min max_int64 (a - b))"

definition too_young :: "'w deps \<Rightarrow> container \<Rightarrow> 'w \<Rightarrow> bool" where
  "too_young d target w =
     (case fst (started (de_parse_time d) target) of
        None \<Rightarrow> False
      | Some at \<Rightarrow> time_sub (de_now d w) (tm_ns at) < MinUptime)"

text \<open>Whether php-fpm is migrating the database: an error counts as no.\<close>

definition migrating :: "'w docker_api \<Rightarrow> string \<Rightarrow> container \<Rightarrow> 'w \<Rightarrow> bool \<times> 'w" where
  "migrating docker container target w =
     (if container = PHPFPMService
      then (case da_Running docker (cn_ID target) InitDBProcess w of
              (Inl err, w') \<Rightarrow> (False, w')
            | (Inr busy, w') \<Rightarrow> (busy, w'))
      else (False, w))"

definition sleep_on :: "'w deps \<Rightarrow> int \<Rightarrow> 'w sup \<Rightarrow> 'w sup" where
  "sleep_on d n st = set_world (snd (de_sleep d n (su_world st))) st"

definition restartOne :: "'w deps \<Rightarrow> 'w docker_api \<Rightarrow> nat \<Rightarrow> container \<Rightarrow> 'w sup \<Rightarrow> 'w sup" where
  "restartOne d docker i target st =
     (let container = ck_Event (runner_check i st) in
      if too_young d target (su_world st) then upd_metrics (observe_restart container ''skipped'') st
      else case migrating docker container target (su_world st) of
        (True, w) \<Rightarrow> sleep_on d InitDBDelay (upd_metrics (observe_restart container ''skipped'') (set_world w st))
      | (False, w) \<Rightarrow>
          (case da_Restart docker (cn_ID target) w of
             (Some err, w') \<Rightarrow> upd_metrics (observe_restart container ''failed'') (set_world w' st)
           | (None, w') \<Rightarrow>
               (let st = set_world w' st;
                    st = upd_metrics (observe_restart container ''restarted'') st;
                    st = upd_metrics (observe_event container ''restart'') st;
                    st = logToRedis d (''Sent restart command to '' @ container) st;
                    st = alert_about d i [] 0 st
                in sleep_on d SettleAfterRestart st)))"

text \<open>The part of restart between pausing and the deferred resuming.\<close>

definition restart_body :: "'w deps \<Rightarrow> nat \<Rightarrow> 'w sup \<Rightarrow> 'w sup" where
  "restart_body d i st =
     (let container = ck_Event (runner_check i st);
          failed = upd_metrics (observe_restart container ''failed'')
      in case de_sleep d PauseBeforeRestart (su_world st) of
        (Some err, w) \<Rightarrow> set_world w st
      | (None, w) \<Rightarrow>
          (case de_docker d of
             None \<Rightarrow> failed (set_world w st)
           | Some docker \<Rightarrow>
               (case da_Find docker container w of
                  (Inl err, w') \<Rightarrow> failed (set_world w' st)
                | (Inr [], w') \<Rightarrow> failed (set_world w' st)
                | (Inr matched, w') \<Rightarrow> fold (restartOne d docker i) matched (set_world w' st))))"

definition restart :: "'w deps \<Rightarrow> nat \<Rightarrow> 'w sup \<Rightarrow> 'w sup option" where
  "restart d i st = resumeAll (restart_body d i (pauseAll st))"

section \<open>handle\<close>

definition handle :: "'w deps \<Rightarrow> event \<Rightarrow> 'w sup \<Rightarrow> 'w sup option" where
  "handle d e st =
     (let i = ev_Check e; c = runner_check i st; event = ck_Event c in
      if event = ''ratelimit'' then Some (alert_about d i [] 0 st)
      else if event = ''mail_queue_status'' then Some (alert_about d i [] 0 st)
      else if event = ''external_checks''
      then Some (alert_about d i ''Please stop mailcow now and check your network configuration!'' 0 st)
      else if event = ''mysql_repl_checks''
      then Some (alert_about d i ''Please check the SQL replication status'' replicationThrottle st)
      else if event = ''dovecot_repl_checks''
      then Some (alert_about d i ''Please check the Dovecot replicator status'' replicationThrottle st)
      else if event = ''certcheck''
      then Some (alert_about d i ''Please renew your certificate'' certThrottle st)
      else if event = ''acme-mailcow''
      then Some (alert_about d i ''Please check acme-mailcow for further information.'' 0 st)
      else if event = ''fail2ban'' then Some (handleBans d i st)
      else if restarts_container c then restart d i st
      else Some (upd_metrics (observe_event event ''unhandled'') st))"

section \<open>watchDockerAPI\<close>

text \<open>One turn of the loop: the sleep, then the test. The first component is the new value of
  \<open>held\<close>, or \<open>None\<close> when the goroutine returns.\<close>

definition watch_turn :: "'w deps \<Rightarrow> 'w docker_api \<Rightarrow> bool \<Rightarrow> 'w sup \<Rightarrow> (bool option \<times> 'w sup) option" where
  "watch_turn d docker held st =
     (case de_sleep d DockerAPIPoll (su_world st) of
        (Some err, w) \<Rightarrow>
          (let st = set_world w st in
           if held then map_option (\<lambda>st. (None, st)) (resumeAll st) else Some (None, st))
      | (None, w) \<Rightarrow>
          (case da_Reachable docker w of
             (reachable, w') \<Rightarrow>
               (let st = set_world w' st in
                if \<not> reachable \<and> \<not> held then Some (Some True, pauseAll st)
                else if reachable \<and> held then map_option (\<lambda>st. (Some False, healAll st)) (resumeAll st)
                else Some (Some held, st))))"

section \<open>Snapshot\<close>

definition supervisor_snapshot :: "'w sup \<Rightarrow> (string \<times> int) list" where
  "supervisor_snapshot st = map (\<lambda>r. (ck_Name (rn_check r), sn_percent (runner_snapshot r))) (su_runners st)"

definition shortID :: "string \<Rightarrow> string" where
  "shortID cid = (if length cid > 12 then take 12 cid else cid)"

section \<open>What an action may change\<close>

text \<open>Only the outside world changes, and calls are added to the metrics, none of them an exhausted
  budget.\<close>

fun is_exhaustion :: "metric_call \<Rightarrow> bool" where
  "is_exhaustion (Inc v ls) = (v = ''check_exhausted_total'')"
| "is_exhaustion c = False"

definition exhaustions :: "metrics \<Rightarrow> nat" where
  "exhaustions m = length (filter is_exhaustion m)"

definition only_outside :: "'w sup \<Rightarrow> 'w sup \<Rightarrow> bool" where
  "only_outside st st' \<longleftrightarrow>
     (\<exists>w m. st' = st\<lparr>su_world := w, su_metrics := su_metrics st @ m\<rparr> \<and> exhaustions m = 0)"

lemma exhaustions_append [simp]: "exhaustions (m @ m') = exhaustions m + exhaustions m'"
  by (simp add: exhaustions_def)

lemma exhaustions_observe [simp]:
  "exhaustions [] = 0"
  "exhaustions (observe_restart c r m) = exhaustions m" "exhaustions (observe_event e a m) = exhaustions m"
  "exhaustions (observe_notification n m) = exhaustions m" "exhaustions (set_paused b m) = exhaustions m"
  "exhaustions (init_check c thr m) = exhaustions m" "exhaustions (observe_health c s m) = exhaustions m"
  "exhaustions (observe_probe c p x dur m) = exhaustions m" "exhaustions (observe_exhausted c m) = Suc (exhaustions m)"
  by (simp_all add: exhaustions_def metrics_defs)

lemma outsideI:
  "st' = st\<lparr>su_world := w, su_metrics := su_metrics st @ m\<rparr> \<Longrightarrow> exhaustions m = 0 \<Longrightarrow> only_outside st st'"
  unfolding only_outside_def by blast

lemma outside_exhaustions: "only_outside st st' \<Longrightarrow> exhaustions (su_metrics st') = exhaustions (su_metrics st)"
  by (auto simp: only_outside_def)

lemma outside_refl [simp]: "only_outside st st"
  by (rule outsideI [where w = "su_world st" and m = "[]"]) simp_all

lemma outside_trans: "only_outside a b \<Longrightarrow> only_outside b c \<Longrightarrow> only_outside a c"
  by (fastforce simp: only_outside_def)

lemma outside_fields:
  "only_outside st st' \<Longrightarrow> su_runners st' = su_runners st \<and> su_gate st' = su_gate st \<and>
     su_events st' = su_events st \<and> su_capacity st' = su_capacity st \<and>
     runner_check i st' = runner_check i st \<and> runner_tracker i st' = runner_tracker i st"
  by (auto simp: only_outside_def runner_check_def runner_tracker_def)

text \<open>Each operation keeps what holds before it.\<close>

named_theorems outside_intros

lemma outside_set_world [outside_intros]: "only_outside a st \<Longrightarrow> only_outside a (set_world w st)"
  by (erule outside_trans, rule outsideI [where w = w and m = "[]"]) (simp_all add: set_world_def)

lemma outside_observe [outside_intros]:
  "only_outside a st \<Longrightarrow> only_outside a (upd_metrics (observe_restart c r) st)"
  "only_outside a st \<Longrightarrow> only_outside a (upd_metrics (observe_event e t) st)"
  "only_outside a st \<Longrightarrow> only_outside a (upd_metrics (observe_notification n) st)"
  by (erule outside_trans, rule outsideI [where w = "su_world st"],
      simp add: upd_metrics_def metrics_defs, simp add: exhaustions_def)+

lemma outside_fold [outside_intros]:
  "only_outside a st \<Longrightarrow> (\<And>x u. only_outside a u \<Longrightarrow> only_outside a (f x u)) \<Longrightarrow> only_outside a (fold f xs st)"
  by (induction xs arbitrary: st) auto

lemma outside_raise_alert [outside_intros]: "only_outside b st \<Longrightarrow> only_outside b (raise_alert d a st)"
  by (auto simp: raise_alert_def intro!: outside_intros split: option.splits prod.splits)

lemma outside_logToRedis [outside_intros]: "only_outside a st \<Longrightarrow> only_outside a (logToRedis d m st)"
  by (simp add: logToRedis_def outside_intros)

lemma outside_sleep_on [outside_intros]: "only_outside a st \<Longrightarrow> only_outside a (sleep_on d n st)"
  by (simp add: sleep_on_def outside_intros)

lemma outside_alert_about [outside_intros]: "only_outside a st \<Longrightarrow> only_outside a (alert_about d i m t st)"
  by (auto simp: alert_about_def Let_def intro!: outside_intros split: prod.splits)

lemma outside_handle_ban [outside_intros]: "only_outside a st \<Longrightarrow> only_outside a (handle_ban d e h st)"
  by (auto simp: handle_ban_def ban_details_def Let_def intro!: outside_intros split: option.splits prod.splits sum.splits)

lemma outside_handleBans [outside_intros]: "only_outside a st \<Longrightarrow> only_outside a (handleBans d i st)"
  by (simp add: handleBans_def Let_def outside_intros)

lemma outside_restartOne [outside_intros]: "only_outside a st \<Longrightarrow> only_outside a (restartOne d docker i target st)"
  by (auto simp: restartOne_def Let_def intro!: outside_intros split: prod.splits bool.splits option.splits)

lemma outside_restart_body [outside_intros]: "only_outside a st \<Longrightarrow> only_outside a (restart_body d i st)"
  by (auto simp: restart_body_def Let_def intro!: outside_intros split: prod.splits option.splits sum.splits list.splits)

section \<open>Pausing and resuming\<close>

lemma pauseAll_fields [simp]:
  "su_runners (pauseAll st) = su_runners st" "su_events (pauseAll st) = su_events st"
  "su_capacity (pauseAll st) = su_capacity st" "su_world (pauseAll st) = su_world st"
  "su_gate (pauseAll st) = gate_pause (su_gate st)" "su_metrics (pauseAll st) = set_paused True (su_metrics st)"
  "runner_check i (pauseAll st) = runner_check i st"
  by (simp_all add: pauseAll_def upd_metrics_def runner_check_def)

lemma resumeAll_Some:
  "\<exists>st'. resumeAll st = Some st'"
  using gate_resume_Some [of "su_gate st"] by (auto simp: resumeAll_def)

lemma resumeAll_fields:
  "resumeAll st = Some st' \<Longrightarrow> su_runners st' = su_runners st \<and> su_events st' = su_events st \<and>
     su_capacity st' = su_capacity st \<and> su_world st' = su_world st \<and>
     gate_resume (su_gate st) = Some (su_gate st') \<and> su_metrics st' = set_paused False (su_metrics st)"
  by (auto simp: resumeAll_def upd_metrics_def)

lemma gate_resume_open: "gate_resume g = Some g' \<Longrightarrow> \<not> gate_paused g'"
  by (auto simp: gate_defs split: if_splits)

lemma gate_pause_paused: "gate_ok g \<Longrightarrow> gate_paused (gate_pause g)"
  by (auto simp: gate_defs gate_ok_def)

lemma restart_Some: "\<exists>st'. restart d i st = Some st'"
  by (simp add: restart_def resumeAll_Some)

lemma restart_fields:
  assumes "restart d i st = Some st'"
  shows "su_runners st' = su_runners st \<and> su_events st' = su_events st \<and> su_capacity st' = su_capacity st \<and>
    \<not> gate_paused (su_gate st') \<and> gauge ''paused'' [] (su_metrics st') = Some 0 \<and>
    (gate_ok (su_gate st) \<longrightarrow> gate_ok (su_gate st'))"
proof -
  have o: "only_outside (pauseAll st) (restart_body d i (pauseAll st))" by (simp add: outside_intros)
  from resumeAll_fields [OF assms [unfolded restart_def]] outside_fields [OF o]
  show ?thesis by (auto dest: gate_resume_open gate_ok_resume [rotated] intro: gate_ok_pause)
qed

section \<open>Outcomes of restarts\<close>

text \<open>The results recorded for a container, in order.\<close>

fun restart_outcome :: "string \<Rightarrow> metric_call \<Rightarrow> string list" where
  "restart_outcome c (Inc v [c', r]) = (if v = ''container_restarts_total'' \<and> c' = c then [r] else [])"
| "restart_outcome c _ = []"

definition restart_outcomes :: "string \<Rightarrow> metrics \<Rightarrow> string list" where
  "restart_outcomes c m = concat (map (restart_outcome c) m)"

lemma restart_outcomes_simps [simp]:
  "restart_outcomes c (m @ m') = restart_outcomes c m @ restart_outcomes c m'"
  "restart_outcomes c (observe_restart c' r m) = restart_outcomes c m @ (if c' = c then [r] else [])"
  "restart_outcomes c (observe_event e a m) = restart_outcomes c m"
  "restart_outcomes c (observe_notification n m) = restart_outcomes c m"
  "restart_outcomes c (set_paused b m) = restart_outcomes c m"
  by (simp_all add: restart_outcomes_def metrics_defs)

lemma outcomes_raise_alert [simp]:
  "restart_outcomes c (su_metrics (raise_alert d a st)) = restart_outcomes c (su_metrics st)"
  by (simp add: raise_alert_def split: option.splits prod.splits)

lemma outcomes_steps [simp]:
  "restart_outcomes c (su_metrics (alert_about d i m t st)) = restart_outcomes c (su_metrics st)"
  "su_metrics (logToRedis d m st) = su_metrics st"
  "su_metrics (sleep_on d n st) = su_metrics st"
  by (simp_all add: alert_about_def logToRedis_def sleep_on_def Let_def split: prod.splits)

lemma outcomes_handle_ban [simp]:
  "restart_outcomes c (su_metrics (handle_ban d e h st)) = restart_outcomes c (su_metrics st)"
  by (simp add: handle_ban_def ban_details_def split: option.splits prod.splits sum.splits)

lemma outcomes_handleBans [simp]:
  "restart_outcomes c (su_metrics (handleBans d i st)) = restart_outcomes c (su_metrics st)"
proof -
  have "restart_outcomes c (su_metrics (fold (handle_ban d e) hs st)) = restart_outcomes c (su_metrics st)" for e hs st
    by (induction hs arbitrary: st) simp_all
  then show ?thesis by (simp add: handleBans_def Let_def)
qed

text \<open>What must become of one container that was found, and of all of them in turn: it is skipped when
  it is known to run for less than six minutes, or is php-fpm and is read to be migrating; otherwise
  the API's answer to the restart decides.\<close>

definition container_outcome :: "'w deps \<Rightarrow> 'w docker_api \<Rightarrow> string \<Rightarrow> container \<Rightarrow> 'w \<Rightarrow> string" where
  "container_outcome d docker event target w =
     (let young = (case fst (started (de_parse_time d) target) of
            None \<Rightarrow> False | Some at \<Rightarrow> time_sub (de_now d w) (tm_ns at) < MinUptime);
          asked = da_Running docker (cn_ID target) InitDBProcess w
      in if young \<or> event = PHPFPMService \<and> fst asked = Inr True then ''skipped''
         else case fst (da_Restart docker (cn_ID target) (if event = PHPFPMService then snd asked else w)) of
           None \<Rightarrow> ''restarted'' | Some err \<Rightarrow> ''failed'')"

fun container_outcomes :: "'w deps \<Rightarrow> 'w docker_api \<Rightarrow> nat \<Rightarrow> container list \<Rightarrow> 'w sup \<Rightarrow> string list" where
  "container_outcomes d docker i [] st = []"
| "container_outcomes d docker i (t # ts) st =
     container_outcome d docker (ck_Event (runner_check i st)) t (su_world st)
     # container_outcomes d docker i ts (restartOne d docker i t st)"

lemma migrating_eq:
  "migrating docker c target w =
     (c = PHPFPMService \<and> fst (da_Running docker (cn_ID target) InitDBProcess w) = Inr True,
      if c = PHPFPMService then snd (da_Running docker (cn_ID target) InitDBProcess w) else w)"
  by (auto simp: migrating_def split: prod.splits sum.splits)

lemma outcomes_restartOne:
  "restart_outcomes c (su_metrics (restartOne d docker i target st)) = restart_outcomes c (su_metrics st) @
     (if ck_Event (runner_check i st) = c
      then [container_outcome d docker (ck_Event (runner_check i st)) target (su_world st)] else [])"
proof -
  let ?e = "ck_Event (runner_check i st)"
  let ?w = "if ?e = PHPFPMService then snd (da_Running docker (cn_ID target) InitDBProcess (su_world st)) else su_world st"
  obtain x w' where x: "da_Restart docker (cn_ID target) ?w = (x, w')" by fastforce
  have young: "too_young d target (su_world st) \<longleftrightarrow> (case fst (started (de_parse_time d) target) of
      None \<Rightarrow> False | Some at \<Rightarrow> time_sub (de_now d (su_world st)) (tm_ns at) < MinUptime)"
    by (simp add: too_young_def)
  show ?thesis
    unfolding restartOne_def container_outcome_def Let_def migrating_eq young [symmetric]
    using x by (cases "?e = PHPFPMService"; cases x) (auto split: bool.splits)
qed

lemma restartOne_check [simp]: "runner_check i (restartOne d docker i t st) = runner_check i st"
  using outside_fields [OF outside_restartOne [OF outside_refl]] by blast

lemma outcomes_fold:
  "restart_outcomes c (su_metrics (fold (restartOne d docker i) ts st)) = restart_outcomes c (su_metrics st) @
     (if ck_Event (runner_check i st) = c then container_outcomes d docker i ts st else [])"
  by (induction ts arbitrary: st) (simp_all add: outcomes_restartOne)

section \<open>The Docker interface\<close>

text \<open>The collaborators and checks that send the daemon nothing themselves.\<close>

definition quiet_deps :: "('w \<Rightarrow> 'c list) \<Rightarrow> 'w deps \<Rightarrow> bool" where
  "quiet_deps commands d \<longleftrightarrow>
     (\<forall>n w. commands (snd (de_sleep d n w)) = commands w) \<and>
     (\<forall>m w. commands (snd (ls_LogMessage (de_store d) m w)) = commands w) \<and>
     (\<forall>a w. case de_dispatcher d of None \<Rightarrow> True | Some p \<Rightarrow> commands (snd (dispatch p a w)) = commands w) \<and>
     (\<forall>h w. case de_whois d of None \<Rightarrow> True | Some f \<Rightarrow> commands (snd (f h w)) = commands w)"

definition quiet_check :: "('w \<Rightarrow> 'c list) \<Rightarrow> 'w live_check \<Rightarrow> bool" where
  "quiet_check commands c \<longleftrightarrow> (\<forall>w. commands (snd (check_details c w)) = commands w)"

lemma alert_about_quiet:
  assumes "quiet_deps commands d" "quiet_check commands (runner_check i st)"
  shows "commands (su_world (alert_about d i m t st)) = commands (su_world st)"
proof -
  obtain x w where c: "check_details (runner_check i st) (su_world st) = (x, w)"
    by (cases "check_details (runner_check i st) (su_world st)")
  then have w: "commands w = commands (su_world st)"
    using assms(2) unfolding quiet_check_def by (metis snd_conv)
  show ?thesis
  proof (cases "de_dispatcher d")
    case None
    with c w show ?thesis by (simp add: alert_about_def raise_alert_def Let_def)
  next
    case (Some p)
    then have "commands (snd (dispatch p a u)) = commands u" for a u
      using assms(1) by (simp add: quiet_deps_def)
    then have "dispatch p a w = (e, v) \<Longrightarrow> commands v = commands w" for a e v by (metis snd_conv)
    with c w Some show ?thesis
      by (auto simp: alert_about_def raise_alert_def Let_def split: prod.splits option.splits)
  qed
qed

lemma quiet_steps:
  assumes "quiet_deps commands d"
  shows "commands (snd (de_sleep d n w)) = commands w" "commands (snd (ls_LogMessage (de_store d) m w)) = commands w"
    "commands (su_world (raise_alert d a st)) = commands (su_world st)"
    "commands (su_world (snd (ban_details d h st))) = commands (su_world st)"
proof -
  have disp: "commands (snd (dispatch p a w)) = commands w" if "de_dispatcher d = Some p" for p a w
    using assms that by (simp add: quiet_deps_def)
  have who: "commands (snd (f h w)) = commands w" if "de_whois d = Some f" for f h w
    using assms that by (simp add: quiet_deps_def)
  show "commands (snd (de_sleep d n w)) = commands w" "commands (snd (ls_LogMessage (de_store d) m w)) = commands w"
    using assms by (simp_all add: quiet_deps_def)
  show "commands (su_world (raise_alert d a st)) = commands (su_world st)"
  proof (cases "de_dispatcher d")
    case (Some p)
    obtain x w where "dispatch p a (su_world st) = (x, w)" by fastforce
    with disp [OF Some, of a "su_world st"] Some show ?thesis by (cases x) (simp_all add: raise_alert_def)
  qed (simp add: raise_alert_def)
  show "commands (su_world (snd (ban_details d h st))) = commands (su_world st)"
  proof (cases "de_whois d")
    case (Some f)
    obtain x w where "f h (su_world st) = (x, w)" by fastforce
    with who [OF Some, of h "su_world st"] Some show ?thesis by (cases x) (simp_all add: ban_details_def)
  qed (simp add: ban_details_def)
qed

lemma handleBans_quiet:
  assumes "quiet_deps commands d"
  shows "commands (su_world (handleBans d i st)) = commands (su_world st)"
proof -
  have "commands (su_world (handle_ban d e h st)) = commands (su_world st)" for e h st
    using quiet_steps(3,4) [OF assms] by (simp add: handle_ban_def split: prod.splits) (metis snd_conv)
  then have "commands (su_world (fold (handle_ban d e) hs st)) = commands (su_world st)" for e hs st
    by (induction hs arbitrary: st) simp_all
  then show ?thesis by (simp add: handleBans_def Let_def)
qed

text \<open>An event that names no container to restart sends the daemon nothing.\<close>

lemma handle_quiet:
  assumes "quiet_deps commands d" "quiet_check commands (runner_check (ev_Check e) st)"
    and "\<not> restarts_container (runner_check (ev_Check e) st)" "handle d e st = Some st'"
  shows "commands (su_world st') = commands (su_world st)"
  using assms(3,4) alert_about_quiet [OF assms(1,2)] handleBans_quiet [OF assms(1)]
  by (auto simp: handle_def Let_def split: if_splits)

text \<open>What the supervisor relies on: Find returns containers of the service asked for, Restart sends
  one restart command for the container it is given, and nothing else sends any. \<open>commands w\<close> are
  the commands the daemon has received, \<open>runs w p s\<close> says that command \<open>p\<close> restarts a container that the daemon, asked in state \<open>w\<close>, lists
  for service \<open>s\<close>.\<close>

locale docker_contract =
  fixes docker :: "'w docker_api"
    and commands :: "'w \<Rightarrow> 'c list"
    and command :: "string \<Rightarrow> 'c"
    and runs :: "'w \<Rightarrow> 'c \<Rightarrow> string \<Rightarrow> bool"
  assumes find_exact: "da_Find docker s w = (Inr cs, w') \<Longrightarrow> ct \<in> set cs \<Longrightarrow> runs w (command (cn_ID ct)) s"
    and find_quiet: "commands (snd (da_Find docker s w)) = commands w"
    and running_quiet: "commands (snd (da_Running docker i p w)) = commands w"
    and restart_once: "commands (snd (da_Restart docker i w)) = commands w @ [command i]"
begin

lemma migrating_quiet: "commands (snd (migrating docker container target w)) = commands w"
  using running_quiet [of "cn_ID target" InitDBProcess w]
  by (auto simp: migrating_def split: prod.splits sum.splits)

lemma restartOne_sends:
  assumes "quiet_deps commands d" "quiet_check commands (runner_check i st)"
  shows "commands (su_world (restartOne d docker i target st)) = commands (su_world st) @
    (if too_young d target (su_world st) \<or>
        fst (migrating docker (ck_Event (runner_check i st)) target (su_world st)) then []
     else [command (cn_ID target)])"
proof -
  have sleep: "commands (snd (de_sleep d n u)) = commands u" and log: "commands (snd (ls_LogMessage (de_store d) m u)) = commands u"
    for n m u using assms(1) by (simp_all add: quiet_deps_def)
  obtain b w where m: "migrating docker (ck_Event (runner_check i st)) target (su_world st) = (b, w)"
    by (cases "migrating docker (ck_Event (runner_check i st)) target (su_world st)")
  then have w: "commands w = commands (su_world st)" using migrating_quiet by (metis snd_conv)
  obtain e w' where r: "da_Restart docker (cn_ID target) w = (e, w')" by (cases "da_Restart docker (cn_ID target) w")
  then have w': "commands w' = commands w @ [command (cn_ID target)]" using restart_once by (metis snd_conv)
  have q: "quiet_check commands (runner_check i (logToRedis d x (upd_metrics g (upd_metrics f (set_world w' st)))))" for x f g
    using assms(2) by (simp add: logToRedis_def)
  show ?thesis
    using m w r w' alert_about_quiet [OF assms(1) q]
    by (cases e) (auto simp: restartOne_def Let_def sleep_on_def sleep log logToRedis_def split: bool.splits)
qed

lemma restart_fold_sends:
  assumes "quiet_deps commands d"
  shows "quiet_check commands (runner_check i st) \<Longrightarrow>
    \<exists>cs. commands (su_world (fold (restartOne d docker i) ts st)) = commands (su_world st) @ cs \<and>
      subseq cs (map (\<lambda>t. command (cn_ID t)) ts)"
proof (induction ts arbitrary: st)
  case Nil
  then show ?case by simp
next
  case (Cons t ts)
  let ?st = "restartOne d docker i t st"
  have "runner_check i ?st = runner_check i st"
    using outside_fields [OF outside_restartOne [OF outside_refl]] by blast
  with Cons obtain cs where "commands (su_world (fold (restartOne d docker i) ts ?st)) = commands (su_world ?st) @ cs"
    "subseq cs (map (\<lambda>t. command (cn_ID t)) ts)" by metis
  moreover define own where "own = (if too_young d t (su_world st) \<or>
      fst (migrating docker (ck_Event (runner_check i st)) t (su_world st)) then [] else [command (cn_ID t)])"
  moreover have "commands (su_world ?st) = commands (su_world st) @ own"
    using restartOne_sends [OF assms Cons.prems, of t] by (simp only: own_def)
  moreover have "subseq own [command (cn_ID t)]" by (simp add: own_def)
  ultimately show ?case
    using list_emb_append_mono [of "(=)" own "[command (cn_ID t)]" cs] by (intro exI [of _ "own @ cs"]) simp
qed

lemma restart_sends:
  assumes "quiet_deps commands d" "quiet_check commands (runner_check i st)" "de_docker d = Some docker"
  shows "\<exists>cs. commands (su_world (restart_body d i st)) = commands (su_world st) @ cs \<and>
    (\<forall>c \<in> set cs. runs (snd (de_sleep d PauseBeforeRestart (su_world st))) c (ck_Event (runner_check i st)))"
proof -
  let ?s = "ck_Event (runner_check i st)"
  obtain e w where p: "de_sleep d PauseBeforeRestart (su_world st) = (e, w)"
    by (cases "de_sleep d PauseBeforeRestart (su_world st)")
  then have w: "commands w = commands (su_world st)"
    using assms(1) unfolding quiet_deps_def by (metis snd_conv)
  obtain r w' where f: "da_Find docker ?s w = (r, w')" by (cases "da_Find docker ?s w")
  then have w': "commands w' = commands w" using find_quiet by (metis snd_conv)
  show ?thesis
  proof (cases "e = None \<and> (\<exists>t ts. r = Inr (t # ts))")
    case True
    then obtain t ts where r: "r = Inr (t # ts)" "e = None" by blast
    have q: "quiet_check commands (runner_check i (set_world w' st))" using assms(2) by simp
    from restart_fold_sends [OF assms(1) q, of "t # ts"] obtain cs where
      cs: "commands (su_world (fold (restartOne d docker i) (t # ts) (set_world w' st))) = commands w' @ cs"
      "subseq cs (map (\<lambda>t. command (cn_ID t)) (t # ts))"
      by (metis set_world_fields(5))
    have "restart_body d i st = fold (restartOne d docker i) (t # ts) (set_world w' st)"
      using p f r assms(3) by (simp add: restart_body_def Let_def del: fold_simps)
    moreover have "runs w c ?s" if "c \<in> set cs" for c
    proof -
      from cs(2) that obtain y where "y \<in> set (map (\<lambda>t. command (cn_ID t)) (t # ts))" "c = y"
        by (rule list_emb_set)
      then obtain ct where "ct \<in> set (t # ts)" "c = command (cn_ID ct)" unfolding set_map by blast
      then show ?thesis using find_exact f r(1) by blast
    qed
    ultimately show ?thesis using cs(1) w w' p by (metis snd_conv)
  next
    case False
    then have "commands (su_world (restart_body d i st)) = commands (su_world st)"
      using p f w w' assms(3)
      by (cases e; cases r) (auto simp: restart_body_def Let_def split: list.splits)
    then show ?thesis by auto
  qed
qed

end

end
