(* ===== verification/Redis_Probes.thy ===== *)
theory Redis_Probes
  imports Probe Storetest "HOL-Library.List_Lexorder" "HOL-Library.Char_ord"
begin

text \<open>
  internal/probe/redis.go: the liveness probe and the four probes that watch mailcow's own state
  keys. A \<open>reader\<close> is the part of the store they use. The probes that compare a value with the one
  they saw last keep it in a record that Run returns updated; each holds its mutex from the point
  after the read to the end of Run, so a Run is one step on that record.
\<close>

record 'w reader =
  rd_Get :: "string \<Rightarrow> 'w \<Rightarrow> (string \<times> bool) res \<times> 'w"
  rd_HKeys :: "string \<Rightarrow> 'w \<Rightarrow> string list res \<times> 'w"
  rd_LRange :: "string \<Rightarrow> int \<Rightarrow> int \<Rightarrow> 'w \<Rightarrow> string list res \<times> 'w"

definition redis_reader :: "'s redis_client \<Rightarrow> 's reader" where
  "redis_reader r = \<lparr>rd_Get = redis_get r, rd_HKeys = redis_hkeys r, rd_LRange = redis_lrange r\<rparr>"

section \<open>RedisPing\<close>

definition redis_ping_run :: "('w \<Rightarrow> error option \<times> 'w) \<Rightarrow> string \<Rightarrow> 'w \<Rightarrow> result \<times> 'w" where
  "redis_ping_run ping name w =
     (case ping w of
        (Some err, w') \<Rightarrow> (Critical (name @ '': Redis did not answer PING: '' @ err), w')
      | (None, w') \<Rightarrow> (OK (name @ '': Redis answered PONG''), w'))"

section \<open>RedisFlag\<close>

record redis_flag =
  rf_name :: string
  rf_key :: string
  rf_want :: string

definition new_redis_flag :: "string \<Rightarrow> string \<Rightarrow> string \<Rightarrow> redis_flag" where
  "new_redis_flag name key want = \<lparr>rf_name = name, rf_key = key, rf_want = want\<rparr>"

definition redis_flag_run :: "'w reader \<Rightarrow> redis_flag \<Rightarrow> 'w \<Rightarrow> result \<times> 'w" where
  "redis_flag_run client p w =
     (case rd_Get client (rf_key p) w of
        (Inl err, w') \<Rightarrow> (Unknown (rf_name p @ '': cannot read '' @ rf_key p @ '': '' @ err), w')
      | (Inr (got, present), w') \<Rightarrow>
          (if got \<noteq> rf_want p
           then (Critical (rf_name p @ '': '' @ rf_key p @ '' is '' @ quote got @ '', want '' @ quote (rf_want p)), w')
           else (OK (rf_name p @ '': '' @ rf_key p @ '' is '' @ quote got), w')))"

section \<open>RedisChange\<close>

record redis_change =
  rc_name :: string
  rc_key :: string
  rc_seeded :: bool
  rc_last :: string

definition redis_change_new :: "string \<Rightarrow> string \<Rightarrow> redis_change" where
  "redis_change_new name key = \<lparr>rc_name = name, rc_key = key, rc_seeded = False, rc_last = []\<rparr>"

definition redis_change_run ::
  "'w reader \<Rightarrow> redis_change \<Rightarrow> 'w \<Rightarrow> result \<times> redis_change \<times> 'w" where
  "redis_change_run client p w =
     (case rd_Get client (rc_key p) w of
        (Inl err, w') \<Rightarrow> (Unknown (rc_name p @ '': cannot read '' @ rc_key p @ '': '' @ err), p, w')
      | (Inr (current, present), w') \<Rightarrow>
          (if \<not> rc_seeded p
           then (OK (rc_name p @ '': watching '' @ rc_key p @ '', now at '' @ quote current),
                 p\<lparr>rc_seeded := True, rc_last := current\<rparr>, w')
           else let previous = rc_last p; p' = p\<lparr>rc_last := current\<rparr> in
             if previous \<noteq> current
             then (Critical (rc_name p @ '': '' @ rc_key p @ '' changed from '' @ quote previous
                     @ '' to '' @ quote current), p', w')
             else (OK (rc_name p @ '': '' @ rc_key p @ '' unchanged at '' @ quote current), p', w')))"

section \<open>Ratelimit\<close>

text \<open>encoding/json's reading of a record and its indentation are parameters: \<open>qid record\<close> is the
  decoded \<open>qid\<close> field (empty when absent) or \<open>None\<close> for text that is not such a JSON object, and
  \<open>indent raw\<close> is the indented text or \<open>None\<close> for text that is not JSON.\<close>

record ratelimit =
  rl_name :: string
  rl_seeded :: bool
  rl_lastID :: string

definition ratelimit_new :: "string \<Rightarrow> ratelimit" where
  "ratelimit_new name = \<lparr>rl_name = name, rl_seeded = False, rl_lastID = []\<rparr>"

definition queue_id :: "(string \<Rightarrow> string option) \<Rightarrow> string \<Rightarrow> string" where
  "queue_id qid record = (case qid record of None \<Rightarrow> trim_space record | Some q \<Rightarrow> q)"

definition ratelimit_run ::
  "(string \<Rightarrow> string option) \<Rightarrow> 'w reader \<Rightarrow> ratelimit \<Rightarrow> 'w \<Rightarrow> result \<times> ratelimit \<times> 'w" where
  "ratelimit_run qid client p w =
     (case rd_LRange client ''RL_LOG'' 0 0 w of
        (Inl err, w') \<Rightarrow> (Unknown (rl_name p @ '': cannot read RL_LOG: '' @ err), p, w')
      | (Inr head, w') \<Rightarrow>
          (case head of
             [] \<Rightarrow> (OK (rl_name p @ '': no rate limits recorded''), p\<lparr>rl_seeded := True, rl_lastID := []\<rparr>, w')
           | entry # _ \<Rightarrow>
               (let current = queue_id qid entry in
                if \<not> rl_seeded p
                then (OK (rl_name p @ '': watching RL_LOG''), p\<lparr>rl_seeded := True, rl_lastID := current\<rparr>, w')
                else let previous = rl_lastID p; p' = p\<lparr>rl_lastID := current\<rparr> in
                  if previous = current
                  then (OK (rl_name p @ '': no new rate limits applied''), p', w')
                  else (Critical (rl_name p @ '': a new rate limit was applied (queue id '' @ current @ '')''), p', w'))))"

definition indent_json :: "(string \<Rightarrow> string option) \<Rightarrow> string \<Rightarrow> string" where
  "indent_json indent raw = (case indent raw of None \<Rightarrow> raw | Some out \<Rightarrow> out)"

definition ratelimit_intro :: string where
  "ratelimit_intro =
     ''Last 10 applied ratelimits (may overlap with previous reports).'' @ [CHR 0x0A]
     @ ''Full ratelimit buckets can be emptied by deleting the ratelimit hash ''
     @ ''from within the mailcow UI (see /debug -> Protocols -> Ratelimit):'' @ [CHR 0x0A, CHR 0x0A]"

definition ratelimit_details ::
  "(string \<Rightarrow> string option) \<Rightarrow> 'w reader \<Rightarrow> 'w \<Rightarrow> string \<times> 'w" where
  "ratelimit_details indent client w =
     (case rd_LRange client ''RL_LOG'' 0 10 w of
        (Inl err, w') \<Rightarrow> (''Could not read RL_LOG: '' @ err, w')
      | (Inr entries, w') \<Rightarrow>
          (ratelimit_intro @ concat (map (\<lambda>entry. indent_json indent entry @ [CHR 0x0A]) entries), w'))"

section \<open>Fail2ban\<close>

record fail2ban =
  fb_name :: string
  fb_seeded :: bool
  fb_known :: "string set"
  fb_fresh :: "string list"

definition fail2ban_new :: "string \<Rightarrow> fail2ban" where
  "fail2ban_new name = \<lparr>fb_name = name, fb_seeded = False, fb_known = {}, fb_fresh = []\<rparr>"

definition fail2ban_run :: "'w reader \<Rightarrow> fail2ban \<Rightarrow> 'w \<Rightarrow> result \<times> fail2ban \<times> 'w" where
  "fail2ban_run client p w =
     (case rd_HKeys client ''F2B_ACTIVE_BANS'' w of
        (Inl err, w') \<Rightarrow> (Unknown (fb_name p @ '': cannot read F2B_ACTIVE_BANS: '' @ err), p, w')
      | (Inr bans, w') \<Rightarrow>
          (let current = set bans;
               added = sort (filter (\<lambda>ban. ban \<notin> fb_known p \<and> fb_seeded p) bans);
               p' = p\<lparr>fb_known := current, fb_fresh := added\<rparr>
           in if \<not> fb_seeded p
              then (OK (fb_name p @ '': watching '' @ itoa (int (length bans)) @ '' active bans''),
                    p'\<lparr>fb_seeded := True\<rparr>, w')
              else if added = [] then (OK (fb_name p @ '': no new bans''), p', w')
              else (Critical (fb_name p @ '': '' @ itoa (int (length added)) @ '' new ban(s): ''
                      @ join '' '' added), p', w')))"

definition fail2ban_Fresh :: "fail2ban \<Rightarrow> string list" where
  "fail2ban_Fresh p = fb_fresh p"

section \<open>The contract\<close>

lemma graded_redis_probes [simp]:
  "graded (fst (redis_ping_run ping name w))"
  "graded (fst (redis_flag_run client pf w))"
  "graded (fst (redis_change_run client pc w))"
  "graded (fst (ratelimit_run qid client pr w))"
  "graded (fst (fail2ban_run client pb w))"
  by (simp_all add: redis_ping_run_def redis_flag_run_def redis_change_run_def ratelimit_run_def
      fail2ban_run_def Let_def split: prod.splits option.splits sum.splits list.splits)

interpretation rping: probe_contract "\<lambda>(ping, name, w). fst (redis_ping_run ping name w)"
  by unfold_locales (simp split: prod.splits)

interpretation rflag: probe_contract "\<lambda>(client, p, w). fst (redis_flag_run client p w)"
  by unfold_locales (simp split: prod.splits)

interpretation rchange: probe_contract "\<lambda>(client, p, w). fst (redis_change_run client p w)"
  by unfold_locales (simp split: prod.splits)

interpretation rlimit: probe_contract "\<lambda>(qid, client, p, w). fst (ratelimit_run qid client p w)"
  by unfold_locales (simp split: prod.splits)

interpretation f2b: probe_contract "\<lambda>(client, p, w). fst (fail2ban_run client p w)"
  by unfold_locales (simp split: prod.splits)

section \<open>Histories of rounds\<close>

text \<open>A history is the list of worlds the rounds of one probe found, oldest first. The last value read
  without an error is what the next round is compared with.\<close>

definition redis_change_after :: "'w reader \<Rightarrow> string \<Rightarrow> string \<Rightarrow> 'w list \<Rightarrow> redis_change" where
  "redis_change_after client name key ws =
     foldl (\<lambda>p w. fst (snd (redis_change_run client p w))) (redis_change_new name key) ws"

definition ratelimit_after ::
  "(string \<Rightarrow> string option) \<Rightarrow> 'w reader \<Rightarrow> string \<Rightarrow> 'w list \<Rightarrow> ratelimit" where
  "ratelimit_after qid client name ws =
     foldl (\<lambda>p w. fst (snd (ratelimit_run qid client p w))) (ratelimit_new name) ws"

definition fail2ban_after :: "'w reader \<Rightarrow> string \<Rightarrow> 'w list \<Rightarrow> fail2ban" where
  "fail2ban_after client name ws =
     foldl (\<lambda>p w. fst (snd (fail2ban_run client p w))) (fail2ban_new name) ws"

definition good_reads :: "'a res list \<Rightarrow> 'a list" where
  "good_reads rs = concat (map (\<lambda>r. case r of Inl _ \<Rightarrow> [] | Inr x \<Rightarrow> [x]) rs)"

definition latest :: "'a list \<Rightarrow> 'a option" where
  "latest xs = (if xs = [] then None else Some (last xs))"

lemma good_reads_simps [simp]:
  "good_reads [] = []"
  "good_reads (rs @ [Inl e]) = good_reads rs"
  "good_reads (rs @ [Inr x]) = good_reads rs @ [x]"
  by (simp_all add: good_reads_def)

lemma latest_simps [simp]:
  "latest [] = None"
  "latest (xs @ [x]) = Some x"
  by (simp_all add: latest_def)

lemma latest_eq_None [simp]: "(latest xs = None) = (xs = [])"
  by (simp add: latest_def)

text \<open>The values each probe bases its verdict on, read from the worlds of a history.\<close>

definition key_values :: "'w reader \<Rightarrow> string \<Rightarrow> 'w list \<Rightarrow> string list" where
  "key_values client key ws = map fst (good_reads (map (\<lambda>w. fst (rd_Get client key w)) ws))"

definition head_ids :: "(string \<Rightarrow> string option) \<Rightarrow> 'w reader \<Rightarrow> 'w list \<Rightarrow> string list" where
  "head_ids qid client ws =
     map (\<lambda>head. case head of [] \<Rightarrow> [] | e # _ \<Rightarrow> queue_id qid e)
       (good_reads (map (\<lambda>w. fst (rd_LRange client ''RL_LOG'' 0 0 w)) ws))"

definition ban_sets :: "'w reader \<Rightarrow> 'w list \<Rightarrow> string set list" where
  "ban_sets client ws = map set (good_reads (map (\<lambda>w. fst (rd_HKeys client ''F2B_ACTIVE_BANS'' w)) ws))"

lemma redis_change_after_state:
  "rc_name (redis_change_after client name key ws) = name \<and>
   rc_key (redis_change_after client name key ws) = key \<and>
   rc_seeded (redis_change_after client name key ws) = (key_values client key ws \<noteq> []) \<and>
   (key_values client key ws \<noteq> [] \<longrightarrow>
      rc_last (redis_change_after client name key ws) = last (key_values client key ws))"
proof (induction ws rule: rev_induct)
  case Nil
  show ?case by (simp add: redis_change_after_def redis_change_new_def key_values_def)
next
  case (snoc w ws)
  then show ?case
    by (cases "rd_Get client key w"; cases "fst (rd_Get client key w)")
      (auto simp: redis_change_after_def redis_change_run_def key_values_def Let_def)
qed

lemma ratelimit_after_state:
  "rl_name (ratelimit_after qid client name ws) = name \<and>
   rl_seeded (ratelimit_after qid client name ws) = (head_ids qid client ws \<noteq> []) \<and>
   (head_ids qid client ws \<noteq> [] \<longrightarrow>
      rl_lastID (ratelimit_after qid client name ws) = last (head_ids qid client ws))"
proof (induction ws rule: rev_induct)
  case Nil
  show ?case by (simp add: ratelimit_after_def ratelimit_new_def head_ids_def)
next
  case (snoc w ws)
  then show ?case
    by (cases "rd_LRange client ''RL_LOG'' 0 0 w"; cases "fst (rd_LRange client ''RL_LOG'' 0 0 w)")
      (auto simp: ratelimit_after_def ratelimit_run_def head_ids_def Let_def split: list.splits)
qed

lemma fail2ban_after_state:
  "fb_name (fail2ban_after client name ws) = name \<and>
   fb_seeded (fail2ban_after client name ws) = (ban_sets client ws \<noteq> []) \<and>
   (ban_sets client ws \<noteq> [] \<longrightarrow>
      fb_known (fail2ban_after client name ws) = last (ban_sets client ws))"
proof (induction ws rule: rev_induct)
  case Nil
  show ?case by (simp add: fail2ban_after_def fail2ban_new_def ban_sets_def)
next
  case (snoc w ws)
  then show ?case
    by (cases "rd_HKeys client ''F2B_ACTIVE_BANS'' w"; cases "fst (rd_HKeys client ''F2B_ACTIVE_BANS'' w)")
      (auto simp: fail2ban_after_def fail2ban_run_def ban_sets_def Let_def)
qed

text \<open>RedisChange.Run alerts exactly when the key's value differs from the one the last readable
  round saw: whatever happened in the earlier rounds, a round that cannot read the key is Unknown, the
  first readable round is OK whatever it reads, and any other is Critical if and only if the value
  changed. Rounds that failed to read are skipped, so a change that happens during an outage is
  reported by the first round after it.\<close>

theorem redis_change_verdict:
  "rs_Status (fst (redis_change_run client (redis_change_after client name key ws) w)) =
     (case fst (rd_Get client key w) of
        Inl _ \<Rightarrow> StatusUnknown
      | Inr (current, _) \<Rightarrow>
          (case latest (key_values client key ws) of
             None \<Rightarrow> StatusOK
           | Some previous \<Rightarrow> if previous = current then StatusOK else StatusCritical))"
  using redis_change_after_state [of client name key ws]
  by (cases "rd_Get client key w"; cases "fst (rd_Get client key w)")
    (auto simp: redis_change_run_def latest_def Let_def OK_def Critical_def Unknown_def result_of_def)

text \<open>Ratelimit.Run alerts exactly when the newest record's queue id is not the one the last
  readable round saw: an unreadable list is Unknown, an empty one is OK (and forgets the id, so the
  first record pushed after it is reported), the first readable round is OK, and any other is Critical
  if and only if the id changed.\<close>

theorem ratelimit_verdict:
  "rs_Status (fst (ratelimit_run qid client (ratelimit_after qid client name ws) w)) =
     (case fst (rd_LRange client ''RL_LOG'' 0 0 w) of
        Inl _ \<Rightarrow> StatusUnknown
      | Inr [] \<Rightarrow> StatusOK
      | Inr (entry # _) \<Rightarrow>
          (case latest (head_ids qid client ws) of
             None \<Rightarrow> StatusOK
           | Some previous \<Rightarrow> if previous = queue_id qid entry then StatusOK else StatusCritical))"
  using ratelimit_after_state [of qid client name ws]
  by (cases "rd_LRange client ''RL_LOG'' 0 0 w"; cases "fst (rd_LRange client ''RL_LOG'' 0 0 w)")
    (auto simp: ratelimit_run_def latest_def Let_def OK_def Critical_def Unknown_def result_of_def
      split: list.splits)

text \<open>After a round that could read the active bans, Fail2ban.Fresh is the sorted list of the bans
  that the last readable round before it did not see (none for the first one). A ban that expired in
  between and came back is new again; one present in both rounds is never reported twice.\<close>

theorem fail2ban_fresh_is_difference:
  assumes "fst (rd_HKeys client ''F2B_ACTIVE_BANS'' w) = Inr bans"
  shows "fail2ban_Fresh (fail2ban_after client name (ws @ [w])) =
           (case latest (ban_sets client ws) of
              None \<Rightarrow> []
            | Some seen \<Rightarrow> sort (filter (\<lambda>ban. ban \<notin> seen) bans))"
  using assms fail2ban_after_state [of client name ws]
  by (cases "rd_HKeys client ''F2B_ACTIVE_BANS'' w")
    (auto simp: fail2ban_after_def fail2ban_run_def fail2ban_Fresh_def latest_def Let_def)

text \<open>A round that cannot read the active bans leaves Fresh as the round before it set it, although
  its own verdict is Unknown: the bans of the last readable round stay on offer to the supervisor.\<close>

theorem fail2ban_unreadable_keeps_fresh:
  assumes "fst (rd_HKeys client ''F2B_ACTIVE_BANS'' w) = Inl e"
  shows "fail2ban_Fresh (fail2ban_after client name (ws @ [w])) = fail2ban_Fresh (fail2ban_after client name ws)"
  using assms
  by (cases "rd_HKeys client ''F2B_ACTIVE_BANS'' w")
    (auto simp: fail2ban_after_def fail2ban_run_def fail2ban_Fresh_def)

text \<open>C40. A new ban is on offer for one round only: what Fresh holds after a round that could read the
  bans has nothing in common with what it holds after the next such round. An event that is handled
  later than that finds the bans it was raised for gone.\<close>

theorem fail2ban_fresh_lasts_one_round:
  assumes "fst (rd_HKeys client ''F2B_ACTIVE_BANS'' w) = Inr bans"
    and "fst (rd_HKeys client ''F2B_ACTIVE_BANS'' w') = Inr bans'"
  shows "set (fail2ban_Fresh (fail2ban_after client name (ws @ [w]))) \<inter>
         set (fail2ban_Fresh (fail2ban_after client name (ws @ [w, w']))) = {}"
proof -
  have "set (fail2ban_Fresh (fail2ban_after client name (ws @ [w]))) \<subseteq> set bans"
    using assms(1) by (cases "rd_HKeys client ''F2B_ACTIVE_BANS'' w")
      (auto simp: fail2ban_after_def fail2ban_run_def fail2ban_Fresh_def Let_def)
  moreover have "fb_known (fail2ban_after client name (ws @ [w])) = set bans"
    using assms(1) by (cases "rd_HKeys client ''F2B_ACTIVE_BANS'' w")
      (auto simp: fail2ban_after_def fail2ban_run_def Let_def)
  moreover have "fail2ban_after client name (ws @ [w, w'])
      = fst (snd (fail2ban_run client (fail2ban_after client name (ws @ [w])) w'))"
    by (simp add: fail2ban_after_def)
  ultimately show ?thesis
    using assms(2) by (cases "rd_HKeys client ''F2B_ACTIVE_BANS'' w'")
      (auto simp: fail2ban_run_def fail2ban_Fresh_def Let_def)
qed

section \<open>Concrete instances\<close>

definition scripted_hkeys :: "string list res reader" where
  "scripted_hkeys = \<lparr>rd_Get = \<lambda>k w. (Inr ([], False), w), rd_HKeys = \<lambda>k w. (w, w),
     rd_LRange = \<lambda>k i j w. (Inr [], w)\<rparr>"

lemma fail2ban_fresh_is_difference_witness:
  "fail2ban_Fresh (fail2ban_after scripted_hkeys ''Fail2ban''
      ([Inr [''10.0.0.1/32''], Inl ''timeout''] @ [Inr [''10.0.0.7/32'', ''10.0.0.1/32'', ''10.0.0.3/32'']]))
   = [''10.0.0.3/32'', ''10.0.0.7/32'']"
  by (subst fail2ban_fresh_is_difference [where bans = "[''10.0.0.7/32'', ''10.0.0.1/32'', ''10.0.0.3/32'']"])
    (simp_all add: scripted_hkeys_def ban_sets_def good_reads_def latest_def less_char_def)

lemma fail2ban_unreadable_keeps_fresh_witness:
  "fail2ban_Fresh (fail2ban_after scripted_hkeys ''Fail2ban'' ([Inr [], Inr [''10.0.0.7/32'']] @ [Inl ''timeout'']))
   = fail2ban_Fresh (fail2ban_after scripted_hkeys ''Fail2ban'' [Inr [], Inr [''10.0.0.7/32'']])"
  by (rule fail2ban_unreadable_keeps_fresh [where e = "''timeout''"]) (simp add: scripted_hkeys_def)

lemma fail2ban_fresh_lasts_one_round_witness:
  "fail2ban_Fresh (fail2ban_after scripted_hkeys ''Fail2ban'' ([Inr []] @ [Inr [''10.0.0.7/32'']])) = [''10.0.0.7/32''] \<and>
   ''10.0.0.7/32'' \<notin> set (fail2ban_Fresh (fail2ban_after scripted_hkeys ''Fail2ban''
      ([Inr []] @ [Inr [''10.0.0.7/32''], Inr [''10.0.0.7/32'']])))"
proof -
  have f: "fail2ban_Fresh (fail2ban_after scripted_hkeys ''Fail2ban'' ([Inr []] @ [Inr [''10.0.0.7/32'']])) = [''10.0.0.7/32'']"
    by (simp add: fail2ban_after_def fail2ban_run_def fail2ban_new_def fail2ban_Fresh_def scripted_hkeys_def Let_def)
  then show ?thesis
    using fail2ban_fresh_lasts_one_round [of scripted_hkeys "Inr [''10.0.0.7/32'']" "[''10.0.0.7/32'']"
        "Inr [''10.0.0.7/32'']" "[''10.0.0.7/32'']" "''Fail2ban''" "[Inr []]"] by (simp add: scripted_hkeys_def)
qed

end
