(* ===== verification/Bans.thy ===== *)
theory Bans
  imports Supervisor Redis_Probes
begin

text \<open>
  The fail2ban event from the probe to the operator: handleBans reads Fail2ban.Fresh through the
  check's Bans closure when the event is handled, and raises one alert per address.
\<close>

section \<open>Counting alerts\<close>

fun is_notification :: "metric_call \<Rightarrow> bool" where
  "is_notification (Inc v ls) = (v = ''notifications_total'')"
| "is_notification c = False"

definition notifications :: "metrics \<Rightarrow> nat" where
  "notifications m = length (filter is_notification m)"

definition current_bans :: "nat \<Rightarrow> 'w sup \<Rightarrow> string list" where
  "current_bans i st = (case lc_Bans (runner_check i st) of None \<Rightarrow> [] | Some f \<Rightarrow> f (su_world st))"

lemma notifications_simps [simp]:
  "notifications (m @ m') = notifications m + notifications m'"
  "notifications (observe_event e a m) = notifications m"
  "notifications (observe_notification n m) = Suc (notifications m)"
  by (simp_all add: notifications_def metrics_defs)

lemma notifications_raise_alert [simp]:
  "notifications (su_metrics (raise_alert d a st)) = Suc (notifications (su_metrics st))"
  by (simp add: raise_alert_def split: option.splits prod.splits)

lemma notifications_ban:
  "notifications (su_metrics (handle_ban d e h st)) = notifications (su_metrics st) + (if de_notifyBans d then 1 else 0)"
  by (auto simp: handle_ban_def ban_details_def Let_def split: option.splits prod.splits sum.splits)

lemma notifications_fold:
  "notifications (su_metrics (fold (handle_ban d e) hs st)) = notifications (su_metrics st)
     + (if de_notifyBans d then length hs else 0)"
  by (induction hs arbitrary: st) (simp_all add: notifications_ban)

text \<open>An operator's mailbox: messages delivered, oldest first. Lookups of owners do not touch it.\<close>

type_synonym mailbox = "message list"

definition mailbox_deps :: "string \<Rightarrow> gotime \<Rightarrow> (string \<Rightarrow> string res) \<Rightarrow> mailbox deps" where
  "mailbox_deps subj now owner =
     demo_deps\<lparr>de_dispatcher := Some (dispatcher_new (Some (\<lambda>m w. (None, w @ [m]))) None subj (\<lambda>w. now)),
       de_whois := Some (\<lambda>h w. (owner h, w))\<rparr>"

text \<open>The message of one ban.\<close>

definition ban_message :: "gotime \<Rightarrow> (string \<Rightarrow> string res) \<Rightarrow> string \<Rightarrow> message" where
  "ban_message now owner host =
     \<lparr>ms_Service = fail2banService,
      ms_Subject = unix_date now @ '' - IP ban: '' @ host,
      ms_Body = (case owner host of Inl e \<Rightarrow> fail2banBody | Inr r \<Rightarrow> if r = [] then fail2banBody else r)\<rparr>"

lemma mailbox_ban:
  "su_world (handle_ban (mailbox_deps subj now owner) fail2banService host st) = su_world st @ [ban_message now owner host]"
  by (simp add: handle_ban_def ban_details_def mailbox_deps_def demo_deps_def raise_alert_def dispatch_def passes_throttle_def
      dispatcher_new_def render_def ban_message_def Let_def split: sum.splits)

lemma mailbox_fold:
  "su_world (fold (handle_ban (mailbox_deps subj now owner) fail2banService) hosts st)
     = su_world st @ map (ban_message now owner) hosts"
  by (induction hosts arbitrary: st) (simp_all add: mailbox_ban)

section \<open>Properties\<close>

text \<open>One alert per banned address: handling a fail2ban event raises as many notifications as the
  probe has fresh bans at that moment, and none at all when ban notifications are switched off.\<close>

theorem one_alert_per_ban:
  "notifications (su_metrics (handleBans d i st)) = notifications (su_metrics st)
     + (if de_notifyBans d then length (current_bans i st) else 0)"
  by (simp add: handleBans_def Let_def notifications_fold current_bans_def split: option.splits)

text \<open>What the operator receives for a fail2ban event: one message per fresh ban, in the probe's
  sorted order, with the banned address in the subject, and with the registry record as the body, or
  the fixed text when the lookup failed or found nothing. A failed lookup costs no message.\<close>

theorem ban_messages_delivered:
  assumes "ck_Event (runner_check i st) = ''fail2ban''"
  shows "su_world (handleBans (mailbox_deps subj now owner) i st)
     = su_world st @ map (ban_message now owner) (current_bans i st)"
proof -
  have "ck_Event (runner_check i st) = fail2banService" using assms by (simp add: fail2banService_def)
  then show ?thesis
    by (simp add: handleBans_def Let_def mailbox_fold current_bans_def split: option.splits)
qed

definition ban_check :: "mailbox live_check" where
  "ban_check = (demo_check ''fail2ban'')\<lparr>lc_Bans := Some (\<lambda>w. [''10.0.0.3/32'', ''10.0.0.7/32''])\<rparr>"

definition ban_sup :: "mailbox sup" where
  "ban_sup = (demo_sup ''fail2ban'' [])\<lparr>su_runners := [new_runner ban_check]\<rparr>"

theorem ban_messages_delivered_witness:
  "map ms_Subject (su_world (handleBans (mailbox_deps ''Watchdog ALERT'' \<lparr>tm_ns = 0, tm_offset = 0, tm_zone = ''UTC''\<rparr>
       (\<lambda>h. Inl ''timeout'')) 0 ban_sup))
   = map (\<lambda>h. unix_date \<lparr>tm_ns = 0, tm_offset = 0, tm_zone = ''UTC''\<rparr> @ '' - IP ban: '' @ h) [''10.0.0.3/32'', ''10.0.0.7/32'']"
  by (subst ban_messages_delivered)
    (simp_all add: ban_sup_def runner_check_def new_runner_def ban_check_def current_bans_def ban_message_def)

end
