(* ===== verification/Restarting.thy ===== *)
theory Restarting
  imports Supervisor
begin

text \<open>
  What the supervisor does to the containers. Every client of Dockerapi, whatever its daemon answers,
  is shown to keep the contract the supervisor relies on once its requests are remembered; the
  properties of handle and restart follow.
\<close>

section \<open>A daemon that remembers its requests\<close>

type_synonym requests = "(http_method \<times> string) list"

text \<open>Any client of Dockerapi, whatever its daemon answers, with the requests it has sent.\<close>

definition logged :: "'w docker_client \<Rightarrow> ('w \<times> requests) docker_client" where
  "logged c =
     \<lparr>dc_baseURL = dc_baseURL c, dc_dialect = dc_dialect c, dc_project = dc_project c, dc_ipv4Network = dc_ipv4Network c,
      dc_reach = \<lambda>(w, sent). (case dc_reach c w of (r, w') \<Rightarrow> (r, (w', sent))),
      dc_exchange = \<lambda>m u (w, sent). (case dc_exchange c m u w of (r, w') \<Rightarrow> (r, (w', sent @ [(m, u)]))),
      dc_summaries = dc_summaries c, dc_inspects = dc_inspects c, dc_inspected = dc_inspected c,
      dc_processes = dc_processes c, dc_msg_processes = dc_msg_processes c\<rparr>"

definition restart_commands :: "'w \<times> requests \<Rightarrow> string list" where
  "restart_commands w = map snd (filter (\<lambda>(m, u). m = POST \<and> has_suffix u ''/restart'') (snd w))"

definition restart_command :: "'w docker_client \<Rightarrow> string \<Rightarrow> string" where
  "restart_command c i = dc_baseURL c @ container_path i ''restart''"

text \<open>The command goes to a container that the daemon, asked in state \<open>w\<close>, lists under the service.\<close>

definition restarts_service :: "'w docker_client \<Rightarrow> 'w \<times> requests \<Rightarrow> string \<Rightarrow> string \<Rightarrow> bool" where
  "restarts_service c w p s \<longleftrightarrow>
     (\<exists>all w' ct. docker_List (logged c) w = (Inr all, w') \<and> ct \<in> set all \<and>
        p = restart_command c (cn_ID ct) \<and> cn_Service ct = s)"

lemma suffix_path:
  "has_suffix (b @ container_path i op) ''/restart'' \<longleftrightarrow> op = ''restart''" if "op \<in> {''restart'', ''top'', ''json''}"
  using that by (auto simp: container_path_def has_suffix_def)

lemma request_quiet:
  "restart_commands (snd (do_request (logged c) m path dec w)) =
     restart_commands w @ (if m = POST \<and> has_suffix (dc_baseURL c @ path) ''/restart'' then [dc_baseURL c @ path] else [])"
proof -
  obtain r w' where "dc_exchange c m (dc_baseURL c @ path) (fst w) = (r, w')" by fastforce
  then show ?thesis
    by (cases w; cases r)
      (auto simp: do_request_def logged_def restart_commands_def Let_def split: option.splits sum.splits)
qed

lemma decoded_quiet:
  "restart_commands (snd (do_decoded (logged c) m path dec w)) =
     restart_commands w @ (if m = POST \<and> has_suffix (dc_baseURL c @ path) ''/restart'' then [dc_baseURL c @ path] else [])"
  using request_quiet [of c m path "Some dec" w]
  by (auto simp: do_decoded_def split: prod.splits sum.splits option.splits)

lemma get_quiet: "restart_commands (snd (docker_get (logged c) path dec w)) = restart_commands w"
  by (simp add: docker_get_def decoded_quiet)

lemma Inspect_quiet: "restart_commands (snd (docker_Inspect (logged c) i w)) = restart_commands w"
  by (simp add: docker_Inspect_def case_prod_beta get_quiet)

lemma List_quiet: "restart_commands (snd (docker_List (logged c) w)) = restart_commands w"
  by (simp add: docker_List_def docker_all_def case_prod_beta get_quiet split: dialect.splits)

lemma find_matching_quiet:
  "restart_commands (snd (find_matching (logged c) s cts w)) = restart_commands w"
proof (induction cts arbitrary: w)
  case (Cons ct cts)
  then show ?case
    using Inspect_quiet [of c "cn_ID ct" w] by (auto simp: case_prod_beta split: sum.splits)
qed simp

lemma Find_quiet: "restart_commands (snd (docker_Find (logged c) s w)) = restart_commands w"
  by (simp add: docker_Find_def case_prod_beta find_matching_quiet List_quiet split: sum.splits)

lemma Running_quiet: "restart_commands (snd (docker_Running (logged c) i p w)) = restart_commands w"
  by (simp add: docker_Running_def docker_Top_def case_prod_beta get_quiet decoded_quiet suffix_path split: sum.splits)

lemma Restart_once: "restart_commands (snd (docker_Restart (logged c) i w)) = restart_commands w @ [restart_command c i]"
  by (simp add: docker_Restart_def case_prod_beta request_quiet restart_command_def suffix_path split: sum.splits)

lemma list_all2_in_set: "list_all2 P xs ys \<Longrightarrow> x \<in> set xs \<Longrightarrow> \<exists>y \<in> set ys. P x y"
  by (induction rule: list_all2_induct) auto

lemma Find_exact:
  assumes "docker_Find (logged c) s w = (Inr cs, w')" "ct \<in> set cs"
  shows "restarts_service c w (restart_command c (cn_ID ct)) s"
proof -
  obtain all v where all: "docker_List (logged c) w = (Inr all, v)" "find_matching (logged c) s all v = (Inr cs, w')"
    using assms(1) by (auto simp: docker_Find_def split: prod.splits sum.splits)
  obtain c' where c': "c' \<in> set all" "cn_Service c' = s" "same_container ct c'"
    using list_all2_in_set [OF find_matching_exact [OF all(2)] assms(2)] by auto
  from c'(3) have "cn_ID ct = cn_ID c'"
    unfolding same_container_def by (metis container.select_convs(1) container.surjective container.update_convs(5))
  with all(1) c'(1,2) show ?thesis by (auto simp: restarts_service_def)
qed

interpretation dae: docker_contract "client_api (logged c)" restart_commands "restart_command c" "restarts_service c" for c
  by unfold_locales (simp_all add: client_api_def Find_exact Find_quiet Running_quiet Restart_once)

section \<open>Properties\<close>

lemma restarts_container_cases:
  "restarts_container c \<Longrightarrow> ck_Event c \<notin> {''ratelimit'', ''mail_queue_status'', ''external_checks'', ''mysql_repl_checks'',
     ''dovecot_repl_checks'', ''certcheck'', ''acme-mailcow'', ''fail2ban''}"
  by (auto simp: restarts_container_def has_suffix_def has_prefix_def)

lemma handle_restart: "restarts_container (runner_check (ev_Check e) st) \<Longrightarrow> handle d e st = restart d (ev_Check e) st"
  using restarts_container_cases [of "runner_check (ev_Check e) st"] by (simp add: handle_def Let_def)

lemma handle_notify:
  assumes "\<not> restarts_container (runner_check (ev_Check e) st)"
  shows "\<exists>st'. handle d e st = Some st' \<and> only_outside st st'"
  using assms by (auto simp: handle_def Let_def outside_intros)

text \<open>Handling an event never panics and touches nothing of the checks: every tracker, every
  transcript, the event queue and its capacity are as before. An event that names a container leaves
  the gate open, with the paused metric at 0, whatever happened to the restart; any other event
  leaves the gate alone.\<close>

theorem handle_leaves_checks_alone:
  "\<exists>st'. handle d e st = Some st' \<and> su_runners st' = su_runners st \<and> su_events st' = su_events st \<and>
     su_capacity st' = su_capacity st \<and>
     (if restarts_container (runner_check (ev_Check e) st)
      then \<not> gate_paused (su_gate st') \<and> gauge ''paused'' [] (su_metrics st') = Some 0
      else su_gate st' = su_gate st)"
proof (cases "restarts_container (runner_check (ev_Check e) st)")
  case True
  obtain st' where r: "restart d (ev_Check e) st = Some st'" using restart_Some by blast
  from True restart_fields [OF r] show ?thesis by (intro exI [of _ st']) (simp add: handle_restart [OF True, of d] r)
next
  case False
  then obtain st' where h: "handle d e st = Some st'" "only_outside st st'" using handle_notify by blast
  from False outside_fields [OF h(2)] show ?thesis by (intro exI [of _ st']) (simp add: h(1))
qed

text \<open>C11. The watchdog only restarts what the exhausted check names: against the Docker client of this
  repository, in either dialect and whatever the daemon answers, all restart commands an event sends go
  to containers which the daemon, asked after the pause, lists under exactly the check's event as their
  compose service; and an event that is not a restartable container name (acme and all notify-only
  events included) sends none.\<close>

theorem only_the_named_service_is_restarted:
  assumes "quiet_deps restart_commands d" "quiet_check restart_commands (runner_check (ev_Check e) st)"
    and "de_docker d = Some (client_api (logged c))" "handle d e st = Some st'"
  shows "\<exists>cs. restart_commands (su_world st') = restart_commands (su_world st) @ cs \<and>
     (if restarts_container (runner_check (ev_Check e) st)
      then list_all (\<lambda>p. restarts_service c (snd (de_sleep d PauseBeforeRestart (su_world st))) p
             (ck_Event (runner_check (ev_Check e) st))) cs
      else cs = [])"
proof (cases "restarts_container (runner_check (ev_Check e) st)")
  case True
  let ?i = "ev_Check e"
  have r: "resumeAll (restart_body d ?i (pauseAll st)) = Some st'"
    using assms(4) handle_restart [OF True, of d] by (simp add: restart_def)
  have "quiet_check restart_commands (runner_check ?i (pauseAll st))" using assms(2) by simp
  from dae.restart_sends [OF assms(1) this assms(3)] obtain cs where
    "restart_commands (su_world (restart_body d ?i (pauseAll st))) = restart_commands (su_world st) @ cs"
    "\<forall>p \<in> set cs. restarts_service c (snd (de_sleep d PauseBeforeRestart (su_world st))) p (ck_Event (runner_check ?i st))"
    by auto
  then show ?thesis using resumeAll_fields [OF r] True by (auto simp: list_all_iff)
qed (use handle_quiet [OF assms(1,2) _ assms(4)] in simp)

text \<open>C12. Whether a container that was found is restarted, whatever the daemon answers: it is unless its
  known start is less than six minutes ago (a start that is missing, unreadable or Docker's zero time
  does not count against it) or it is php-fpm and its process list could be read and shows the
  initialisation of the database; an unreadable list does not hold a restart back. Then exactly one
  restart command is sent, for that container's id, and otherwise none.\<close>

theorem restartOne_decision:
  assumes "quiet_deps restart_commands d" "quiet_check restart_commands (runner_check i st)"
  shows "let young = (\<exists>at. fst (started (de_parse_time d) target) = Some at \<and>
              time_sub (de_now d (su_world st)) (tm_ns at) < MinUptime);
             busy = (ck_Event (runner_check i st) = PHPFPMService \<and>
              (\<exists>ps. fst (docker_Top (logged c) (cn_ID target) (su_world st)) = Inr ps \<and>
                 list_ex (\<lambda>p. contains (join '' '' p) InitDBProcess) ps))
         in restart_commands (su_world (restartOne d (client_api (logged c)) i target st)) =
              restart_commands (su_world st) @ (if young \<or> busy then [] else [restart_command c (cn_ID target)])"
proof -
  let ?api = "client_api (logged c)"
  have "too_young d target (su_world st) \<longleftrightarrow> (\<exists>at. fst (started (de_parse_time d) target) = Some at \<and>
      time_sub (de_now d (su_world st)) (tm_ns at) < MinUptime)"
    by (auto simp: too_young_def split: option.splits)
  moreover have "fst (migrating ?api event target w) \<longleftrightarrow> event = PHPFPMService \<and>
      (\<exists>ps. fst (docker_Top (logged c) (cn_ID target) w) = Inr ps \<and> list_ex (\<lambda>p. contains (join '' '' p) InitDBProcess) ps)" for event w
    by (auto simp: migrating_eq client_api_def docker_Running_def split: prod.splits sum.splits)
  ultimately show ?thesis using dae.restartOne_sends [OF assms, of c target] by (simp add: Let_def)
qed

text \<open>C13. Every restart is accounted for, and nothing else is: an event records outcomes for its own
  container only, and only when it names one to restart. Unless the watchdog is shutting down, these
  are the single outcome failed when there is no Docker client, the lookup fails or nothing matches,
  and otherwise one for each container found, in order: skipped when it was held back, restarted when
  the API took the restart, failed when it did not.\<close>

theorem restart_outcomes_complete:
  assumes "handle d e st = Some st'"
  shows "let i = ev_Check e; event = ck_Event (runner_check i st)
    in restart_outcomes container (su_metrics st') = restart_outcomes container (su_metrics st) @
      (if \<not> restarts_container (runner_check i st) \<or> container \<noteq> event then []
       else case de_sleep d PauseBeforeRestart (su_world st) of
          (Some _, _) \<Rightarrow> []
        | (None, w) \<Rightarrow>
            (case de_docker d of
               None \<Rightarrow> [''failed'']
             | Some docker \<Rightarrow>
                 (case da_Find docker event w of
                    (Inr (t # ts), w') \<Rightarrow> container_outcomes d docker i (t # ts) (set_world w' (pauseAll st))
                  | _ \<Rightarrow> [''failed''])))"
proof (cases "restarts_container (runner_check (ev_Check e) st)")
  case True
  let ?i = "ev_Check e" and ?p = "pauseAll st"
  let ?c = "ck_Event (runner_check ?i st)"
  have r: "resumeAll (restart_body d ?i ?p) = Some st'"
    using assms handle_restart [OF True, of d] by (simp add: restart_def)
  have m: "restart_outcomes container (su_metrics st') = restart_outcomes container (su_metrics (restart_body d ?i ?p))"
    using resumeAll_fields [OF r] by simp
  obtain x w where sl: "de_sleep d PauseBeforeRestart (su_world st) = (x, w)" by fastforce
  show ?thesis
  proof (cases "x = None \<and> (\<exists>docker t ts w'. de_docker d = Some docker \<and> da_Find docker ?c w = (Inr (t # ts), w'))")
    case found: True
    then obtain docker t ts w' where t: "x = None" "de_docker d = Some docker" "da_Find docker ?c w = (Inr (t # ts), w')"
      by blast
    have "restart_body d ?i ?p = fold (restartOne d docker ?i) (t # ts) (set_world w' ?p)"
      using sl t by (simp add: restart_body_def Let_def del: fold_simps)
    then show ?thesis using m sl t True outcomes_fold [of container d docker ?i "t # ts" "set_world w' ?p"]
      by (auto simp: Let_def simp del: fold_simps)
  next
    case False
    then show ?thesis using m sl True
      by (auto simp: restart_body_def Let_def split: option.splits prod.splits sum.splits list.splits)
  qed
next
  case False
  then show ?thesis using assms by (auto simp: handle_def Let_def split: if_splits)
qed

section \<open>Concrete instances\<close>

text \<open>A supervisor of one check, talking to a daemon that runs one container, whose start time does
  not parse.\<close>

definition recorded_deps :: "(unit \<times> requests) deps" where
  "recorded_deps = demo_deps\<lparr>de_docker := Some (client_api (logged (demo_client DialectEngine)))\<rparr>"

lemma recorded_quiet: "quiet_deps restart_commands recorded_deps" "quiet_check restart_commands (demo_check e)"
  by (simp_all add: quiet_deps_def recorded_deps_def demo_deps_def silent_store_def quiet_check_def check_details_def
      demo_check_def)

definition demo_event :: event where
  "demo_event = \<lparr>ev_Check = 0, ev_Snapshot = tracker_snapshot (tracker_new ''Nginx'' 5)\<rparr>"

theorem only_the_named_service_is_restarted_witness:
  "\<exists>st'. handle recorded_deps demo_event (demo_sup ''nginx-mailcow'' ((), [])) = Some st' \<and>
     (\<exists>cs. restart_commands (su_world st') = restart_commands ((), []) @ cs \<and>
        list_all (\<lambda>p. restarts_service (demo_client DialectEngine) ((), []) p ''nginx-mailcow'') cs)"
proof -
  have c: "runner_check (ev_Check demo_event) (demo_sup ''nginx-mailcow'' ((), [])) = (demo_check ''nginx-mailcow'' :: (unit \<times> requests) live_check)"
    by (simp add: demo_event_def)
  have r: "restarts_container (demo_check ''nginx-mailcow'')"
    by (simp add: restarts_container_def has_suffix_def)
  obtain st' where st: "handle recorded_deps demo_event (demo_sup ''nginx-mailcow'' ((), [])) = Some st'"
    using handle_restart [of demo_event "demo_sup ''nginx-mailcow'' ((), [])" recorded_deps] restart_Some c r by metis
  have api: "de_docker recorded_deps = Some (client_api (logged (demo_client DialectEngine)))" by (simp add: recorded_deps_def)
  have w: "snd (de_sleep recorded_deps PauseBeforeRestart ((), [])) = ((), [])"
    "su_world (demo_sup ''nginx-mailcow'' ((), [])) = ((), [] :: requests)"
    by (simp_all add: recorded_deps_def demo_deps_def demo_sup_def)
  have ev: "ck_Event (demo_check ''nginx-mailcow'' :: (unit \<times> requests) live_check) = ''nginx-mailcow''" by (simp add: demo_check_def)
  have q: "quiet_check restart_commands (runner_check (ev_Check demo_event) (demo_sup ''nginx-mailcow'' ((), [])))"
    unfolding c by (rule recorded_quiet(2))
  note sent = only_the_named_service_is_restarted [OF recorded_quiet(1) q api st, unfolded w c ev if_P [OF r]]
  show ?thesis by (rule exI [of _ st'], rule conjI [OF st sent])
qed

theorem restartOne_decision_witness:
  "restart_commands (su_world (restartOne recorded_deps (client_api (logged (demo_client DialectEngine)))
      0 (inspect_normalise demo_record) (demo_sup ''nginx-mailcow'' ((), [])))) = [''http://docker/containers/abc/restart'']"
proof -
  have q: "quiet_check restart_commands (runner_check 0 (demo_sup ''nginx-mailcow'' ((), [])))"
    by (simp add: recorded_quiet(2))
  show ?thesis
    using restartOne_decision [OF recorded_quiet(1) q, of "inspect_normalise demo_record" "demo_client DialectEngine"]
    by (simp add: recorded_deps_def demo_deps_def started_def demo_record_def inspect_normalise_def restart_commands_def
        restart_command_def demo_client_def container_path_def path_escape_def percent_escape_def percent_char_def
        is_alnum_def path_safe_def PHPFPMService_def Let_def)
qed

theorem restart_outcomes_complete_witness:
  "\<exists>st'. handle demo_deps demo_event (demo_sup ''nginx-mailcow'' ()) = Some st' \<and>
     restart_outcomes ''nginx-mailcow'' (su_metrics st') = [''failed''] \<and> restart_outcomes ''sogo-mailcow'' (su_metrics st') = []"
proof -
  have r: "restarts_container (runner_check (ev_Check demo_event) (demo_sup ''nginx-mailcow'' ()))"
    by (simp add: demo_event_def restarts_container_def has_suffix_def)
  obtain st' where st: "handle demo_deps demo_event (demo_sup ''nginx-mailcow'' ()) = Some st'"
    using handle_restart [OF r, of demo_deps] restart_Some by metis
  have "su_metrics (demo_sup ''nginx-mailcow'' ()) = []" by (simp add: demo_sup_def)
  with restart_outcomes_complete [OF st, of "''nginx-mailcow''"] restart_outcomes_complete [OF st, of "''sogo-mailcow''"] st r
  show ?thesis by (simp add: demo_event_def demo_deps_def restart_outcomes_def Let_def)
qed

end
