(* ===== verification/System.thy ===== *)
theory System
  imports Restarting
begin

text \<open>
  The goroutines together: one per runner (Runner.Run), the event loop (handleEvents) and the API
  watcher (watchDockerAPI), as an interleaving of steps on the shared state. A step ends where the
  code blocks or releases a lock others wait for: at the gate, after each probe, in a sleep, on the
  channel of events. A restart is two steps, so that the runners and the watcher may move while the
  container is down. The outside world may change between any two steps.
\<close>

section \<open>Where each goroutine is\<close>

text \<open>\<open>InRound\<close> counts the probes of the round that are done and sums up their weights.\<close>

datatype phase =
    AtGate
  | Waiting nat
  | InRound nat int
  | Sleeping snapshot
  | Sending snapshot
  | Stopped

datatype handling = Idle | Restarting nat | HandlerStopped

datatype watching = Watching bool | WatchStopped | NoWatcher

text \<open>\<open>sy_handled\<close> is a history variable: the events taken from the queue so far.\<close>

record 'w system =
  sy_sup :: "'w sup"
  sy_phase :: "phase list"
  sy_handler :: handling
  sy_watch :: watching
  sy_handled :: "event list"

definition set_phase :: "nat \<Rightarrow> phase \<Rightarrow> 'w sup \<Rightarrow> 'w system \<Rightarrow> 'w system" where
  "set_phase i p st s = s\<lparr>sy_sup := st, sy_phase := (sy_phase s)[i := p]\<rparr>"

text \<open>Run's start: every goroutine launched; the watcher only with a Docker client.\<close>

definition system_start :: "'w deps \<Rightarrow> 'w sup \<Rightarrow> 'w system" where
  "system_start d st =
     \<lparr>sy_sup = st, sy_phase = replicate (length (su_runners st)) AtGate, sy_handler = Idle,
      sy_watch = (if de_docker d = None then NoWatcher else Watching False), sy_handled = []\<rparr>"

section \<open>Steps\<close>

inductive sys_step :: "'w deps \<Rightarrow> 'w system \<Rightarrow> 'w system \<Rightarrow> bool" for d where
  ask: "i < length (sy_phase s) \<Longrightarrow> sy_phase s ! i = AtGate \<Longrightarrow>
     sys_step d s (set_phase i (Waiting (gate_ticket (su_gate (sy_sup s)))) (sy_sup s) s)"
| gate_cancelled: "i < length (sy_phase s) \<Longrightarrow> sy_phase s ! i = Waiting c \<Longrightarrow>
     wait_returns c (su_gate (sy_sup s)) (de_ctx d (su_world (sy_sup s))) (Some e) \<Longrightarrow>
     sys_step d s (set_phase i Stopped (sy_sup s) s)"
| enter_round: "i < length (sy_phase s) \<Longrightarrow> sy_phase s ! i = Waiting c \<Longrightarrow>
     wait_returns c (su_gate (sy_sup s)) (de_ctx d (su_world (sy_sup s))) None \<Longrightarrow>
     sys_step d s (set_phase i (InRound 0 0) (sy_sup s) s)"
| probe: "i < length (sy_phase s) \<Longrightarrow> sy_phase s ! i = InRound k weight \<Longrightarrow>
     k < length (lc_Probes (runner_check i (sy_sup s))) \<Longrightarrow>
     run_probe d i (lc_Probes (runner_check i (sy_sup s)) ! k) (weight, sy_sup s) = (weight', st) \<Longrightarrow>
     sys_step d s (set_phase i (InRound (Suc k) weight') st s)"
| conclude: "i < length (sy_phase s) \<Longrightarrow> sy_phase s ! i = InRound k weight \<Longrightarrow>
     length (lc_Probes (runner_check i (sy_sup s))) \<le> k \<Longrightarrow>
     conclude_round d i weight (sy_sup s) = (snap, st) \<Longrightarrow>
     sys_step d s (set_phase i (if de_ctx d (su_world st) = None then Sleeping snap else Stopped) st s)"
| sleep_cancelled: "i < length (sy_phase s) \<Longrightarrow> sy_phase s ! i = Sleeping snap \<Longrightarrow>
     round_delay d i snap (sy_sup s) = Some delay \<Longrightarrow>
     de_sleep d delay (su_world (sy_sup s)) = (Some e, w) \<Longrightarrow>
     sys_step d s (set_phase i Stopped (set_world w (sy_sup s)) s)"
| sleep_alive: "i < length (sy_phase s) \<Longrightarrow> sy_phase s ! i = Sleeping snap \<Longrightarrow> \<not> snapshot_dead snap \<Longrightarrow>
     round_delay d i snap (sy_sup s) = Some delay \<Longrightarrow>
     de_sleep d delay (su_world (sy_sup s)) = (None, w) \<Longrightarrow>
     sys_step d s (set_phase i AtGate (set_world w (sy_sup s)) s)"
| sleep_dead: "i < length (sy_phase s) \<Longrightarrow> sy_phase s ! i = Sleeping snap \<Longrightarrow> snapshot_dead snap \<Longrightarrow>
     round_delay d i snap (sy_sup s) = Some delay \<Longrightarrow>
     de_sleep d delay (su_world (sy_sup s)) = (None, w) \<Longrightarrow>
     sys_step d s (set_phase i (Sending snap) (exhaust i (set_world w (sy_sup s))) s)"
| send: "i < length (sy_phase s) \<Longrightarrow> sy_phase s ! i = Sending snap \<Longrightarrow>
     send_event \<lparr>ev_Check = i, ev_Snapshot = snap\<rparr> (sy_sup s) = Some st \<Longrightarrow>
     sys_step d s (set_phase i AtGate st s)"
| send_cancelled: "i < length (sy_phase s) \<Longrightarrow> sy_phase s ! i = Sending snap \<Longrightarrow>
     de_ctx d (su_world (sy_sup s)) = Some e \<Longrightarrow>
     sys_step d s (set_phase i Stopped (sy_sup s) s)"
| take_notify: "sy_handler s = Idle \<Longrightarrow> su_events (sy_sup s) = e # es \<Longrightarrow>
     \<not> restarts_container (runner_check (ev_Check e) (sy_sup s)) \<Longrightarrow>
     handle d e ((sy_sup s)\<lparr>su_events := es\<rparr>) = Some st \<Longrightarrow>
     sys_step d s (s\<lparr>sy_sup := st, sy_handled := sy_handled s @ [e]\<rparr>)"
| take_restart: "sy_handler s = Idle \<Longrightarrow> su_events (sy_sup s) = e # es \<Longrightarrow>
     restarts_container (runner_check (ev_Check e) (sy_sup s)) \<Longrightarrow>
     sys_step d s (s\<lparr>sy_sup := pauseAll ((sy_sup s)\<lparr>su_events := es\<rparr>),
       sy_handler := Restarting (ev_Check e), sy_handled := sy_handled s @ [e]\<rparr>)"
| finish_restart: "sy_handler s = Restarting i \<Longrightarrow>
     resumeAll (restart_body d i (sy_sup s)) = Some st \<Longrightarrow>
     sys_step d s (s\<lparr>sy_sup := st, sy_handler := Idle\<rparr>)"
| handler_stops: "sy_handler s = Idle \<Longrightarrow> de_ctx d (su_world (sy_sup s)) = Some e \<Longrightarrow>
     sys_step d s (s\<lparr>sy_handler := HandlerStopped\<rparr>)"
| watch: "sy_watch s = Watching held \<Longrightarrow> de_docker d = Some docker \<Longrightarrow>
     watch_turn d docker held (sy_sup s) = Some (held', st) \<Longrightarrow>
     sys_step d s (s\<lparr>sy_sup := st,
       sy_watch := (case held' of None \<Rightarrow> WatchStopped | Some h \<Rightarrow> Watching h)\<rparr>)"
| outside: "sys_step d s (s\<lparr>sy_sup := set_world w (sy_sup s)\<rparr>)"

inductive reachable :: "'w deps \<Rightarrow> 'w sup \<Rightarrow> 'w system \<Rightarrow> bool" for d st where
  reach_start: "reachable d st (system_start d st)"
| reach_step: "reachable d st s \<Longrightarrow> sys_step d s s' \<Longrightarrow> reachable d st s'"

text \<open>The two steps of a restart are handle.\<close>

lemma restart_steps_are_handle:
  assumes "restarts_container (runner_check (ev_Check e) st)"
  shows "handle d e st = resumeAll (restart_body d (ev_Check e) (pauseAll st))"
  using handle_restart [OF assms] by (simp add: restart_def)

lemma reachable_steps: "(sys_step d)\<^sup>*\<^sup>* s s' \<Longrightarrow> reachable d st s \<Longrightarrow> reachable d st s'"
  by (induction rule: rtranclp_induct) (auto intro: reach_step)

lemma set_phase_set_phase [simp]: "set_phase i p st (set_phase i q u s) = set_phase i p st s"
  by (simp add: set_phase_def)

lemma set_phase_fields [simp]:
  "sy_sup (set_phase i p st s) = st" "length (sy_phase (set_phase i p st s)) = length (sy_phase s)"
  "i < length (sy_phase s) \<Longrightarrow> sy_phase (set_phase i p st s) ! i = p"
  by (simp_all add: set_phase_def)

lemma run_probe_probes:
  "i < length (su_runners (snd a)) \<Longrightarrow> lc_Probes (runner_check i (snd (run_probe d i p a))) = lc_Probes (runner_check i (snd a))"
  "length (su_runners (snd (run_probe d i p a))) = length (su_runners (snd a))"
  using framed_run_probe [of i a d p]
  by (auto simp: run_probe_def Let_def upd_runner_def runner_check_def check_record_def upd_metrics_def set_world_def framed_def split: prod.splits)

text \<open>The steps of a round that nothing interrupts are runner_round.\<close>

lemma probes_in_a_row:
  assumes "i < length (sy_phase s)" "i < length (su_runners st)" "lc_Probes (runner_check i st) = ps" "k + length qs = length ps"
    and "qs = drop k ps" "fold (run_probe d i) qs (weight, st) = (weight', st')"
  shows "(sys_step d)\<^sup>*\<^sup>* (set_phase i (InRound k weight) st s) (set_phase i (InRound (length ps) weight') st' s) \<and>
    lc_Probes (runner_check i st') = ps"
  using assms(2-)
proof (induction qs arbitrary: k weight st)
  case Nil
  then show ?case by simp
next
  case (Cons q qs)
  have "tl (drop k ps) = drop (Suc k) ps" by (simp add: drop_Suc tl_drop)
  then have k: "k < length ps" "ps ! k = q" "qs = drop (Suc k) ps"
    using Cons.prems(3) nth_via_drop [OF Cons.prems(4) [symmetric]] by (simp_all add: Cons.prems(4) [symmetric])
  obtain w1 st1 where r: "run_probe d i q (weight, st) = (w1, st1)" by (cases "run_probe d i q (weight, st)")
  have f: "lc_Probes (runner_check i st1) = ps" "i < length (su_runners st1)"
    using run_probe_probes [where i = i and a = "(weight, st)" and d = d and p = q] r Cons.prems(1,2) by simp_all
  have "sys_step d (set_phase i (InRound k weight) st s) (set_phase i (InRound (Suc k) w1) st1 (set_phase i (InRound k weight) st s))"
    by (rule probe) (use assms(1) Cons.prems(2) k r in simp_all)
  moreover have "(sys_step d)\<^sup>*\<^sup>* (set_phase i (InRound (Suc k) w1) st1 s) (set_phase i (InRound (length ps) weight') st' s) \<and>
      lc_Probes (runner_check i st') = ps"
    using Cons.prems(3,5) r k(3) f by (intro Cons.IH) simp_all
  ultimately show ?case by (auto intro: converse_rtranclp_into_rtranclp)
qed

lemma round_steps_are_runner_round:
  assumes "i < length (sy_phase s)" "i < length (su_runners (sy_sup s))" "sy_phase s ! i = Waiting c"
    and "recv_ready c (su_gate (sy_sup s))" "runner_round d i (sy_sup s) = (snap, st)"
  shows "(sys_step d)\<^sup>*\<^sup>* s (set_phase i (if de_ctx d (su_world st) = None then Sleeping snap else Stopped) st s)"
proof -
  let ?ps = "lc_Probes (runner_check i (sy_sup s))"
  obtain w u where f: "fold (run_probe d i) ?ps (0, sy_sup s) = (w, u)" by (cases "fold (run_probe d i) ?ps (0, sy_sup s)")
  have "sys_step d s (set_phase i (InRound 0 0) (sy_sup s) s)"
    by (rule enter_round [OF assms(1,3)]) (simp add: assms(4))
  moreover have "(sys_step d)\<^sup>*\<^sup>* (set_phase i (InRound 0 0) (sy_sup s) s) (set_phase i (InRound (length ?ps) w) u s)"
    and ps: "lc_Probes (runner_check i u) = ?ps"
    using probes_in_a_row [OF assms(1,2) refl _ _ f] by simp_all
  moreover have "sys_step d (set_phase i (InRound (length ?ps) w) u s)
      (set_phase i (if de_ctx d (su_world st) = None then Sleeping snap else Stopped) st (set_phase i (InRound (length ?ps) w) u s))"
  proof (rule conclude)
    show "length (lc_Probes (runner_check i (sy_sup (set_phase i (InRound (length ?ps) w) u s)))) \<le> length ?ps"
      using arg_cong [OF ps, of length] by simp
  qed (use assms(1,5) f in \<open>simp_all add: runner_round_def\<close>)
  ultimately show ?thesis by (simp add: rtranclp.rtrancl_into_rtrancl converse_rtranclp_into_rtranclp)
qed

section \<open>The invariant\<close>

text \<open>A check whose numbers cannot overflow: at most a thousand probes, none charging more than a
  thousand points, and a budget that leaves room for one round.\<close>

definition check_ok :: "'w live_check \<Rightarrow> bool" where
  "check_ok c \<longleftrightarrow> ck_Threshold c \<le> max_int64 - 1000000 \<and> length (lc_Probes c) \<le> 1000 \<and>
     list_all (\<lambda>p. priced p 1000) (lc_Probes c) \<and> length (ck_transcript c) \<le> 50"

definition budget_left :: "tracker \<Rightarrow> bool" where
  "budget_left t \<longleftrightarrow> tr_errCount t < tr_threshold t"

definition runner_ok :: "'w runner \<Rightarrow> bool" where
  "runner_ok r \<longleftrightarrow> check_ok (rn_check r) \<and>
     1 \<le> tr_threshold (rn_tracker r) \<and> tr_threshold (rn_tracker r) \<le> max_int64 - 1000000 \<and>
     0 \<le> tr_errCount (rn_tracker r) \<and> tr_errCount (rn_tracker r) \<le> tr_threshold (rn_tracker r) + 1000000"

text \<open>What a runner's phase says about its budget.\<close>

definition phase_ok :: "gate \<Rightarrow> tracker \<Rightarrow> phase \<Rightarrow> bool" where
  "phase_ok g t p =
     (case p of
        AtGate \<Rightarrow> budget_left t
      | Waiting c \<Rightarrow> budget_left t \<and> gate_issued c g
      | InRound k weight \<Rightarrow> budget_left t \<and> 0 \<le> weight \<and> weight \<le> 1000 * int k \<and> k \<le> 1000
      | Sleeping snap \<Rightarrow> \<not> snapshot_dead snap \<longrightarrow> budget_left t
      | Sending snap \<Rightarrow> snapshot_dead snap \<and> budget_left t
      | Stopped \<Rightarrow> True)"

definition event_ok :: "nat \<Rightarrow> event \<Rightarrow> bool" where
  "event_ok n e \<longleftrightarrow> ev_Check e < n \<and> snapshot_dead (ev_Snapshot e)"

definition sup_ok :: "'w sup \<Rightarrow> bool" where
  "sup_ok st \<longleftrightarrow> gate_ok (su_gate st) \<and> list_all runner_ok (su_runners st) \<and>
     length (su_events st) \<le> su_capacity st \<and> list_all (event_ok (length (su_runners st))) (su_events st)"

text \<open>Somebody is going to open a closed gate again.\<close>

definition gate_owned :: "'w system \<Rightarrow> bool" where
  "gate_owned s \<longleftrightarrow> (gate_paused (su_gate (sy_sup s)) \<longrightarrow>
     (\<exists>i. sy_handler s = Restarting i) \<or> sy_watch s = Watching True)"

definition system_ok :: "'w system \<Rightarrow> bool" where
  "system_ok s \<longleftrightarrow> sup_ok (sy_sup s) \<and> length (sy_phase s) = length (su_runners (sy_sup s)) \<and>
     (\<forall>i < length (sy_phase s). phase_ok (su_gate (sy_sup s)) (runner_tracker i (sy_sup s)) (sy_phase s ! i)) \<and>
     gate_owned s"

section \<open>A round keeps the runner in order\<close>

lemma runner_ok_tracker: "runner_ok r \<Longrightarrow> tracker_ok (rn_tracker r)"
  by (auto simp: runner_ok_def tracker_ok_def)

lemma check_ok_lines: "check_ok (rn_check (with_lines ls r)) = check_ok (rn_check r)" if "length (ck_transcript (rn_check r)) \<le> 50"
proof -
  have "length (last_n 50 xs) \<le> 50" for xs :: "string list" by (simp add: last_n_def)
  then show ?thesis using that unfolding check_ok_def by (simp add: with_lines_def)
qed

lemma run_probe_fields:
  assumes "i < length (su_runners st)" "run_probe d i p (weight, st) = (weight', st')"
  shows "runner_tracker i st' = runner_tracker i st" "lc_Probes (runner_check i st') = lc_Probes (runner_check i st)"
    "framed i st st'"
proof -
  obtain res w' where r: "probe_run (de_now d) p (su_world st) = (res, w')" by (cases "probe_run (de_now d) p (su_world st)")
  have "st' = st\<lparr>su_world := w', su_runners := (su_runners st)[i := with_lines [result_line res] (su_runners st ! i)],
        su_metrics := su_metrics st @ probe_calls (ck_Name (runner_check i st)) res\<rparr>"
    using run_probe_step [OF assms(1) r, of weight] assms(2) by simp
  with assms(1) show "runner_tracker i st' = runner_tracker i st" "lc_Probes (runner_check i st') = lc_Probes (runner_check i st)"
    "framed i st st'"
    by (auto simp: runner_tracker_def runner_check_def framed_def)
qed

text \<open>A probe charges at most a thousand points and leaves the tracker alone.\<close>

lemma probe_keeps:
  assumes "i < length (su_runners st)" "runner_ok (su_runners st ! i)" "p \<in> set (lc_Probes (runner_check i st))"
    and "0 \<le> weight" "weight \<le> 1000 * int k" "k < 1000"
    and "run_probe d i p (weight, st) = (weight', st')"
  shows "runner_ok (su_runners st' ! i) \<and> 0 \<le> weight' \<and> weight' \<le> 1000 * int (Suc k)"
proof -
  obtain res w' where r: "probe_run (de_now d) p (su_world st) = (res, w')" by (cases "probe_run (de_now d) p (su_world st)")
  have c: "check_ok (runner_check i st)" using assms(2) by (simp add: runner_ok_def runner_check_def)
  then have "priced p 1000" using assms(3) by (auto simp: check_ok_def list_all_iff)
  with probe_run_weight [of p 1000 "de_now d" "su_world st"] r have w: "0 \<le> result_weight res" "result_weight res \<le> 1000" by auto
  then have "wrap64 (weight + result_weight res) = weight + result_weight res"
    using assms(4-6) by (intro wrap64_nonneg) auto
  moreover have "length (ck_transcript (rn_check (su_runners st ! i))) \<le> 50"
    using c by (simp add: check_ok_def runner_check_def)
  ultimately show ?thesis
    using run_probe_step [OF assms(1) r, of weight] assms w by (auto simp: runner_ok_def check_ok_lines)
qed

text \<open>What the end of a round does to the budget.\<close>

lemma conclude_outcome:
  assumes "i < length (su_runners st)" "runner_ok (su_runners st ! i)" "budget_left (runner_tracker i st)"
    and "0 \<le> w" "w \<le> 1000000" "conclude_round d i w st = (snap, st')"
  shows "runner_ok (su_runners st' ! i)"
    "tr_threshold (runner_tracker i st') = tr_threshold (runner_tracker i st)"
    "tr_errCount (runner_tracker i st') =
       (if 0 < w then tr_errCount (runner_tracker i st) + w else max 0 (tr_errCount (runner_tracker i st) - 1))"
    "snapshot_dead snap \<longleftrightarrow> \<not> budget_left (runner_tracker i st')"
proof -
  let ?t = "runner_tracker i st"
  obtain s t where t: "tracker_record w ?t = (s, t)" by (cases "tracker_record w ?t")
  have e: "snap = s" "su_runners st' ! i = (su_runners st ! i)\<lparr>rn_tracker := t\<rparr>"
    using assms(1,6) t by (auto simp: conclude_round_def publish_def Let_def upd_runner_def upd_metrics_def set_world_def)
  then have rt: "runner_tracker i st' = t" by (simp add: runner_tracker_def)
  have tok: "tracker_ok ?t" using runner_ok_tracker [OF assms(2)] by (simp add: runner_tracker_def)
  have b: "1 \<le> tr_threshold ?t" "tr_threshold ?t \<le> max_int64 - 1000000" "0 \<le> tr_errCount ?t" "tr_errCount ?t < tr_threshold ?t"
    using assms(2,3) by (auto simp: runner_ok_def runner_tracker_def budget_left_def)
  have fit: "tr_errCount ?t + max 0 w \<le> max_int64" using assms(4,5) b by simp
  show err: "tr_errCount (runner_tracker i st') = (if 0 < w then tr_errCount ?t + w else max 0 (tr_errCount ?t - 1))"
    using record_failing [OF tok, of w] record_clean [OF tok, of w] fit assms(4) t rt by (auto simp: max_def)
  show thr: "tr_threshold (runner_tracker i st') = tr_threshold ?t" using tracker_record_static(2) [of w ?t] t rt by simp
  show "snapshot_dead snap \<longleftrightarrow> \<not> budget_left (runner_tracker i st')"
    using record_dead_iff [OF tok fit] t thr rt by (auto simp: e budget_left_def)
  show "runner_ok (su_runners st' ! i)"
    using assms(2,4,5) b err thr rt by (simp add: runner_ok_def e)
qed

section \<open>Preservation\<close>

lemma sup_ok_outside: "only_outside st st' \<Longrightarrow> sup_ok st \<Longrightarrow> sup_ok st'"
  using outside_fields [of st st'] by (auto simp: sup_ok_def)

lemma system_ok_outside:
  assumes "system_ok s" "only_outside (sy_sup s) st"
  shows "system_ok (s\<lparr>sy_sup := st\<rparr>)"
proof -
  from outside_fields [OF assms(2)] have "su_gate st = su_gate (sy_sup s)" "su_runners st = su_runners (sy_sup s)"
    "runner_tracker i st = runner_tracker i (sy_sup s)" for i by blast+
  with assms sup_ok_outside [OF assms(2)] show ?thesis by (simp add: system_ok_def gate_owned_def)
qed

lemma system_ok_runner:
  assumes "system_ok s" "i < length (sy_phase s)" "framed i (sy_sup s) st"
    and "runner_ok (su_runners st ! i)" "phase_ok (su_gate (sy_sup s)) (runner_tracker i st) p"
  shows "system_ok (set_phase i p st s)"
proof -
  from assms(3) have f: "su_gate st = su_gate (sy_sup s)" "su_events st = su_events (sy_sup s)"
    "su_capacity st = su_capacity (sy_sup s)" "length (su_runners st) = length (su_runners (sy_sup s))"
    "\<And>j. j \<noteq> i \<Longrightarrow> su_runners st ! j = su_runners (sy_sup s) ! j"
    by (auto simp: framed_def)
  then have "list_all runner_ok (su_runners st)"
    using assms(1,4) by (auto simp: system_ok_def sup_ok_def list_all_length) (metis assms(4))
  then show ?thesis
    using assms(1,2,5) f by (auto simp: system_ok_def sup_ok_def set_phase_def gate_owned_def nth_list_update runner_tracker_def)
qed

lemma system_ok_phase:
  assumes "system_ok s" "i < length (sy_phase s)" "phase_ok (su_gate (sy_sup s)) (runner_tracker i (sy_sup s)) p"
  shows "system_ok (set_phase i p (set_world w (sy_sup s)) s)"
proof (rule system_ok_runner [OF assms(1,2)])
  show "runner_ok (su_runners (set_world w (sy_sup s)) ! i)"
    using assms(1,2) by (simp add: system_ok_def sup_ok_def list_all_length)
qed (use assms in simp_all)

lemma system_ok_at:
  assumes "system_ok s" "i < length (sy_phase s)"
  shows "i < length (su_runners (sy_sup s))" "runner_ok (su_runners (sy_sup s) ! i)"
    "phase_ok (su_gate (sy_sup s)) (runner_tracker i (sy_sup s)) (sy_phase s ! i)"
  using assms by (simp_all add: system_ok_def sup_ok_def list_all_length)

text \<open>Any change of the gate that keeps it well-formed keeps tickets issued.\<close>

lemma phase_ok_gate:
  assumes "phase_ok g t p" "\<And>c. gate_issued c g \<Longrightarrow> gate_issued c g'"
  shows "phase_ok g' t p"
  using assms by (auto simp: phase_ok_def split: phase.splits)

lemma issued_resume: "gate_resume g = Some g' \<Longrightarrow> gate_issued c g \<Longrightarrow> gate_issued c g'"
  by (auto simp: gate_defs split: if_splits)

lemma issued_pause: "gate_issued c g \<Longrightarrow> gate_issued c (gate_pause g)"
  by (auto simp: gate_defs)

lemma system_ok_gate:
  assumes "system_ok s" "su_runners st = su_runners (sy_sup s)" "su_capacity st = su_capacity (sy_sup s)"
    and "length (su_events st) \<le> su_capacity st" "list_all (event_ok (length (su_runners st))) (su_events st)"
    and "gate_ok (su_gate st)" "\<And>c. gate_issued c (su_gate (sy_sup s)) \<Longrightarrow> gate_issued c (su_gate st)"
    and "sy_sup s' = st" "sy_phase s' = sy_phase s" "gate_owned s'"
  shows "system_ok s'"
proof -
  have "phase_ok (su_gate st) (runner_tracker i st) (sy_phase s ! i)" if "i < length (sy_phase s)" for i
  proof (rule phase_ok_gate [OF _ assms(7)])
    show "phase_ok (su_gate (sy_sup s)) (runner_tracker i st) (sy_phase s ! i)"
      using assms(1,2) that by (simp add: system_ok_def runner_tracker_def)
  qed
  then show ?thesis using assms by (simp add: system_ok_def sup_ok_def)
qed

lemma heal_keeps:
  "runner_ok r \<Longrightarrow> runner_ok (runner_heal HealPoints r) \<and>
     (budget_left (rn_tracker r) \<longrightarrow> budget_left (rn_tracker (runner_heal HealPoints r)))"
  using heal_spent [OF runner_ok_tracker, of r HealPoints]
  by (auto simp: runner_ok_def runner_heal_def HealPoints_def budget_left_def)

lemma gate_owned_same:
  "gate_owned s \<Longrightarrow> su_gate (sy_sup s') = su_gate (sy_sup s) \<Longrightarrow> sy_watch s' = sy_watch s \<Longrightarrow>
     sy_handler s' = sy_handler s \<Longrightarrow> gate_owned s'"
  by (simp add: gate_owned_def)

lemma system_ok_open:
  assumes "system_ok s" "resumeAll st = Some st'" "only_outside (sy_sup s) st"
    and "sy_sup s' = st'" "sy_phase s' = sy_phase s"
  shows "system_ok s'"
proof (rule system_ok_gate [where st = st' and s = s])
  note o = outside_fields [OF assms(3)] and r = resumeAll_fields [OF assms(2)]
  show "su_runners st' = su_runners (sy_sup s)" "su_capacity st' = su_capacity (sy_sup s)"
    using o r by simp_all
  show "length (su_events st') \<le> su_capacity st'" "list_all (event_ok (length (su_runners st'))) (su_events st')"
    using o r assms(1) by (simp_all add: system_ok_def sup_ok_def)
  show "gate_ok (su_gate st')"
    using o r assms(1) gate_ok_resume by (metis system_ok_def sup_ok_def)
  show "\<And>c. gate_issued c (su_gate (sy_sup s)) \<Longrightarrow> gate_issued c (su_gate st')"
    using o r issued_resume by metis
  show "gate_owned s'"
    using r gate_resume_open assms(4) by (auto simp: gate_owned_def)
qed (use assms in simp_all)

lemma system_ok_pause:
  assumes "system_ok s" "su_runners st = su_runners (sy_sup s)" "su_gate st = su_gate (sy_sup s)"
    and "su_capacity st = su_capacity (sy_sup s)" "length (su_events st) \<le> su_capacity st"
    and "list_all (event_ok (length (su_runners st))) (su_events st)"
    and "sy_sup s' = pauseAll st" "sy_phase s' = sy_phase s"
    and "(\<exists>i. sy_handler s' = Restarting i) \<or> sy_watch s' = Watching True"
  shows "system_ok s'"
proof (rule system_ok_gate [where st = "pauseAll st" and s = s])
  show "gate_ok (su_gate (pauseAll st))"
    using assms(1,3) by (simp add: system_ok_def sup_ok_def gate_ok_pause)
  show "\<And>c. gate_issued c (su_gate (sy_sup s)) \<Longrightarrow> gate_issued c (su_gate (pauseAll st))"
    using assms(3) by (simp add: issued_pause)
  show "gate_owned s'" using assms(9) by (simp add: gate_owned_def)
qed (use assms in simp_all)

lemma system_ok_heal:
  assumes "system_ok s"
  shows "system_ok (s\<lparr>sy_sup := healAll (sy_sup s)\<rparr>)"
proof -
  have h: "runner_ok (runner_heal HealPoints r) \<and> (budget_left (rn_tracker r) \<longrightarrow> budget_left (rn_tracker (runner_heal HealPoints r)))"
    if "r \<in> set (su_runners (sy_sup s))" for r
    using assms that heal_keeps by (auto simp: system_ok_def sup_ok_def list_all_iff)
  have "phase_ok (su_gate (sy_sup s)) (rn_tracker (runner_heal HealPoints (su_runners (sy_sup s) ! i))) (sy_phase s ! i)"
    if i: "i < length (su_runners (sy_sup s))" for i
  proof -
    from assms i have "phase_ok (su_gate (sy_sup s)) (rn_tracker (su_runners (sy_sup s) ! i)) (sy_phase s ! i)"
      by (simp add: system_ok_def runner_tracker_def)
    with h [OF nth_mem [OF i]] show ?thesis by (auto simp: phase_ok_def split: phase.splits)
  qed
  then show ?thesis
    using assms h by (simp add: system_ok_def sup_ok_def healAll_def gate_owned_def runner_tracker_def list_all_iff)
qed

lemma exhaust_keeps:
  assumes "i < length (su_runners st)" "runner_ok (su_runners st ! i)"
  shows "framed i st (exhaust i st) \<and> runner_ok (su_runners (exhaust i st) ! i) \<and> budget_left (runner_tracker i (exhaust i st))"
  using assms by (auto simp: exhaust_def Let_def framed_def upd_runner_nth runner_ok_def budget_left_def runner_tracker_def)

lemma watch_turn_cases:
  assumes "watch_turn d docker held st = Some (held', st')"
  obtains (stop) w where "held' = None" "\<not> held" "st' = set_world w st"
  | (stop_resume) w where "held' = None" "held" "resumeAll (set_world w st) = Some st'"
  | (lost) w where "held' = Some True" "\<not> held" "st' = pauseAll (set_world w st)"
  | (recovered) w u where "held' = Some False" "held" "resumeAll (set_world w st) = Some u" "st' = healAll u"
  | (same) w where "held' = Some held" "st' = set_world w st"
  using assms by (auto simp: watch_turn_def Let_def split: prod.splits option.splits if_splits)

lemma system_ok_step:
  assumes "sys_step d s s'" "system_ok s"
  shows "system_ok s'"
  using assms
proof (cases rule: sys_step.cases)
  case (ask i)
  have "gate_issued (gate_ticket (su_gate (sy_sup s))) (su_gate (sy_sup s))"
    using assms(2) gate_ok_open by (auto simp: system_ok_def sup_ok_def gate_issued_def gate_ticket_def)
  moreover have "budget_left (runner_tracker i (sy_sup s))"
    using ask assms(2) by (force simp: system_ok_def phase_ok_def)
  ultimately show ?thesis
    using ask system_ok_phase [OF assms(2), of i "Waiting (gate_ticket (su_gate (sy_sup s)))" "su_world (sy_sup s)"]
    by (simp add: phase_ok_def set_world_def)
next
  case (gate_cancelled i c e)
  then show ?thesis using system_ok_phase [OF assms(2), of i Stopped "su_world (sy_sup s)"]
    by (simp add: phase_ok_def set_world_def)
next
  case (enter_round i c)
  then have "budget_left (runner_tracker i (sy_sup s))" using assms(2) by (force simp: system_ok_def phase_ok_def)
  then show ?thesis
    using enter_round system_ok_phase [OF assms(2), of i "InRound 0 0" "su_world (sy_sup s)"]
    by (simp add: phase_ok_def set_world_def)
next
  case (probe i k weight weight' st)
  note ph = system_ok_at [OF assms(2) probe(2)]
  have p: "budget_left (runner_tracker i (sy_sup s))" "0 \<le> weight" "weight \<le> 1000 * int k"
    using ph(3) probe(3) by (simp_all add: phase_ok_def)
  have k: "k < 1000" using ph(2) probe(4) by (simp add: runner_ok_def check_ok_def runner_check_def)
  have "lc_Probes (runner_check i (sy_sup s)) ! k \<in> set (lc_Probes (runner_check i (sy_sup s)))" using probe(4) by simp
  from probe_keeps [OF ph(1,2) this p(2,3) k probe(5)] run_probe_fields [OF ph(1) probe(5)] p(1) k probe(1,2)
  show ?thesis by (auto intro!: system_ok_runner [OF assms(2)] simp: phase_ok_def)
next
  case (conclude i k weight snap st)
  note ph = system_ok_at [OF assms(2) conclude(2)]
  have p: "budget_left (runner_tracker i (sy_sup s))" "0 \<le> weight" "weight \<le> 1000000"
    using ph(3) conclude(3) by (auto simp: phase_ok_def)
  have "framed i (sy_sup s) st" using framed_conclude [of i "sy_sup s" d weight] conclude(5) by simp
  with conclude_outcome [OF ph(1,2) p conclude(5)] conclude(1,2) show ?thesis
    by (auto intro!: system_ok_runner [OF assms(2)] simp: phase_ok_def)
next
  case (sleep_cancelled i snap delay e w)
  then show ?thesis using system_ok_phase [OF assms(2), of i Stopped w] by (simp add: phase_ok_def)
next
  case (sleep_alive i snap delay w)
  then have "budget_left (runner_tracker i (sy_sup s))"
    using assms(2) by (force simp: system_ok_def phase_ok_def)
  then show ?thesis using sleep_alive system_ok_phase [OF assms(2), of i AtGate w] by (simp add: phase_ok_def)
next
  case (sleep_dead i snap delay w)
  let ?st = "set_world w (sy_sup s)"
  have "i < length (su_runners ?st)" "runner_ok (su_runners ?st ! i)"
    using sleep_dead assms(2) by (auto simp: system_ok_def sup_ok_def list_all_length)
  from exhaust_keeps [OF this] have "framed i (sy_sup s) (exhaust i ?st)"
    "runner_ok (su_runners (exhaust i ?st) ! i)" "budget_left (runner_tracker i (exhaust i ?st))"
    by (auto intro: framed_trans [OF framed_steps(3)])
  then show ?thesis using sleep_dead by (auto intro!: system_ok_runner [OF assms(2)] simp: phase_ok_def)
next
  case (send i snap st)
  then have ph: "snapshot_dead snap" "budget_left (runner_tracker i (sy_sup s))" and i: "i < length (su_runners (sy_sup s))"
    using assms(2) by (force simp: system_ok_def phase_ok_def)+
  have st: "st = (sy_sup s)\<lparr>su_events := su_events (sy_sup s) @ [\<lparr>ev_Check = i, ev_Snapshot = snap\<rparr>]\<rparr>"
    "length (su_events (sy_sup s)) < su_capacity (sy_sup s)"
    using send(4) by (auto simp: send_event_def split: if_splits)
  have "system_ok (set_phase i AtGate (set_world (su_world (sy_sup s)) (sy_sup s)) s)"
    using send ph by (intro system_ok_phase [OF assms(2)]) (simp_all add: phase_ok_def)
  then show ?thesis
    using send st ph i by (simp add: system_ok_def sup_ok_def set_phase_def set_world_def event_ok_def gate_owned_def runner_tracker_def)
next
  case (send_cancelled i snap e)
  then show ?thesis using system_ok_phase [OF assms(2), of i Stopped "su_world (sy_sup s)"]
    by (simp add: phase_ok_def set_world_def)
next
  case (take_notify e es st)
  let ?s = "s\<lparr>sy_sup := (sy_sup s)\<lparr>su_events := es\<rparr>, sy_handled := sy_handled s @ [e]\<rparr>"
  have "system_ok ?s"
    using assms(2) take_notify(3) by (auto simp: system_ok_def sup_ok_def gate_owned_def runner_tracker_def)
  moreover have "only_outside (sy_sup ?s) st"
    using handle_notify [of e "(sy_sup s)\<lparr>su_events := es\<rparr>" d] take_notify by (auto simp: runner_check_def)
  moreover have "s' = ?s\<lparr>sy_sup := st\<rparr>" using take_notify by simp
  ultimately show ?thesis using system_ok_outside by metis
next
  case (take_restart e es)
  then show ?thesis
    using assms(2) by (intro system_ok_pause [OF assms(2), of "(sy_sup s)\<lparr>su_events := es\<rparr>"]) (auto simp: system_ok_def sup_ok_def)
next
  case (finish_restart i st)
  then show ?thesis
    by (intro system_ok_open [OF assms(2) finish_restart(3)]) (simp_all add: outside_intros)
next
  case (handler_stops e)
  then show ?thesis using assms(2) by (auto simp: system_ok_def gate_owned_def)
next
  case (watch held docker held' st)
  have ok: "system_ok (s\<lparr>sy_sup := set_world w (sy_sup s)\<rparr>)" for w
    using system_ok_outside [OF assms(2), of "set_world w (sy_sup s)"] by (simp add: outside_intros)
  from watch(4) show ?thesis
  proof (cases rule: watch_turn_cases)
    case (stop w)
    with ok [of w] watch show ?thesis
      by (auto simp: system_ok_def gate_owned_def)
  next
    case (stop_resume w)
    then show ?thesis
      using watch by (intro system_ok_open [OF assms(2) stop_resume(3)]) (simp_all add: outside_intros)
  next
    case (lost w)
    then show ?thesis
      using watch assms(2) by (intro system_ok_pause [OF assms(2), of "set_world w (sy_sup s)"]) (simp_all add: system_ok_def sup_ok_def)
  next
    case (recovered w u)
    have "system_ok (s\<lparr>sy_sup := u, sy_watch := Watching False\<rparr>)"
      by (rule system_ok_open [OF assms(2) recovered(3)]) (simp_all add: outside_intros)
    moreover have "s' = (s\<lparr>sy_sup := u, sy_watch := Watching False\<rparr>)
        \<lparr>sy_sup := healAll (sy_sup (s\<lparr>sy_sup := u, sy_watch := Watching False\<rparr>))\<rparr>"
      using recovered watch by simp
    ultimately show ?thesis using system_ok_heal by metis
  next
    case (same w)
    with ok [of w] watch show ?thesis
      by (auto simp: system_ok_def gate_owned_def)
  qed
next
  case (outside w)
  then show ?thesis using system_ok_outside [OF assms(2), of "set_world w (sy_sup s)"] by (simp add: outside_intros)
qed

section \<open>What never changes\<close>

definition bare :: "'w live_check \<Rightarrow> 'w live_check" where
  "bare c = c\<lparr>ck_transcript := []\<rparr>"

definition statics :: "'w sup \<Rightarrow> ('w live_check \<times> int) list" where
  "statics st = map (\<lambda>r. (bare (rn_check r), tr_threshold (rn_tracker r))) (su_runners st)"

lemma bare_fields [simp]:
  "ck_Interval (bare c) = ck_Interval c" "ck_DeadDelay (bare c) = ck_DeadDelay c" "ck_Event (bare c) = ck_Event c"
  by (simp_all add: bare_def)

lemma bare_check_record [simp]: "bare (check_record ls c) = bare c"
  by (simp add: bare_def check_record_def Let_def)

lemma statics_upd:
  "bare (rn_check (f (su_runners st ! i))) = bare (rn_check (su_runners st ! i)) \<Longrightarrow>
   tr_threshold (rn_tracker (f (su_runners st ! i))) = tr_threshold (rn_tracker (su_runners st ! i)) \<Longrightarrow>
     statics (upd_runner i f st) = statics st"
  by (auto simp: statics_def upd_runner_def list_eq_iff_nth_eq)
    (metis nth_list_update_eq nth_list_update_neq)+

lemma statics_same: "su_runners st' = su_runners st \<Longrightarrow> statics st' = statics st"
  by (simp add: statics_def)

lemma statics_run_probe: "statics (snd (run_probe d i p a)) = statics (snd a)"
  by (auto simp: run_probe_def Let_def statics_upd statics_same [of "upd_metrics _ _"] statics_same [of "set_world _ _"]
      split: prod.splits)

lemma statics_conclude:
  "statics (snd (conclude_round d i weight st)) = statics st"
proof -
  obtain s t where t: "tracker_record weight (runner_tracker i st) = (s, t)" by (cases "tracker_record weight (runner_tracker i st)")
  then have "tr_threshold t = tr_threshold (rn_tracker (su_runners st ! i))"
    using tracker_record_static(2) [of weight "runner_tracker i st"] by (simp add: runner_tracker_def)
  with t show ?thesis
    by (simp add: conclude_round_def publish_def Let_def statics_upd statics_same [of "upd_metrics _ _"] statics_same [of "set_world _ _"])
qed

lemma statics_step:
  assumes "sys_step d s s'"
  shows "statics (sy_sup s') = statics (sy_sup s)"
  using assms
proof (cases rule: sys_step.cases)
  case (probe i k weight weight' st)
  with statics_run_probe [of d i _ "(weight, sy_sup s)"] show ?thesis by (simp add: set_phase_def) (metis snd_conv)
next
  case (conclude i k weight snap st)
  with statics_conclude [of d i weight "sy_sup s"] show ?thesis by (simp add: set_phase_def)
next
  case (sleep_dead i snap delay w)
  then show ?thesis
    by (simp add: set_phase_def exhaust_def Let_def statics_upd statics_same [of "upd_metrics _ _"] statics_same [of "set_world _ _"])
next
  case (send i snap st)
  then show ?thesis by (auto simp: set_phase_def send_event_def statics_def split: if_splits)
next
  case (take_notify e es st)
  then have "only_outside ((sy_sup s)\<lparr>su_events := es\<rparr>) st"
    using handle_notify [of e "(sy_sup s)\<lparr>su_events := es\<rparr>" d] by (auto simp: runner_check_def)
  then show ?thesis using take_notify outside_fields by (fastforce intro: statics_same)
next
  case (finish_restart i st)
  have "only_outside (sy_sup s) (restart_body d i (sy_sup s))" by (simp add: outside_intros)
  then show ?thesis using finish_restart resumeAll_fields outside_fields by (fastforce intro!: statics_same)
next
  case (watch held docker held' st)
  from watch(4) show ?thesis
  proof (cases rule: watch_turn_cases)
    case (recovered w u)
    then have "su_runners u = su_runners (sy_sup s)" using resumeAll_fields by fastforce
    then show ?thesis using recovered watch
      by (simp add: statics_def healAll_def runner_heal_def comp_def)
  qed (use watch in \<open>auto dest!: resumeAll_fields intro!: statics_same\<close>)
qed (auto simp: set_phase_def intro!: statics_same)

lemma statics_reachable: "reachable d st s \<Longrightarrow> statics (sy_sup s) = statics st"
  by (induction rule: reachable.induct) (simp_all add: system_start_def statics_step)

section \<open>Counting exhausted budgets\<close>

definition phases_with :: "(phase \<Rightarrow> bool) \<Rightarrow> 'w system \<Rightarrow> nat" where
  "phases_with P s = length (filter P (sy_phase s))"

fun is_sending :: "phase \<Rightarrow> bool" where
  "is_sending (Sending snap) = True"
| "is_sending p = False"

fun is_stopped :: "phase \<Rightarrow> bool" where
  "is_stopped Stopped = True"
| "is_stopped p = False"

text \<open>Events taken, queued or about to be sent.\<close>

definition raised :: "'w system \<Rightarrow> nat" where
  "raised s = length (sy_handled s) + length (su_events (sy_sup s)) + phases_with is_sending s"

lemma phases_update:
  "i < length xs \<Longrightarrow> length (filter P (xs[i := x])) + (if P (xs ! i) then 1 else 0)
     = length (filter P xs) + (if P x then 1 else 0)"
proof (induction xs arbitrary: i)
  case (Cons y ys)
  then show ?case by (cases i) (auto split: if_splits)
qed simp

lemma phases_set:
  "i < length (sy_phase s) \<Longrightarrow> phases_with P (set_phase i p st s) + (if P (sy_phase s ! i) then 1 else 0)
     = phases_with P s + (if P p then 1 else 0)"
  using phases_update [of i "sy_phase s" P p] by (simp add: phases_with_def set_phase_def)

lemma exhaustions_run_probe [simp]: "exhaustions (su_metrics (snd (run_probe d i p a))) = exhaustions (su_metrics (snd a))"
  by (simp add: run_probe_def Let_def split: prod.splits)

lemma exhaustions_conclude [simp]: "exhaustions (su_metrics (snd (conclude_round d i w st))) = exhaustions (su_metrics st)"
  by (auto simp: conclude_round_def publish_def Let_def split: prod.splits)

definition counted :: "nat \<Rightarrow> 'w system \<Rightarrow> bool" where
  "counted base s \<longleftrightarrow> base + raised s \<le> exhaustions (su_metrics (sy_sup s)) \<and>
     exhaustions (su_metrics (sy_sup s)) \<le> base + raised s + phases_with is_stopped s"

lemma exhaust_count [simp]: "exhaustions (su_metrics (exhaust i st)) = Suc (exhaustions (su_metrics st))"
  by (simp add: exhaust_def Let_def)

lemma exhaust_events [simp]: "su_events (exhaust i st) = su_events st"
  by (simp add: exhaust_def Let_def)

lemma counted_step:
  assumes "sys_step d s s'" "counted base s"
  shows "counted base s'"
  using assms(1)
proof (cases rule: sys_step.cases)
  case (ask i)
  then show ?thesis
    using assms(2) phases_set [of i s is_sending "Waiting (gate_ticket (su_gate (sy_sup s)))" "sy_sup s"]
      phases_set [of i s is_stopped "Waiting (gate_ticket (su_gate (sy_sup s)))" "sy_sup s"]
    by (simp add: counted_def raised_def) (simp add: set_phase_def)
next
  case (gate_cancelled i c e)
  then show ?thesis
    using assms(2) phases_set [of i s is_sending Stopped "sy_sup s"] phases_set [of i s is_stopped Stopped "sy_sup s"]
    by (simp add: counted_def raised_def) (simp add: set_phase_def)
next
  case (enter_round i c)
  then show ?thesis
    using assms(2) phases_set [of i s is_sending "InRound 0 0" "sy_sup s"] phases_set [of i s is_stopped "InRound 0 0" "sy_sup s"]
    by (simp add: counted_def raised_def) (simp add: set_phase_def)
next
  case (probe i k weight weight' st)
  let ?p = "InRound (Suc k) weight'"
  have "exhaustions (su_metrics st) = exhaustions (su_metrics (sy_sup s))" "su_events st = su_events (sy_sup s)"
    using exhaustions_run_probe [of d i _ "(weight, sy_sup s)"] framed_run_probe [of i "(weight, sy_sup s)" d] probe
    by (metis snd_conv framed_def)+
  then show ?thesis
    using probe assms(2) phases_set [of i s is_sending ?p st] phases_set [of i s is_stopped ?p st]
    by (simp add: counted_def raised_def) (simp add: set_phase_def)
next
  case (conclude i k weight snap st)
  let ?p = "if de_ctx d (su_world st) = None then Sleeping snap else Stopped"
  have "exhaustions (su_metrics st) = exhaustions (su_metrics (sy_sup s))" "su_events st = su_events (sy_sup s)"
    using exhaustions_conclude [of d i weight "sy_sup s"] framed_conclude [of i "sy_sup s" d weight] conclude by (simp_all add: framed_def)
  then show ?thesis
    using conclude assms(2) phases_set [of i s is_sending ?p st] phases_set [of i s is_stopped ?p st]
    by (simp add: counted_def raised_def split: if_splits) (simp_all add: set_phase_def)
next
  case (sleep_cancelled i snap delay e w)
  then show ?thesis
    using assms(2) phases_set [of i s is_sending Stopped "set_world w (sy_sup s)"] phases_set [of i s is_stopped Stopped "set_world w (sy_sup s)"]
    by (simp add: counted_def raised_def) (simp add: set_phase_def)
next
  case (sleep_alive i snap delay w)
  then show ?thesis
    using assms(2) phases_set [of i s is_sending AtGate "set_world w (sy_sup s)"] phases_set [of i s is_stopped AtGate "set_world w (sy_sup s)"]
    by (simp add: counted_def raised_def) (simp add: set_phase_def)
next
  case (sleep_dead i snap delay w)
  let ?st = "exhaust i (set_world w (sy_sup s))"
  show ?thesis
    using sleep_dead assms(2) phases_set [of i s is_sending "Sending snap" ?st] phases_set [of i s is_stopped "Sending snap" ?st]
    by (simp add: counted_def raised_def) (simp add: set_phase_def)
next
  case (send i snap st)
  then have "st = (sy_sup s)\<lparr>su_events := su_events (sy_sup s) @ [\<lparr>ev_Check = i, ev_Snapshot = snap\<rparr>]\<rparr>"
    by (auto simp: send_event_def split: if_splits)
  then show ?thesis
    using send assms(2) phases_set [of i s is_sending AtGate st] phases_set [of i s is_stopped AtGate st]
    by (simp add: counted_def raised_def) (simp add: set_phase_def)
next
  case (send_cancelled i snap e)
  then show ?thesis
    using assms(2) phases_set [of i s is_sending Stopped "sy_sup s"] phases_set [of i s is_stopped Stopped "sy_sup s"]
    by (simp add: counted_def raised_def) (simp add: set_phase_def)
next
  case (take_notify e es st)
  then have o: "only_outside ((sy_sup s)\<lparr>su_events := es\<rparr>) st"
    using handle_notify [of e "(sy_sup s)\<lparr>su_events := es\<rparr>" d] by (auto simp: runner_check_def)
  have "su_events st = es" "exhaustions (su_metrics st) = exhaustions (su_metrics (sy_sup s))"
    using outside_fields [OF o] outside_exhaustions [OF o] by simp_all
  then show ?thesis using take_notify assms(2) by (simp add: counted_def raised_def phases_with_def)
next
  case (take_restart e es)
  then show ?thesis using assms(2) by (simp add: counted_def raised_def phases_with_def)
next
  case (finish_restart i st)
  have o: "only_outside (sy_sup s) (restart_body d i (sy_sup s))" by (simp add: outside_intros)
  have "su_events st = su_events (sy_sup s)" "exhaustions (su_metrics st) = exhaustions (su_metrics (sy_sup s))"
    using resumeAll_fields [OF finish_restart(3)] outside_fields [OF o] outside_exhaustions [OF o] by simp_all
  then show ?thesis using finish_restart assms(2) by (simp add: counted_def raised_def phases_with_def)
next
  case (handler_stops e)
  then show ?thesis using assms(2) by (simp add: counted_def raised_def phases_with_def)
next
  case (watch held docker held' st)
  from watch(4) have "su_events st = su_events (sy_sup s) \<and> exhaustions (su_metrics st) = exhaustions (su_metrics (sy_sup s))"
  proof (cases rule: watch_turn_cases)
    case (stop_resume w)
    then show ?thesis using resumeAll_fields by fastforce
  next
    case (recovered w u)
    then show ?thesis using resumeAll_fields [OF recovered(3)] by (simp add: healAll_def)
  qed simp_all
  then show ?thesis using watch assms(2) by (simp add: counted_def raised_def phases_with_def)
next
  case (outside w)
  then show ?thesis using assms(2) by (simp add: counted_def raised_def phases_with_def)
qed

section \<open>From New onwards\<close>

lemma fold_init_check: "exhaustions (fold (\<lambda>c. init_check (ck_Name c) (ck_Threshold c)) cs m) = exhaustions m"
  by (induction cs arbitrary: m) simp_all

lemma supervisor_new_ok:
  assumes "supervisor_new checks (Some m) (Some store) w = Some (Inr st)" "list_all check_ok checks"
  shows "system_ok (system_start d st) \<and> counted (exhaustions m) (system_start d st) \<and>
    su_capacity st = length checks \<and> statics st = map (\<lambda>c. (bare c, max 1 (ck_Threshold c))) checks"
proof -
  have st: "st = \<lparr>su_runners = map new_runner checks, su_gate = \<lparr>g_open = 0, g_fresh = 1, g_closed = [0]\<rparr>,
      su_metrics = fold (\<lambda>c. init_check (ck_Name c) (ck_Threshold c)) checks m,
      su_events = [], su_capacity = length checks, su_world = w\<rparr>"
    using assms(1) by (auto simp: supervisor_new_def split: if_splits)
  have "list_all runner_ok (map new_runner checks)"
    using assms(2) by (auto simp: list_all_iff runner_ok_def new_runner_def check_ok_def)
  then have "system_ok (system_start d st)"
    by (auto simp: st system_ok_def sup_ok_def system_start_def phase_ok_def budget_left_def runner_tracker_def
        new_runner_def gate_owned_def gate_paused_def recv_ready_def gate_ok_def lessThan_Suc)
  moreover have "counted (exhaustions m) (system_start d st)"
    by (simp add: st counted_def raised_def system_start_def phases_with_def fold_init_check)
  ultimately show ?thesis by (simp add: st statics_def new_runner_def)
qed

lemma reachable_invariant:
  assumes "reachable d st s" "system_ok (system_start d st)"
  shows "system_ok s \<and> statics (sy_sup s) = statics st \<and> su_capacity (sy_sup s) = su_capacity st \<and>
    (counted base (system_start d st) \<longrightarrow> counted base s)"
  using assms(1)
proof induction
  case reach_start
  then show ?case using assms(2) by (simp add: system_start_def)
next
  case (reach_step s s')
  have "su_capacity (sy_sup s') = su_capacity (sy_sup s)"
    using reach_step(2)
  proof (cases rule: sys_step.cases)
    case (probe i k weight weight' st)
    then show ?thesis using framed_run_probe [of i "(weight, sy_sup s)" d] by (simp add: set_phase_def framed_def) (metis snd_conv)
  next
    case (conclude i k weight snap st)
    then show ?thesis using framed_conclude [of i "sy_sup s" d weight] by (simp add: set_phase_def framed_def)
  next
    case (take_notify e es st)
    then have "only_outside ((sy_sup s)\<lparr>su_events := es\<rparr>) st"
      using handle_notify [of e "(sy_sup s)\<lparr>su_events := es\<rparr>" d] by (auto simp: runner_check_def)
    then show ?thesis using take_notify outside_fields by fastforce
  next
    case (finish_restart i st)
    have "only_outside (sy_sup s) (restart_body d i (sy_sup s))" by (simp add: outside_intros)
    then show ?thesis using finish_restart resumeAll_fields outside_fields by fastforce
  next
    case (watch held docker held' st)
    from watch(4) show ?thesis
    proof (cases rule: watch_turn_cases)
      case (recovered w u)
      then show ?thesis using watch resumeAll_fields [OF recovered(3)] by (simp add: healAll_def)
    qed (use watch in \<open>auto dest!: resumeAll_fields\<close>)
  qed (auto simp: set_phase_def send_event_def exhaust_def Let_def split: if_splits)
  then show ?case
    using reach_step.IH system_ok_step [OF reach_step.hyps(2)] statics_step [OF reach_step.hyps(2)]
      counted_step [OF reach_step.hyps(2), of base] by simp
qed

section \<open>Properties\<close>

text \<open>C5. No event without an exhausted budget, and no queue beyond its buffer: in every reachable state of
  the running watchdog each queued event names one of its checks and carries a snapshot with no
  points left, the queue is never longer than the number of checks (one check may have two events in
  it), and every check that asks at the gate, waits there or probes has budget left, so a breach is
  always a breach of a budget that was whole before.\<close>

theorem events_come_from_exhausted_budgets:
  assumes "supervisor_new checks (Some m) (Some store) w = Some (Inr st)" "list_all check_ok checks"
    and "reachable d st s"
  shows "list_all (\<lambda>e. ev_Check e < length checks \<and> snapshot_dead (ev_Snapshot e)) (su_events (sy_sup s)) \<and>
    length (su_events (sy_sup s)) \<le> length checks \<and>
    list_all (\<lambda>i. case sy_phase s ! i of
        AtGate \<Rightarrow> 0 \<le> tr_errCount (runner_tracker i (sy_sup s)) \<and> budget_left (runner_tracker i (sy_sup s))
      | Waiting c \<Rightarrow> 0 \<le> tr_errCount (runner_tracker i (sy_sup s)) \<and> budget_left (runner_tracker i (sy_sup s))
      | InRound k w \<Rightarrow> 0 \<le> tr_errCount (runner_tracker i (sy_sup s)) \<and> budget_left (runner_tracker i (sy_sup s))
      | _ \<Rightarrow> True) [0..<length checks]"
proof -
  have n: "system_ok (system_start d st)" "su_capacity st = length checks" "statics st = map (\<lambda>c. (bare c, max 1 (ck_Threshold c))) checks"
    using supervisor_new_ok [OF assms(1,2), of d] by simp_all
  have r: "system_ok s" "statics (sy_sup s) = statics st" "su_capacity (sy_sup s) = length checks"
    using reachable_invariant [OF assms(3) n(1)] n(2) by simp_all
  from r(2) n(3) have "length (su_runners (sy_sup s)) = length checks"
    by (metis length_map statics_def)
  then show ?thesis
    using r by (auto simp: system_ok_def sup_ok_def list_all_iff list_all_length event_ok_def phase_ok_def runner_ok_def
        runner_tracker_def split: phase.splits)
qed

text \<open>C9. The checks are never left behind a closed gate: whenever a reachable state has the gate closed,
  a restart is under way or the watcher holds it because the Docker API is gone, and both open it
  again; and a check waiting on a channel of the gate, whichever one it is, can go on in every
  state where neither is the case.\<close>

theorem closed_gate_has_an_owner:
  assumes "supervisor_new checks (Some m) (Some store) w = Some (Inr st)" "list_all check_ok checks"
    and "reachable d st s" "\<not> ((\<exists>i. sy_handler s = Restarting i) \<or> sy_watch s = Watching True)"
  shows "\<not> gate_paused (su_gate (sy_sup s)) \<and>
    list_all (\<lambda>i. case sy_phase s ! i of Waiting c \<Rightarrow> recv_ready c (su_gate (sy_sup s)) | _ \<Rightarrow> True) [0..<length (sy_phase s)]"
proof -
  have ok: "system_ok s"
    using reachable_invariant [OF assms(3)] supervisor_new_ok [OF assms(1,2), of d] by blast
  then have open_gate: "\<not> gate_paused (su_gate (sy_sup s))"
    using assms(4) by (auto simp: system_ok_def gate_owned_def)
  have "recv_ready c (su_gate (sy_sup s))" if "gate_issued c (su_gate (sy_sup s))" for c
    using gate_ok_issued [of "su_gate (sy_sup s)" c] that ok open_gate
    by (auto simp: system_ok_def sup_ok_def gate_paused_def)
  then show ?thesis
    using ok open_gate by (fastforce simp: system_ok_def phase_ok_def list_all_length split: phase.splits)
qed

text \<open>C4. Every exhausted budget becomes exactly one event: in each reachable state the exhausted budgets
  counted in the metrics since the start are the events handled, those queued and those about to be
  sent, up to at most one per check that has stopped because the watchdog is shutting down.\<close>

theorem exhausted_budgets_become_events:
  assumes "supervisor_new checks (Some m) (Some store) w = Some (Inr st)" "list_all check_ok checks"
    and "reachable d st s"
  shows "raised s \<le> exhaustions (su_metrics (sy_sup s)) - exhaustions m \<and>
    exhaustions (su_metrics (sy_sup s)) - exhaustions m \<le> raised s + phases_with is_stopped s \<and>
    exhaustions m \<le> exhaustions (su_metrics (sy_sup s))"
proof -
  have "counted (exhaustions m) s"
    using reachable_invariant [OF assms(3)] supervisor_new_ok [OF assms(1,2), of d] by blast
  then show ?thesis unfolding counted_def by linarith
qed

text \<open>An interval Pick can draw from: the argument of its draw does not overflow. A window whose upper
  bound is not above the lower one, a wrapped one included, is drawn from as its lower bound.\<close>

definition interval_ok :: "interval \<Rightarrow> bool" where
  "interval_ok i \<longleftrightarrow> in64 (iv_Min i) \<and> in64 (iv_Max i) \<and> iv_Max i - iv_Min i < max_int64"

lemma check_stays:
  assumes "statics st = map (\<lambda>c. (bare c, max 1 (ck_Threshold c))) checks"
    and "reachable d st s" "i < length checks"
  shows "ck_Interval (runner_check i (sy_sup s)) = ck_Interval (checks ! i) \<and>
    ck_DeadDelay (runner_check i (sy_sup s)) = ck_DeadDelay (checks ! i)"
proof -
  have "statics (sy_sup s) = map (\<lambda>c. (bare c, max 1 (ck_Threshold c))) checks"
    using statics_reachable [OF assms(2)] assms(1) by simp
  then have "bare (runner_check i (sy_sup s)) = bare (checks ! i)"
    using assms(3) unfolding statics_def runner_check_def by (metis (no_types, lifting) fst_conv length_map nth_map)
  then show ?thesis by (metis bare_fields)
qed

text \<open>A step after which the watcher counts the API as lost and no container is being restarted.\<close>

definition outage_step :: "'w deps \<Rightarrow> 'w system \<Rightarrow> 'w system \<Rightarrow> bool" where
  "outage_step d s s' \<longleftrightarrow> sys_step d s s' \<and> sy_watch s' = Watching True \<and> (\<forall>i. sy_handler s' \<noteq> Restarting i)"

lemma outage_step_gate:
  assumes "outage_step d s s'" "sy_watch s = Watching True" "\<forall>i. sy_handler s \<noteq> Restarting i"
  shows "su_gate (sy_sup s') = su_gate (sy_sup s)"
proof -
  from assms(1) have s': "sys_step d s s'" "sy_watch s' = Watching True" "\<forall>i. sy_handler s' \<noteq> Restarting i"
    by (auto simp: outage_step_def)
  from s'(1) show ?thesis
  proof (cases rule: sys_step.cases)
    case (probe i k weight weight' st)
    show ?thesis using probe by (auto simp: run_probe_def Let_def split: prod.splits)
  next
    case (take_notify e es st)
    then have "only_outside ((sy_sup s)\<lparr>su_events := es\<rparr>) st"
      using handle_notify [of e "(sy_sup s)\<lparr>su_events := es\<rparr>" d] by (auto simp: runner_check_def)
    then show ?thesis using outside_fields take_notify(1) by fastforce
  next
    case (watch held docker held' st)
    from watch(4) show ?thesis
      by (cases rule: watch_turn_cases) (use watch s'(2) assms(2) in auto)
  qed (use s' assms(2,3) in \<open>auto simp: conclude_round_def publish_def exhaust_def send_event_def Let_def split: prod.splits if_splits\<close>)
qed

lemma outage_steps_gate:
  assumes "(outage_step d)\<^sup>*\<^sup>* s s'" "sy_watch s = Watching True" "\<forall>i. sy_handler s \<noteq> Restarting i"
  shows "su_gate (sy_sup s') = su_gate (sy_sup s) \<and> sy_watch s' = Watching True \<and> (\<forall>i. sy_handler s' \<noteq> Restarting i)"
  using assms(1)
proof (induction rule: rtranclp_induct)
  case (step y z)
  then show ?case using outage_step_gate [of d y z] by (auto simp: outage_step_def)
qed (use assms(2,3) in simp)

text \<open>C10. The two pauses are not counted, so the first that ends, ends both. When the Docker API is lost
  while a restart is under way, the restart's end is a step that opens the gate although the watcher
  still counts it as held, and the gate then stays open, whatever the runners, the handler, the
  watcher and the world do, until the watcher finds the API again or another restart begins: the
  checks run without the API, which the pause is meant to prevent. And when the API is found again
  first, the watcher's turn is a step that opens the gate although the container is still being
  restarted.\<close>

theorem pauses_are_not_counted:
  assumes "sy_handler s = Restarting i" "sy_watch s = Watching True"
  shows "(\<exists>st. sys_step d s (s\<lparr>sy_sup := st, sy_handler := Idle\<rparr>) \<and>
      (\<forall>s'. (outage_step d)\<^sup>*\<^sup>* (s\<lparr>sy_sup := st, sy_handler := Idle\<rparr>) s' \<longrightarrow>
        sy_watch s' = Watching True \<and> \<not> gate_paused (su_gate (sy_sup s')))) \<and>
    (\<forall>docker st. de_docker d = Some docker \<and> watch_turn d docker True (sy_sup s) = Some (Some False, st) \<longrightarrow>
      sys_step d s (s\<lparr>sy_sup := st, sy_watch := Watching False\<rparr>) \<and>
      sy_handler (s\<lparr>sy_sup := st, sy_watch := Watching False\<rparr>) = Restarting i \<and> \<not> gate_paused (su_gate st))"
proof (intro conjI allI impI)
  obtain st where st: "resumeAll (restart_body d i (sy_sup s)) = Some st" using resumeAll_Some by blast
  have "\<not> gate_paused (su_gate st)" using resumeAll_fields [OF st] gate_resume_open by blast
  moreover have "sys_step d s (s\<lparr>sy_sup := st, sy_handler := Idle\<rparr>)"
    using assms(1) st by (rule finish_restart)
  ultimately show "\<exists>st. sys_step d s (s\<lparr>sy_sup := st, sy_handler := Idle\<rparr>) \<and>
      (\<forall>s'. (outage_step d)\<^sup>*\<^sup>* (s\<lparr>sy_sup := st, sy_handler := Idle\<rparr>) s' \<longrightarrow>
        sy_watch s' = Watching True \<and> \<not> gate_paused (su_gate (sy_sup s')))"
    using outage_steps_gate [where s = "s\<lparr>sy_sup := st, sy_handler := Idle\<rparr>" and d = d] assms(2) by (intro exI [of _ st]) simp
next
  fix docker st
  assume "de_docker d = Some docker \<and> watch_turn d docker True (sy_sup s) = Some (Some False, st)"
  then have w: "de_docker d = Some docker" "watch_turn d docker True (sy_sup s) = Some (Some False, st)" by simp_all
  from watch [OF assms(2) w] show "sys_step d s (s\<lparr>sy_sup := st, sy_watch := Watching False\<rparr>)" by simp
  show "sy_handler (s\<lparr>sy_sup := st, sy_watch := Watching False\<rparr>) = Restarting i" using assms(1) by simp
  from w(2) show "\<not> gate_paused (su_gate st)"
  proof (cases rule: watch_turn_cases)
    case (recovered w' u)
    then show ?thesis using resumeAll_fields [OF recovered(3)] gate_resume_open by (auto simp: healAll_def)
  qed simp_all
qed

section \<open>Concrete instances\<close>

lemma demo_new:
  "supervisor_new [demo_check e :: unit live_check] (Some []) (Some silent_store) () = Some (Inr
     ((demo_sup e ())\<lparr>su_metrics := init_check ''nginx'' 5 []\<rparr>))"
  by (simp add: supervisor_new_def demo_sup_def) (simp add: demo_check_def)

lemma demo_priced:
  "priced (fixed_probe n (Critical x)) 1000" "priced (fixed_probe n (OK x)) 1000"
  by (simp_all add: priced_def fixed_probe_def)

lemma demo_check_ok: "list_all check_ok [demo_check e :: unit live_check]"
  by (simp add: check_ok_def) (simp add: demo_check_def demo_priced)

abbreviation demo_start :: "string \<Rightarrow> unit sup" where
  "demo_start e \<equiv> (demo_sup e ())\<lparr>su_metrics := init_check ''nginx'' 5 []\<rparr>"

definition demo_waiting :: "string \<Rightarrow> unit system" where
  "demo_waiting e = set_phase 0 (Waiting 0) (demo_start e) (system_start demo_deps (demo_start e))"

text \<open>The first check waits at the gate, then finds its HTTP probe failing.\<close>

lemma demo_waiting_reachable: "reachable demo_deps (demo_start e) (demo_waiting e)"
proof -
  let ?s = "system_start demo_deps (demo_start e)"
  have "sys_step demo_deps ?s (set_phase 0 (Waiting (gate_ticket (su_gate (sy_sup ?s)))) (sy_sup ?s) ?s)"
    by (rule ask) (simp_all add: system_start_def)
  moreover have "set_phase 0 (Waiting (gate_ticket (su_gate (sy_sup ?s)))) (sy_sup ?s) ?s = demo_waiting e"
    by (simp add: demo_waiting_def system_start_def gate_ticket_def) (simp add: demo_sup_def)
  ultimately show ?thesis using reach_step [OF reach_start] by metis
qed

definition demo_round :: "string \<Rightarrow> snapshot \<times> unit sup" where
  "demo_round e = runner_round demo_deps 0 (demo_start e)"

definition demo_asleep :: "string \<Rightarrow> unit system" where
  "demo_asleep e = set_phase 0 (Sleeping (fst (demo_round e))) (snd (demo_round e)) (demo_waiting e)"

lemma demo_asleep_reachable: "reachable demo_deps (demo_start e) (demo_asleep e)"
proof -
  have "(sys_step demo_deps)\<^sup>*\<^sup>* (demo_waiting e)
     (set_phase 0 (if de_ctx demo_deps (su_world (snd (demo_round e))) = None then Sleeping (fst (demo_round e)) else Stopped)
       (snd (demo_round e)) (demo_waiting e))"
    by (rule round_steps_are_runner_round [where c = 0])
      (simp_all add: demo_waiting_def set_phase_def system_start_def demo_round_def recv_ready_def, simp_all add: demo_sup_def)
  from reachable_steps [OF this demo_waiting_reachable] show ?thesis by (simp add: demo_asleep_def demo_deps_def)
qed

theorem events_come_from_exhausted_budgets_witness:
  "length (su_events (sy_sup (demo_asleep ''nginx-mailcow''))) \<le> 1 \<and>
   budget_left (runner_tracker 0 (sy_sup (demo_waiting ''nginx-mailcow'')))"
  using events_come_from_exhausted_budgets [OF demo_new demo_check_ok demo_asleep_reachable, of "''nginx-mailcow''"]
    events_come_from_exhausted_budgets [OF demo_new demo_check_ok demo_waiting_reachable, of "''nginx-mailcow''"]
  by (simp add: demo_waiting_def set_phase_def system_start_def)

theorem closed_gate_has_an_owner_witness:
  "recv_ready 0 (su_gate (sy_sup (demo_waiting ''nginx-mailcow'')))"
  using closed_gate_has_an_owner [OF demo_new demo_check_ok demo_waiting_reachable, of "''nginx-mailcow''"]
  by (simp add: demo_waiting_def set_phase_def system_start_def demo_deps_def)

theorem exhausted_budgets_become_events_witness:
  "raised (demo_asleep ''nginx-mailcow'') \<le> exhaustions (su_metrics (sy_sup (demo_asleep ''nginx-mailcow''))) - exhaustions []"
  using exhausted_budgets_become_events [OF demo_new demo_check_ok demo_asleep_reachable] by blast

text \<open>A check with a budget of one point, whose probe fails, beside a Docker API that answers while the
  world is \<open>True\<close>, which it is not at the start: once the check has used up its budget, the watcher
  closes the gate, and the check reports.\<close>

definition frail_check :: "string \<Rightarrow> bool live_check" where
  "frail_check e = (demo_check e)\<lparr>ck_Threshold := 1, lc_Probes := [fixed_probe ''http'' (Critical ''refused'')]\<rparr>"

definition frail_docker :: "bool docker_api" where
  "frail_docker = \<lparr>da_Find = \<lambda>s w. (Inl ''unreachable'', w), da_Restart = \<lambda>c w. (Some ''unreachable'', w),
     da_Running = \<lambda>c p w. (Inl ''unreachable'', w), da_Reachable = \<lambda>up. (up, up)\<rparr>"

definition frail_deps :: "bool deps" where
  "frail_deps = demo_deps\<lparr>de_docker := Some frail_docker\<rparr>"

definition frail_start :: "string \<Rightarrow> bool sup" where
  "frail_start e =
     \<lparr>su_runners = [new_runner (frail_check e)], su_gate = \<lparr>g_open = 0, g_fresh = 1, g_closed = [0]\<rparr>,
      su_metrics = init_check ''nginx'' 1 [], su_events = [], su_capacity = 1, su_world = False\<rparr>"

definition frail_round :: "string \<Rightarrow> snapshot \<times> bool sup" where
  "frail_round e = runner_round frail_deps 0 (frail_start e)"

definition frail_dead :: "string \<Rightarrow> bool system" where
  "frail_dead e = set_phase 0 (Sleeping (fst (frail_round e))) (snd (frail_round e)) (system_start frail_deps (frail_start e))"

definition frail_event :: "string \<Rightarrow> event" where
  "frail_event e = \<lparr>ev_Check = 0, ev_Snapshot = fst (frail_round e)\<rparr>"

definition frail_sent :: "string \<Rightarrow> bool system" where
  "frail_sent e = \<lparr>sy_sup = (exhaust 0 (pauseAll (snd (frail_round e))))\<lparr>su_events := [frail_event e]\<rparr>,
     sy_phase = [AtGate], sy_handler = Idle, sy_watch = Watching True, sy_handled = []\<rparr>"

lemma frail_new: "supervisor_new [frail_check e] (Some []) (Some silent_store) False = Some (Inr (frail_start e))"
  by (simp add: supervisor_new_def frail_start_def) (simp add: frail_check_def demo_check_def)

lemma frail_check_ok: "list_all check_ok [frail_check e]"
  by (simp add: check_ok_def) (simp add: frail_check_def demo_check_def demo_priced)

lemma frail_state:
  "snapshot_dead (fst (frail_round e))" "su_gate (snd (frail_round e)) = su_gate (frail_start e)" "su_events (snd (frail_round e)) = []"
  "su_capacity (snd (frail_round e)) = 1" "length (su_runners (snd (frail_round e))) = 1" "su_world (snd (frail_round e)) = False"
  "ck_Interval (runner_check 0 (snd (frail_round e))) = ck_Interval (frail_check e)"
  "ck_Event (runner_check 0 (snd (frail_round e))) = e"
  by code_simp+

lemma frail_reaches_dead: "(sys_step frail_deps)\<^sup>*\<^sup>* (system_start frail_deps (frail_start e)) (frail_dead e)"
proof -
  let ?s = "system_start frail_deps (frail_start e)"
  let ?w = "set_phase 0 (Waiting 0) (frail_start e) ?s"
  have s: "sy_phase ?s = [AtGate]" "sy_sup ?s = frail_start e" by (simp_all add: system_start_def) (simp add: frail_start_def)
  have "sys_step frail_deps ?s (set_phase 0 (Waiting (gate_ticket (su_gate (sy_sup ?s)))) (sy_sup ?s) ?s)"
    by (rule ask) (simp_all add: s)
  then have "sys_step frail_deps ?s ?w" by (simp add: s gate_ticket_def) (simp add: frail_start_def)
  moreover have "(sys_step frail_deps)\<^sup>*\<^sup>* ?w
      (set_phase 0 (if de_ctx frail_deps (su_world (snd (frail_round e))) = None then Sleeping (fst (frail_round e)) else Stopped)
        (snd (frail_round e)) ?w)"
    by (rule round_steps_are_runner_round [where c = 0])
      (simp_all add: s frail_round_def, simp_all add: frail_start_def recv_ready_def)
  then have "(sys_step frail_deps)\<^sup>*\<^sup>* ?w (frail_dead e)"
    by (simp add: frail_dead_def) (simp add: frail_deps_def demo_deps_def)
  ultimately show ?thesis by (rule converse_rtranclp_into_rtranclp)
qed

lemma same_world [simp]: "set_world (su_world st) st = st"
  by (simp add: set_world_def)

lemma frail_deps_fields:
  "de_sleep frail_deps t w = (None, w)" "de_ctx frail_deps w = None" "de_docker frail_deps = Some frail_docker"
  "da_Reachable frail_docker w = (w, w)" "de_rand frail_deps w n = 0"
  by (simp_all add: frail_deps_def frail_docker_def demo_deps_def)

lemma frail_reports: "(sys_step frail_deps)\<^sup>*\<^sup>* (frail_dead e) (frail_sent e)"
proof -
  let ?snap = "fst (frail_round e)" and ?st = "snd (frail_round e)"
  let ?a = "pauseAll ?st"
  let ?s1 = "(frail_dead e)\<lparr>sy_sup := ?a, sy_watch := Watching True\<rparr>"
  have f: "sy_phase (frail_dead e) = [Sleeping ?snap]" "sy_sup (frail_dead e) = ?st" "sy_handler (frail_dead e) = Idle"
    "sy_watch (frail_dead e) = Watching False" "sy_handled (frail_dead e) = []"
    by (simp_all add: frail_dead_def system_start_def set_phase_def frail_deps_fields) (simp_all add: frail_start_def)
  have same: "set_world False ?st = ?st" using same_world [of ?st] frail_state(6) by simp
  have 1: "sys_step frail_deps (frail_dead e) ?s1"
    using watch [OF f(4) frail_deps_fields(3), of "Some True" ?a] by (simp add: f watch_turn_def frail_deps_fields frail_state same)
  let ?b = "exhaust 0 ?a"
  let ?s2 = "set_phase 0 (Sending ?snap) ?b ?s1"
  obtain t where t: "round_delay frail_deps 0 ?snap ?a = Some t"
    by (simp add: round_delay_def frail_state(7) Let_def) (simp add: frail_check_def demo_check_def interval_pick_def rand_N_def)
  have w: "set_world False ?a = ?a" using frail_state(6) [of e] same_world [of ?a] by simp
  have "sys_step frail_deps ?s1 (set_phase 0 (Sending ?snap) (exhaust 0 (set_world False ?a)) ?s1)"
    using sleep_dead [of 0 ?s1 ?snap frail_deps t False] f(1) t frail_state(1) [of e] by (simp add: frail_deps_fields frail_state(6))
  then have 2: "sys_step frail_deps ?s1 ?s2" unfolding w .
  have b: "su_events ?b = []" "su_capacity ?b = 1"
    by (simp_all add: frail_state exhaust_def Let_def)
  have "sys_step frail_deps ?s2 (set_phase 0 AtGate (?b\<lparr>su_events := [frail_event e]\<rparr>) ?s2)"
    by (rule send [of _ _ ?snap]) (simp_all add: f frail_state(3-5) b send_event_def frail_event_def)
  moreover have "set_phase 0 AtGate (?b\<lparr>su_events := [frail_event e]\<rparr>) ?s2 = frail_sent e"
    using f by (simp add: frail_sent_def set_phase_def)
  ultimately show ?thesis using 1 2 by (metis converse_rtranclp_into_rtranclp rtranclp.rtrancl_refl)
qed

text \<open>The handler takes the event of a container to restart while the watcher holds the gate.\<close>

definition frail_restarting :: "bool system" where
  "frail_restarting = (frail_sent ''nginx-mailcow'')\<lparr>sy_sup := pauseAll ((sy_sup (frail_sent ''nginx-mailcow''))\<lparr>su_events := []\<rparr>),
     sy_handler := Restarting 0, sy_handled := [frail_event ''nginx-mailcow'']\<rparr>"

lemma frail_restarting_reachable: "reachable frail_deps (frail_start ''nginx-mailcow'') frail_restarting"
proof -
  let ?s = "frail_sent ''nginx-mailcow''"
  have "restarts_container (runner_check 0 (sy_sup ?s))" by code_simp
  then have "sys_step frail_deps ?s frail_restarting"
    using take_restart [of ?s "frail_event ''nginx-mailcow''" "[]" frail_deps]
    by (simp add: frail_restarting_def frail_sent_def frail_event_def runner_check_def)
  moreover have "reachable frail_deps (frail_start ''nginx-mailcow'') ?s"
    using reachable_steps [OF _ reach_start] frail_reaches_dead frail_reports by (meson reachable_steps)
  ultimately show ?thesis by (rule reach_step [rotated])
qed

theorem pauses_are_not_counted_witness:
  "\<exists>s st. reachable frail_deps (frail_start ''nginx-mailcow'') s \<and> sy_handler s = Restarting 0 \<and> sy_watch s = Watching True \<and>
     gate_paused (su_gate (sy_sup s)) \<and> sys_step frail_deps s (s\<lparr>sy_sup := st, sy_handler := Idle\<rparr>) \<and> \<not> gate_paused (su_gate st)"
proof -
  have f: "sy_handler frail_restarting = Restarting 0" "sy_watch frail_restarting = Watching True"
    by (simp_all add: frail_restarting_def) (simp add: frail_sent_def)
  have g: "gate_paused (su_gate (sy_sup frail_restarting))" by code_simp
  obtain st where st: "sys_step frail_deps frail_restarting (frail_restarting\<lparr>sy_sup := st, sy_handler := Idle\<rparr>)"
    and stays: "\<And>s'. (outage_step frail_deps)\<^sup>*\<^sup>* (frail_restarting\<lparr>sy_sup := st, sy_handler := Idle\<rparr>) s' \<Longrightarrow>
        \<not> gate_paused (su_gate (sy_sup s'))"
    using pauses_are_not_counted [OF f(1,2), of frail_deps] by blast
  from stays [OF rtranclp.rtrancl_refl] have "\<not> gate_paused (su_gate st)" by simp
  with f g st frail_restarting_reachable show ?thesis by blast
qed

end
