(* ===== verification/Lifecycle.thy ===== *)
theory Lifecycle
  imports System
begin

text \<open>
  What the watchdog promises of one check, as a machine of its own: a budget of points that probe
  rounds charge and repay, an event when it is spent, a full budget afterwards. The concurrent program
  refines it, one machine per runner, whatever the other goroutines do.
\<close>

section \<open>The life of a check\<close>

text \<open>The number is what is left of the budget. A spent budget stays spent until it is reported.\<close>

datatype stage =
    Probing int
  | Resting int
  | Spent
  | Reporting int
  | Ended

text \<open>What an API outage that ends repays: a single point outstanding is left.\<close>

definition repaid :: "int \<Rightarrow> int \<Rightarrow> int" where
  "repaid budget n = (if n + 1 < budget then min budget (n + HealPoints) else n)"

fun stage_repaid :: "int \<Rightarrow> stage \<Rightarrow> stage" where
  "stage_repaid budget (Probing n) = Probing (repaid budget n)"
| "stage_repaid budget (Resting n) = Resting (repaid budget n)"
| "stage_repaid budget Spent = Spent"
| "stage_repaid budget (Reporting n) = Reporting (repaid budget n)"
| "stage_repaid budget Ended = Ended"

text \<open>A stage with the number of events raised.\<close>

inductive life_step :: "int \<Rightarrow> stage \<times> nat \<Rightarrow> stage \<times> nat \<Rightarrow> bool" for budget where
  clean: "life_step budget (Probing n, k) (Resting (min budget (n + 1)), k)"
| failing: "0 < w \<Longrightarrow> w < n \<Longrightarrow> life_step budget (Probing n, k) (Resting (n - w), k)"
| spending: "0 < n \<Longrightarrow> n \<le> w \<Longrightarrow> life_step budget (Probing n, k) (Spent, k)"
| rested: "life_step budget (Resting n, k) (Probing n, k)"
| reported: "life_step budget (Spent, k) (Reporting budget, k)"
| sent: "life_step budget (Reporting n, k) (Probing n, Suc k)"
| healed: "life_step budget (st, k) (stage_repaid budget st, k)"
| ended: "life_step budget (st, k) (Ended, k)"

section \<open>A runner's life\<close>

definition budget_now :: "nat \<Rightarrow> 'w sup \<Rightarrow> int" where
  "budget_now i st = tr_threshold (runner_tracker i st) - tr_errCount (runner_tracker i st)"

fun stage_in :: "phase \<Rightarrow> int \<Rightarrow> stage" where
  "stage_in AtGate n = Probing n"
| "stage_in (Waiting c) n = Probing n"
| "stage_in (InRound k weight) n = Probing n"
| "stage_in (Sleeping snap) n = (if snapshot_dead snap then Spent else Resting n)"
| "stage_in (Sending snap) n = Reporting n"
| "stage_in Stopped n = Ended"

definition events_of :: "nat \<Rightarrow> 'w system \<Rightarrow> nat" where
  "events_of i s = length (filter (\<lambda>e. ev_Check e = i) (sy_handled s @ su_events (sy_sup s)))"

definition life_of :: "nat \<Rightarrow> 'w system \<Rightarrow> stage \<times> nat" where
  "life_of i s = (stage_in (sy_phase s ! i) (budget_now i (sy_sup s)), events_of i s)"

lemma budget_now_same: "su_runners st ! i = su_runners st' ! i \<Longrightarrow> budget_now i st = budget_now i st'"
  by (simp add: budget_now_def runner_tracker_def)

lemma stage_healed: "stage_in p (repaid b n) = stage_repaid b (stage_in p n)"
  by (cases p) simp_all

text \<open>A step of runner j, seen by runner i.\<close>

lemma life_set_phase:
  assumes "i < length (sy_phase s)" "j < length (sy_phase s)"
    and "\<And>k. k \<noteq> j \<Longrightarrow> su_runners st ! k = su_runners (sy_sup s) ! k" "su_events st = su_events (sy_sup s)"
  shows "life_of i (set_phase j p st s) =
     (if i = j then (stage_in p (budget_now i st), events_of i s) else life_of i s)"
  using assms by (auto simp: life_of_def set_phase_def events_of_def intro!: arg_cong2 [where f = stage_in] budget_now_same)

lemma life_elsewhere:
  assumes "su_runners (sy_sup s') = su_runners (sy_sup s)" "sy_phase s' = sy_phase s"
    and "sy_handled s' @ su_events (sy_sup s') = sy_handled s @ su_events (sy_sup s)"
  shows "life_of i s' = life_of i s"
  unfolding life_of_def events_of_def assms(2,3) using budget_now_same [of "sy_sup s'" i "sy_sup s"] assms(1) by simp

lemma budget_healed:
  assumes "i < length (su_runners st)" "runner_ok (su_runners st ! i)"
  shows "budget_now i (healAll st) = repaid (tr_threshold (runner_tracker i st)) (budget_now i st)"
proof -
  let ?t = "runner_tracker i st"
  have "tracker_ok ?t" using runner_ok_tracker [OF assms(2)] by (simp add: runner_tracker_def)
  from heal_spent [OF this, of HealPoints]
  have "tr_errCount (snd (tracker_heal HealPoints ?t)) = (if 1 < tr_errCount ?t then max 0 (tr_errCount ?t - HealPoints) else tr_errCount ?t)"
    by (simp add: HealPoints_def)
  moreover have "runner_tracker i (healAll st) = snd (tracker_heal HealPoints ?t)"
    using assms(1) by (simp add: runner_tracker_def healAll_def runner_heal_def)
  ultimately show ?thesis by (auto simp: budget_now_def repaid_def)
qed

text \<open>A round of probes is a clean round, a failing one, or spends the budget.\<close>

lemma life_round:
  assumes "i < length (su_runners st)" "runner_ok (su_runners st ! i)" "budget_left (runner_tracker i st)"
    and "0 \<le> w" "w \<le> 1000000" "conclude_round d i w st = (snap, st')"
  shows "life_step (tr_threshold (runner_tracker i st)) (Probing (budget_now i st), k)
     (stage_in (Sleeping snap) (budget_now i st'), k)"
proof -
  let ?t = "runner_tracker i st" and ?t' = "runner_tracker i st'"
  note w = conclude_outcome(2,3) [OF assms] and dead = conclude_outcome(4) [OF assms]
  have n: "0 < budget_now i st" "budget_now i st \<le> tr_threshold ?t"
    using assms(2,3) by (auto simp: budget_now_def budget_left_def runner_ok_def runner_tracker_def)
  show ?thesis
  proof (cases "0 < w")
    case True
    then have "budget_now i st' = budget_now i st - w" using w by (simp add: budget_now_def)
    moreover from this have "snapshot_dead snap \<longleftrightarrow> budget_now i st \<le> w" using dead by (auto simp: budget_now_def budget_left_def)
    ultimately show ?thesis using True n failing [of w "budget_now i st"] spending [of "budget_now i st" w] by simp
  next
    case False
    then have "budget_now i st' = min (tr_threshold ?t) (budget_now i st + 1)"
      using w n by (auto simp: budget_now_def)
    moreover have "\<not> snapshot_dead snap" using False w n dead by (auto simp: budget_now_def budget_left_def)
    ultimately show ?thesis using clean by simp
  qed
qed

lemma exhaust_runner:
  "j < length (su_runners st) \<Longrightarrow> budget_now j (exhaust j st) = tr_threshold (runner_tracker j st)"
  "k \<noteq> j \<Longrightarrow> su_runners (exhaust j st) ! k = su_runners st ! k"
  by (simp_all add: exhaust_def Let_def budget_now_def runner_tracker_def upd_runner_def upd_metrics_def)

lemma set_world_budget [simp]: "budget_now i (set_world w st) = budget_now i st"
  by (simp add: budget_now_def)

section \<open>Every step is a life step or leaves the check alone\<close>

lemma life_of_step:
  assumes "sys_step d s s'" "system_ok s" "i < length (sy_phase s)"
  shows "life_step (tr_threshold (runner_tracker i (sy_sup s))) (life_of i s) (life_of i s') \<or> life_of i s' = life_of i s"
    (is "?step (life_of i s) (life_of i s') \<or> _")
proof -
  have n: "length (su_runners (sy_sup s)) = length (sy_phase s)" using assms(2) by (simp add: system_ok_def)
  have here: "life_of i s = (stage_in (sy_phase s ! i) (budget_now i (sy_sup s)), events_of i s)" by (simp add: life_of_def)
  from assms(1) show ?thesis
  proof (cases rule: sys_step.cases)
    case (ask j)
    then show ?thesis by (auto simp: life_set_phase assms(3) here)
  next
    case (gate_cancelled j c e)
    then show ?thesis by (auto simp: life_set_phase assms(3) here ended)
  next
    case (enter_round j c)
    then show ?thesis by (auto simp: life_set_phase assms(3) here)
  next
    case (probe j k weight weight' st)
    have "framed j (sy_sup s) st" "runner_tracker j st = runner_tracker j (sy_sup s)"
      using run_probe_fields [OF _ probe(5)] probe(2) n by simp_all
    then have other: "k \<noteq> j \<Longrightarrow> su_runners st ! k = su_runners (sy_sup s) ! k" "su_events st = su_events (sy_sup s)"
      and "budget_now j st = budget_now j (sy_sup s)" for k
      by (simp_all add: framed_def budget_now_def)
    then show ?thesis using probe(1-3) by (auto simp: life_set_phase [OF assms(3) _ other] here)
  next
    case (conclude j k weight snap st)
    have f: "framed j (sy_sup s) st" using framed_conclude [of j "sy_sup s" d weight] conclude(5) by simp
    then have other: "k \<noteq> j \<Longrightarrow> su_runners st ! k = su_runners (sy_sup s) ! k" "su_events st = su_events (sy_sup s)" for k
      by (simp_all add: framed_def)
    note ph = system_ok_at [OF assms(2) conclude(2)]
    have "budget_left (runner_tracker j (sy_sup s))" "0 \<le> weight" "weight \<le> 1000000"
      using ph(3) conclude(3) by (auto simp: phase_ok_def)
    from life_round [OF ph(1,2) this conclude(5), of "events_of j s"] conclude(1-3)
    show ?thesis by (auto simp: life_set_phase [OF assms(3) _ other] here ended)
  next
    case (sleep_cancelled j snap delay e w)
    then show ?thesis by (auto simp: life_set_phase assms(3) here ended)
  next
    case (sleep_alive j snap delay w)
    then show ?thesis by (auto simp: life_set_phase assms(3) here rested)
  next
    case (sleep_dead j snap delay w)
    have "budget_now j (exhaust j (set_world w (sy_sup s))) = tr_threshold (runner_tracker j (sy_sup s))"
      using exhaust_runner(1) [of j "set_world w (sy_sup s)"] sleep_dead(2) n by (simp add: runner_tracker_def)
    with sleep_dead show ?thesis
      by (auto simp: life_set_phase [OF assms(3)] exhaust_runner(2) here reported)
  next
    case (send j snap st)
    then have st: "st = (sy_sup s)\<lparr>su_events := su_events (sy_sup s) @ [\<lparr>ev_Check = j, ev_Snapshot = snap\<rparr>]\<rparr>"
      by (auto simp: send_event_def split: if_splits)
    have b: "budget_now k st = budget_now k (sy_sup s)" for k by (rule budget_now_same) (simp add: st)
    show ?thesis
    proof (cases "i = j")
      case True
      have "life_of i s' = (Probing (budget_now i (sy_sup s)), Suc (events_of i s))"
        using send True by (simp add: life_of_def set_phase_def b) (simp add: st events_of_def)
      then show ?thesis using here send(3) True sent by simp
    next
      case False
      then have "life_of i s' = life_of i s"
        using send by (simp add: life_of_def set_phase_def b) (simp add: st events_of_def)
      then show ?thesis ..
    qed
  next
    case (send_cancelled j snap e)
    then show ?thesis by (auto simp: life_set_phase assms(3) here ended)
  next
    case (take_notify e es st)
    then have "only_outside ((sy_sup s)\<lparr>su_events := es\<rparr>) st"
      using handle_notify [of e "(sy_sup s)\<lparr>su_events := es\<rparr>" d] by (auto simp: runner_check_def)
    from outside_fields [OF this] take_notify show ?thesis by (intro disjI2 life_elsewhere) simp_all
  next
    case (take_restart e es)
    then show ?thesis by (intro disjI2 life_elsewhere) simp_all
  next
    case (finish_restart j st)
    have "only_outside (sy_sup s) (restart_body d j (sy_sup s))" by (simp add: outside_intros)
    from outside_fields [OF this] resumeAll_fields [OF finish_restart(3)] finish_restart(1)
    show ?thesis by (intro disjI2 life_elsewhere) simp_all
  next
    case (handler_stops e)
    then show ?thesis by (intro disjI2 life_elsewhere) simp_all
  next
    case (watch held docker held' st)
    from watch(4) show ?thesis
    proof (cases rule: watch_turn_cases)
      case (recovered w u)
      then have u: "su_runners u = su_runners (sy_sup s)" "su_events u = su_events (sy_sup s)"
        using resumeAll_fields [OF recovered(3)] by simp_all
      have "runner_ok (su_runners u ! i)" using assms(2,3) n by (simp add: u system_ok_def sup_ok_def list_all_length)
      from budget_healed [OF _ this] assms(3) n
      have "budget_now i st = repaid (tr_threshold (runner_tracker i (sy_sup s))) (budget_now i (sy_sup s))"
        by (simp add: recovered u runner_tracker_def budget_now_def)
      moreover have "su_events st = su_events (sy_sup s)" by (simp add: recovered u healAll_def)
      ultimately have "life_of i s' = (stage_repaid (tr_threshold (runner_tracker i (sy_sup s))) (fst (life_of i s)), events_of i s)"
        using watch by (simp add: life_of_def stage_healed events_of_def)
      then show ?thesis using healed here by simp
    qed (use watch in \<open>auto dest!: resumeAll_fields intro!: life_elsewhere\<close>)
  next
    case (outside w)
    then show ?thesis by (intro disjI2 life_elsewhere) simp_all
  qed
qed

section \<open>Properties\<close>

text \<open>C6. The concurrent program refines the life of each check: whatever the other goroutines, the
  Docker API and the outside world do, every step is a step of that machine or leaves it where it is,
  from a full budget on. So rounds charge and repay the budget by the code's arithmetic, a spent
  budget is never forgotten or revived before it is reported, each report raises exactly one event and
  starts from a full budget, and nothing else raises an event of that check.\<close>

theorem checks_follow_their_life:
  assumes "supervisor_new checks (Some m) (Some store) w = Some (Inr st)" "list_all check_ok checks"
    and "reachable d st s" "i < length checks"
  shows "(life_step (max 1 (ck_Threshold (checks ! i))))\<^sup>*\<^sup>* (Probing (max 1 (ck_Threshold (checks ! i))), 0) (life_of i s) \<and>
    (\<forall>s'. sys_step d s s' \<longrightarrow>
      life_step (max 1 (ck_Threshold (checks ! i))) (life_of i s) (life_of i s') \<or> life_of i s' = life_of i s)"
proof -
  let ?b = "max 1 (ck_Threshold (checks ! i))"
  have n: "system_ok (system_start d st)" "statics st = map (\<lambda>c. (bare c, max 1 (ck_Threshold c))) checks"
    using supervisor_new_ok [OF assms(1,2), of d] by simp_all
  have at_step: "i < length (sy_phase s) \<and> tr_threshold (runner_tracker i (sy_sup s)) = ?b \<and> system_ok s"
    if "reachable d st s" for s
  proof -
    have ok: "system_ok s" "statics (sy_sup s) = statics st" using reachable_invariant [OF that n(1)] by simp_all
    then have e: "statics (sy_sup s) = map (\<lambda>c. (bare c, max 1 (ck_Threshold c))) checks" using n(2) by simp
    have l: "length (su_runners (sy_sup s)) = length checks" using arg_cong [OF e, of length] by (simp add: statics_def)
    from arg_cong [OF e, of "\<lambda>xs. snd (xs ! i)"] assms(4) l
    have "tr_threshold (runner_tracker i (sy_sup s)) = ?b" by (simp add: statics_def runner_tracker_def)
    then show ?thesis using ok l assms(4) by (simp add: system_ok_def)
  qed
  have step: "life_step ?b (life_of i s) (life_of i s') \<or> life_of i s' = life_of i s"
    if "reachable d st s" "sys_step d s s'" for s s'
    using life_of_step [OF that(2), of i] at_step [OF that(1)] by simp
  have "(life_step ?b)\<^sup>*\<^sup>* (Probing ?b, 0) (life_of i s)"
    using assms(3)
  proof induction
    case reach_start
    have st: "su_runners st = map new_runner checks" "su_events st = []"
      using assms(1) by (auto simp: supervisor_new_def split: if_splits)
    then have "life_of i (system_start d st) = (Probing ?b, 0)"
      using assms(4) by (simp add: life_of_def system_start_def events_of_def budget_now_def runner_tracker_def new_runner_def)
    then show ?case by simp
  next
    case (reach_step s s')
    then show ?case using step [OF reach_step(1,2)] by (auto intro: rtranclp.rtrancl_into_rtrancl)
  qed
  with step [OF assms(3)] show ?thesis by blast
qed

theorem checks_follow_their_life_witness:
  "(life_step 5)\<^sup>*\<^sup>* (Probing 5, 0) (life_of 0 (demo_asleep ''nginx-mailcow''))"
  using checks_follow_their_life [OF demo_new demo_check_ok demo_asleep_reachable, of 0 "''nginx-mailcow''"]
  by (simp add: demo_check_def)

end
