(* ===== verification/Json_Values.thy ===== *)
theory Json_Values
  imports Json
begin

text \<open>
  A reader of whole JSON texts, the receiving end of a webhook: tokens first, then values. It is
  generic in what stands for a string, so that the same reader also reads the templates of Webhook,
  whose strings hold placeholders.
\<close>

section \<open>Strings\<close>

definition utf8 :: "nat \<Rightarrow> string" where
  "utf8 n =
     (if n < 128 then [char_of n]
      else if n < 2048 then map char_of [192 + n div 64, 128 + n mod 64]
      else if n < 65536 then map char_of [224 + n div 4096, 128 + n div 64 mod 64, 128 + n mod 64]
      else map char_of [240 + n div 262144, 128 + n div 4096 mod 64, 128 + n div 64 mod 64, 128 + n mod 64])"

fun hex4 :: "string \<Rightarrow> (nat \<times> string) option" where
  "hex4 (a # b # c # d # r) =
     (case (hex_val a, hex_val b, hex_val c, hex_val d) of
        (Some w, Some x, Some y, Some z) \<Rightarrow> Some (4096 * w + 256 * x + 16 * y + z, r)
      | _ \<Rightarrow> None)"
| "hex4 _ = None"

text \<open>The bytes a backslash sequence stands for, and the text after it; a surrogate needs its partner.\<close>

definition simple_escapes :: "(char \<times> char) list" where
  "simple_escapes =
     [(CHR 0x22, CHR 0x22), (CHR 0x5C, CHR 0x5C), (CHR ''/'', CHR ''/''), (CHR ''b'', CHR 0x08), (CHR ''f'', CHR 0x0C),
      (CHR ''n'', CHR 0x0A), (CHR ''r'', CHR 0x0D), (CHR ''t'', CHR 0x09)]"

definition read_unicode :: "string \<Rightarrow> (string \<times> string) option" where
  "read_unicode s =
     (case hex4 s of
        None \<Rightarrow> None
      | Some (n, r) \<Rightarrow>
          (if n < 55296 \<or> 57343 < n then Some (utf8 n, r)
           else if n < 56320 \<and> has_prefix r [CHR 0x5C, CHR ''u''] then
             (case hex4 (drop 2 r) of
                None \<Rightarrow> None
              | Some (m, q) \<Rightarrow>
                  (if 56320 \<le> m \<and> m \<le> 57343 then Some (utf8 (65536 + (n - 55296) * 1024 + (m - 56320)), q) else None))
           else None))"

fun read_esc :: "string \<Rightarrow> (string \<times> string) option" where
  "read_esc [] = None"
| "read_esc (e # s) =
     (case map_of simple_escapes e of
        Some c \<Rightarrow> Some ([c], s)
      | None \<Rightarrow> (if e = CHR ''u'' then read_unicode s else None))"

text \<open>One character or escape of a string.\<close>

fun text_item :: "string \<Rightarrow> (string \<times> string) option" where
  "text_item [] = None"
| "text_item (c # s) =
     (if c = CHR 0x5C then read_esc s else if (of_char c :: nat) < 32 then None else Some ([c], s))"

text \<open>The items up to the closing quote, and what follows it.\<close>

function read_items :: "(string \<Rightarrow> ('u \<times> string) option) \<Rightarrow> string \<Rightarrow> ('u list \<times> string) option" where
  "read_items item [] = None"
| "read_items item (c # s) =
     (if c = CHR 0x22 then Some ([], s)
      else case item (c # s) of
        None \<Rightarrow> None
      | Some (u, r) \<Rightarrow>
          (if length r \<le> length s then map_option (\<lambda>(us, q). (u # us, q)) (read_items item r) else None))"
  by pat_completeness auto
termination
  by (relation "measure (length \<circ> snd)") auto

definition read_text :: "string \<Rightarrow> (string \<times> string) option" where
  "read_text s = map_option (\<lambda>(us, r). (concat us, r)) (read_items text_item s)"

section \<open>Tokens\<close>

datatype 's token = TString 's | TAtom string | TPunct char

definition digits_only :: "string \<Rightarrow> bool" where
  "digits_only s \<longleftrightarrow> s \<noteq> [] \<and> list_all (\<lambda>c. c \<in> set ''0123456789'') s"

definition json_exponent :: "string \<Rightarrow> bool" where
  "json_exponent s \<longleftrightarrow>
     (case s of
        [] \<Rightarrow> True
      | c # r \<Rightarrow> c \<in> set ''eE'' \<and> digits_only (case r of [] \<Rightarrow> [] | d # q \<Rightarrow> if d \<in> set ''+-'' then q else r))"

definition json_number :: "string \<Rightarrow> bool" where
  "json_number s \<longleftrightarrow>
     (let digit = (\<lambda>c. c \<in> set ''0123456789'');
          s = (case s of [] \<Rightarrow> [] | c # r \<Rightarrow> if c = CHR ''-'' then r else s);
          whole = takeWhile digit s; s = dropWhile digit s
      in whole \<noteq> [] \<and> (hd whole = CHR ''0'' \<longrightarrow> length whole = 1) \<and>
         (case s of
            c # r \<Rightarrow> if c = CHR ''.'' then takeWhile digit r \<noteq> [] \<and> json_exponent (dropWhile digit r) else json_exponent s
          | [] \<Rightarrow> True))"

definition json_atom :: "string \<Rightarrow> bool" where
  "json_atom s \<longleftrightarrow> s \<in> {''true'', ''false'', ''null''} \<or> json_number s"

definition atom_char :: "char \<Rightarrow> bool" where
  "atom_char c \<longleftrightarrow> is_alnum c \<or> c \<in> set ''+-.''"

definition json_space :: string where
  "json_space = [CHR '' '', CHR 0x09, CHR 0x0A, CHR 0x0D]"

definition json_punct :: string where
  "json_punct = ''{}[]:,''"

function tokens :: "(string \<Rightarrow> ('s \<times> string) option) \<Rightarrow> string \<Rightarrow> 's token list option" where
  "tokens str [] = Some []"
| "tokens str (c # s) =
     (if c \<in> set json_space then tokens str s
      else if c \<in> set json_punct then map_option ((#) (TPunct c)) (tokens str s)
      else if c = CHR 0x22 then
        (case str s of
           None \<Rightarrow> None
         | Some (v, r) \<Rightarrow> (if length r \<le> length s then map_option ((#) (TString v)) (tokens str r) else None))
      else if atom_char c \<and> json_atom (c # takeWhile atom_char s)
      then map_option ((#) (TAtom (c # takeWhile atom_char s))) (tokens str (dropWhile atom_char s))
      else None)"
  by pat_completeness auto
termination
  by (relation "measure (length \<circ> snd)") (auto simp: le_imp_less_Suc length_dropWhile_le)

section \<open>Values\<close>

datatype 's json = JString 's | JAtom string | JArray "'s json list" | JObject "('s \<times> 's json) list"

text \<open>A pushdown reader: the values that are open, innermost first, and what may come next. \<open>Value\<close> and
  \<open>Key\<close> say whether the array or object may be closed instead.\<close>

datatype 's frame =
    InArray "'s json list"
  | InObject "('s \<times> 's json) list"
  | InField "('s \<times> 's json) list" 's

datatype 's mode = Value bool | Key bool | Colon | Comma | Done "'s json"

fun complete :: "'s json \<Rightarrow> 's frame list \<Rightarrow> ('s mode \<times> 's frame list) option" where
  "complete v [] = Some (Done v, [])"
| "complete v (InArray vs # fs) = Some (Comma, InArray (vs @ [v]) # fs)"
| "complete v (InField kvs k # fs) = Some (Comma, InObject (kvs @ [(k, v)]) # fs)"
| "complete v (InObject kvs # fs) = None"

fun close :: "char \<Rightarrow> 's frame list \<Rightarrow> ('s mode \<times> 's frame list) option" where
  "close c (InArray vs # fs) = (if c = CHR '']'' then complete (JArray vs) fs else None)"
| "close c (InObject kvs # fs) = (if c = CHR ''}'' then complete (JObject kvs) fs else None)"
| "close c _ = None"

fun separate :: "'s frame list \<Rightarrow> ('s mode \<times> 's frame list) option" where
  "separate (InArray vs # fs) = Some (Value False, InArray vs # fs)"
| "separate (InObject kvs # fs) = Some (Key False, InObject kvs # fs)"
| "separate _ = None"

fun shift :: "'s token \<Rightarrow> 's mode \<times> 's frame list \<Rightarrow> ('s mode \<times> 's frame list) option" where
  "shift (TString v) (Value b, fs) = complete (JString v) fs"
| "shift (TAtom a) (Value b, fs) = complete (JAtom a) fs"
| "shift (TPunct c) (Value b, fs) =
     (if c = CHR ''['' then Some (Value True, InArray [] # fs)
      else if c = CHR ''{'' then Some (Key True, InObject [] # fs)
      else if c = CHR '']'' \<and> b then close c fs else None)"
| "shift (TString k) (Key b, InObject kvs # fs) = Some (Colon, InField kvs k # fs)"
| "shift (TPunct c) (Key b, fs) = (if c = CHR ''}'' \<and> b then close c fs else None)"
| "shift (TPunct c) (Colon, fs) = (if c = CHR '':'' then Some (Value False, fs) else None)"
| "shift (TPunct c) (Comma, fs) = (if c = CHR '','' then separate fs else close c fs)"
| "shift _ _ = None"

primrec shift_all :: "'s token list \<Rightarrow> 's mode \<times> 's frame list \<Rightarrow> ('s mode \<times> 's frame list) option" where
  "shift_all [] st = Some st"
| "shift_all (t # ts) st = Option.bind (shift t st) (shift_all ts)"

definition parse :: "'s token list \<Rightarrow> 's json option" where
  "parse ts = (case shift_all ts (Value False, []) of Some (Done v, []) \<Rightarrow> Some v | _ \<Rightarrow> None)"

definition read_json :: "string \<Rightarrow> string json option" where
  "read_json s = Option.bind (tokens read_text s) parse"

section \<open>What is read does not depend on the strings\<close>

definition map_state :: "('s \<Rightarrow> 't) \<Rightarrow> 's mode \<times> 's frame list \<Rightarrow> 't mode \<times> 't frame list" where
  "map_state f = map_prod (map_mode f) (map (map_frame f))"

lemma map_state_pair [simp]: "map_state f (m, fs) = (map_mode f m, map (map_frame f) fs)"
  by (simp add: map_state_def)

lemma complete_map: "complete (map_json f v) (map (map_frame f) fs) = map_option (map_state f) (complete v fs)"
  by (cases "(v, fs)" rule: complete.cases) simp_all

lemmas complete_maps =
  complete_map [of f "JString v" for f v, simplified] complete_map [of f "JAtom a" for f a, simplified]
  complete_map [of f "JArray vs" for f vs, simplified] complete_map [of f "JObject kvs" for f kvs, simplified]

lemma close_map: "close c (map (map_frame f) fs) = map_option (map_state f) (close c fs)"
  by (cases "(c, fs)" rule: close.cases) (simp_all add: complete_maps)

lemma separate_map: "separate (map (map_frame f) fs) = map_option (map_state f) (separate fs)"
  by (cases fs rule: separate.cases) simp_all

lemma shift_map: "shift (map_token f t) (map_state f st) = map_option (map_state f) (shift t st)"
  by (cases "(t, st)" rule: shift.cases) (simp_all add: complete_maps close_map separate_map)

lemma shift_all_map:
  "shift_all (map (map_token f) ts) (map_state f st) = map_option (map_state f) (shift_all ts st)"
proof (induction ts arbitrary: st)
  case (Cons t ts)
  then show ?case by (cases "shift t st") (simp_all add: shift_map)
qed simp

lemma parse_map: "parse (map (map_token f) ts) = map_option (map_json f) (parse ts)"
  using shift_all_map [of f ts "(Value False, [])"]
  by (auto simp: parse_def map_state_def split: option.splits mode.splits list.splits)

section \<open>What is escaped is read back\<close>

lemma hex4_hex2: "hex4 (CHR ''0'' # CHR ''0'' # hex2 c @ r) = Some (of_char c, r)"
proof -
  have "(of_char c :: nat) div 16 < 16" "(of_char c :: nat) mod 16 < 16"
    by (simp_all add: less_mult_imp_div_less)
  moreover have "hex_val (CHR ''0'') = Some 0" by (simp add: hex_val_def)
  ultimately show ?thesis by (simp add: hex2_def Let_def hex_val_hex_char)
qed

lemma text_item_json_char: "text_item (json_char False c @ r) = Some ([c], r)"
proof -
  have "read_unicode (CHR ''0'' # CHR ''0'' # hex2 c @ r) = Some ([c], r)" if "(of_char c :: nat) < 32"
    using that by (simp add: read_unicode_def hex4_hex2 utf8_def)
  then show ?thesis by (auto simp: json_char_def simple_escapes_def)
qed

lemma read_items_json_char:
  "read_items text_item (json_char False c @ r) = map_option (\<lambda>(us, q). ([c] # us, q)) (read_items text_item r)"
proof -
  have "json_char False c \<noteq> [] \<and> hd (json_char False c) \<noteq> CHR 0x22" by (simp add: json_char_def)
  then obtain d t where "json_char False c = d # t" "d \<noteq> CHR 0x22" by (cases "json_char False c") auto
  with text_item_json_char [of c r] show ?thesis by simp
qed

lemma read_items_json_body:
  "read_items text_item (json_body False v @ r) = map_option (\<lambda>(us, q). (map (\<lambda>c. [c]) v @ us, q)) (read_items text_item r)"
proof (induction v)
  case Nil
  show ?case by (simp add: json_body_def option.map_ident split_def)
next
  case (Cons c v)
  then show ?case by (simp add: json_body_def read_items_json_char option.map_comp comp_def split_def)
qed

text \<open>An escape is a piece of text without a dollar that is read the same whatever follows it.\<close>

lemma hex4_prefix:
  assumes "hex4 s = Some (n, r)"
  obtains p where "s = p @ r" "CHR ''$'' \<notin> set p" "\<And>q. hex4 (p @ q) = Some (n, q)"
proof -
  from assms obtain a b c d where s: "s = a # b # c # d # r" by (cases s rule: hex4.cases) (auto split: option.splits)
  have "hex_val (CHR ''$'') = None" by (simp add: hex_val_def)
  with assms s have "CHR ''$'' \<notin> {a, b, c, d}" by (auto split: option.splits)
  moreover have "hex4 ([a, b, c, d] @ q) = Some (n, q)" for q using assms s by (auto split: option.splits)
  ultimately show thesis using that [of "[a, b, c, d]"] s by auto
qed

lemma read_unicode_prefix:
  assumes "read_unicode s = Some (u, r)"
  obtains p where "s = p @ r" "CHR ''$'' \<notin> set p" "\<And>q. read_unicode (p @ q) = Some (u, q)"
proof -
  obtain n t where n: "hex4 s = Some (n, t)" using assms by (auto simp: read_unicode_def split: option.splits)
  obtain p where p: "s = p @ t" "CHR ''$'' \<notin> set p" "\<And>q. hex4 (p @ q) = Some (n, q)" using hex4_prefix [OF n] by blast
  show thesis
  proof (cases "n < 55296 \<or> 57343 < n")
    case True
    with assms n p show thesis by (intro that [of p]) (auto simp: read_unicode_def)
  next
    case False
    with assms n obtain m where m: "n < 56320" "has_prefix t [CHR 0x5C, CHR ''u'']" "hex4 (drop 2 t) = Some (m, r)"
      "56320 \<le> m" "m \<le> 57343" "u = utf8 (65536 + (n - 55296) * 1024 + (m - 56320))"
      by (auto simp: read_unicode_def split: if_splits option.splits)
    then obtain t' where t: "t = CHR 0x5C # CHR ''u'' # t'" by (auto simp: has_prefix_iff)
    obtain p' where p': "t' = p' @ r" "CHR ''$'' \<notin> set p'" "\<And>q. hex4 (p' @ q) = Some (m, q)"
      using hex4_prefix [of t' m r] m(3) t by auto
    have "read_unicode ((p @ CHR 0x5C # CHR ''u'' # p') @ q) = Some (u, q)" for q
      using p(3) [of "CHR 0x5C # CHR ''u'' # p' @ q"] p'(3) m False by (simp add: read_unicode_def has_prefix_iff)
    with p p' t show thesis by (intro that [of "p @ CHR 0x5C # CHR ''u'' # p'"]) auto
  qed
qed

lemma text_item_prefix:
  assumes "text_item s = Some (u, r)"
  obtains (plain) c where "s = c # r" "c \<noteq> CHR 0x5C" "\<And>q. text_item (c # q) = Some (u, q)"
  | (escape) p where "s = CHR 0x5C # p @ r" "CHR ''$'' \<notin> set p" "\<And>q. text_item (CHR 0x5C # p @ q) = Some (u, q)"
proof (cases s)
  case (Cons c t)
  show thesis
  proof (cases "c = CHR 0x5C")
    case False
    with assms Cons show thesis by (intro plain) (auto split: if_splits)
  next
    case True
    with assms Cons obtain e t' where t: "t = e # t'" "read_esc (e # t') = Some (u, r)" by (cases t) auto
    show thesis
    proof (cases "map_of simple_escapes e")
      case None
      with t have "e = CHR ''u''" "read_unicode t' = Some (u, r)" by (auto split: if_splits)
      moreover from this(2) obtain p where "t' = p @ r" "CHR ''$'' \<notin> set p" "\<And>q. read_unicode (p @ q) = Some (u, q)"
        by (rule read_unicode_prefix) blast
      ultimately show thesis using True Cons t(1) None by (intro escape [of "e # p"]) auto
    next
      case (Some d)
      moreover have "e \<noteq> CHR ''$''" using Some by (auto simp: simple_escapes_def split: if_splits)
      ultimately show thesis using True Cons t by (intro escape [of "[e]"]) auto
    qed
  qed
qed (use assms in simp)

end
