(* ===== verification/Webhook.thy ===== *)
theory Webhook
  imports Notify Json_Values
begin

text \<open>
  internal/notify/webhook.go: the operator's JSON template is filled in and posted. The HTTP request
  is a parameter: \<open>new_request url\<close> is the error http.NewRequest gives for a bad URL, \<open>post url body\<close>
  the request itself, with the status code and the status line of the answer.
\<close>

record 'w webhook =
  wh_url :: string
  wh_template :: string
  wh_new_request :: "string \<Rightarrow> error option"
  wh_post :: "string \<Rightarrow> string \<Rightarrow> 'w \<Rightarrow> (int \<times> string) res \<times> 'w"

definition new_webhook ::
  "string \<Rightarrow> string \<Rightarrow> (string \<Rightarrow> error option) \<Rightarrow> (string \<Rightarrow> string \<Rightarrow> 'w \<Rightarrow> (int \<times> string) res \<times> 'w)
     \<Rightarrow> 'w webhook option" where
  "new_webhook url template request post =
     (if url = [] \<or> template = [] then None
      else Some \<lparr>wh_url = url, wh_template = template, wh_new_request = request, wh_post = post\<rparr>)"

text \<open>jsonEscape encodes the value, which ends in a newline, and takes the quotes off.\<close>

definition jsonEscape :: "string \<Rightarrow> string" where
  "jsonEscape value =
     (let buf = json_string False value @ [CHR 0x0A];
          quoted = rev (dropWhile (\<lambda>c. c = CHR 0x0A) (rev buf))
      in trim_suffix (trim_prefix quoted [CHR 0x22]) [CHR 0x22])"

definition expand_pairs :: "message \<Rightarrow> (string \<times> string) list" where
  "expand_pairs msg =
     [(''${SUBJECT}'', jsonEscape (ms_Subject msg)),
      (''$SUBJECT'', jsonEscape (ms_Subject msg)),
      (''${BODY}'', jsonEscape (ms_Body msg)),
      (''$BODY'', jsonEscape (ms_Body msg))]"

definition expand :: "string \<Rightarrow> message \<Rightarrow> string" where
  "expand template msg = replacer (expand_pairs msg) template"

definition webhook_send :: "'w webhook \<Rightarrow> 'w notifier" where
  "webhook_send w msg s =
     (let body = expand (wh_template w) msg in
      case wh_new_request w (wh_url w) of
        Some err \<Rightarrow> (Some (''building the webhook request: '' @ err), s)
      | None \<Rightarrow>
          (case wh_post w (wh_url w) body s of
             (Inl err, s') \<Rightarrow> (Some (''posting to the webhook: '' @ err), s')
           | (Inr (code, status), s') \<Rightarrow>
               (if code < 200 \<or> code \<ge> 300 then (Some (''the webhook answered '' @ status), s')
                else (None, s'))))"

section \<open>Escaping\<close>

lemma jsonEscape_body: "jsonEscape v = json_body False v"
  by (simp add: jsonEscape_def json_string_def trim_prefix_def trim_suffix_def has_suffix_def Let_def)

section \<open>Templates\<close>

text \<open>A template is a JSON text with placeholders inside its strings, with or without braces. It is read by
  the reader of JSON texts, with strings that are lists of pieces.\<close>

datatype piece = Literal string | SUBJECT | BODY

definition placeholder :: "string \<Rightarrow> (piece \<times> string) option" where
  "placeholder s =
     (if has_prefix s ''${SUBJECT}'' then Some (SUBJECT, drop 10 s)
      else if has_prefix s ''$SUBJECT'' then Some (SUBJECT, drop 8 s)
      else if has_prefix s ''${BODY}'' then Some (BODY, drop 7 s)
      else if has_prefix s ''$BODY'' then Some (BODY, drop 5 s)
      else None)"

definition template_item :: "string \<Rightarrow> (piece \<times> string) option" where
  "template_item s =
     (case placeholder s of
        Some found \<Rightarrow> Some found
      | None \<Rightarrow> map_option (\<lambda>(u, r). (Literal u, r)) (text_item s))"

definition read_template :: "string \<Rightarrow> piece list json option" where
  "read_template t = Option.bind (tokens (read_items template_item) t) parse"

primrec piece_value :: "message \<Rightarrow> piece \<Rightarrow> string" where
  "piece_value msg (Literal u) = u"
| "piece_value msg SUBJECT = ms_Subject msg"
| "piece_value msg BODY = ms_Body msg"

definition filled :: "message \<Rightarrow> piece list \<Rightarrow> string" where
  "filled msg ps = concat (map (piece_value msg) ps)"

section \<open>What expansion does to a template\<close>

lemma expand_copies: "CHR ''$'' \<notin> set u \<Longrightarrow> expand (u @ s) msg = u @ expand s msg"
  unfolding expand_def by (rule replacer_copies [where d = "CHR ''$''"]) (auto simp: expand_pairs_def)

lemma expand_char: "c \<noteq> CHR ''$'' \<Longrightarrow> expand (c # s) msg = c # expand s msg"
  using expand_copies [of "[c]"] by simp

lemma expand_other: "placeholder (c # s) = None \<Longrightarrow> expand (c # s) msg = c # expand s msg"
proof -
  assume "placeholder (c # s) = None"
  then have "first_match (expand_pairs msg) (c # s) = None"
    by (auto simp: placeholder_def first_match_def expand_pairs_def split: if_split_asm)
  then show ?thesis by (simp add: expand_def)
qed

lemma expand_placeholder:
  assumes "placeholder s = Some (p, r)"
  shows "expand s msg = json_body False (piece_value msg p) @ expand r msg \<and> length r < length s"
  using assms
  by (cases s) (auto simp: placeholder_def expand_def expand_pairs_def first_match_def jsonEscape_body has_prefix_iff split: if_splits)

lemma expand_items:
  assumes "read_items template_item t = Some (ps, r)"
  shows "read_text (expand t msg) = Some (filled msg ps, expand r msg) \<and> length (expand r msg) < length (expand t msg)"
  using assms
proof (induction "template_item" t arbitrary: ps rule: read_items.induct)
  case 1
  then show ?case by simp
next
  case (2 c s)
  show ?case
  proof (cases "c = CHR 0x22")
    case True
    with "2.prems" show ?thesis by (auto simp: expand_char read_text_def filled_def)
  next
    case quote: False
    with "2.prems" obtain p q ps' where i: "template_item (c # s) = Some (p, q)" "length q \<le> length s"
      "read_items template_item q = Some (ps', r)" "ps = p # ps'"
      by (auto split: option.splits if_splits)
    have IH: "read_text (expand q msg) = Some (filled msg ps', expand r msg)" "length (expand r msg) < length (expand q msg)"
      using "2.hyps" [OF quote i(1) refl i(2,3)] by simp_all
    show ?thesis
    proof (cases "placeholder (c # s)")
      case (Some found)
      with i(1) have "placeholder (c # s) = Some (p, q)" by (simp add: template_item_def)
      note e = expand_placeholder [OF this, of msg]
      have "concat (map (\<lambda>c. [c]) v) = v" for v :: string by (induction v) simp_all
      with e IH show ?thesis
        by (auto simp: read_text_def read_items_json_body i(4) filled_def)
    next
      case None
      with i(1) obtain u where u: "text_item (c # s) = Some (u, q)" "p = Literal u" by (auto simp: template_item_def)
      from u(1) show ?thesis
      proof (cases rule: text_item_prefix)
        case (plain d)
        then have "expand (c # s) msg = c # expand q msg" using expand_other [OF None] by simp
        with plain quote IH u(2) show ?thesis by (auto simp: read_text_def i(4) filled_def)
      next
        case (escape p')
        then have "expand (c # s) msg = CHR 0x5C # p' @ expand q msg"
          using expand_char [of "CHR 0x5C" s msg] expand_copies [of p' q msg] by simp
        with escape IH u(2) show ?thesis by (auto simp: read_text_def i(4) filled_def)
      qed
    qed
  qed
qed

lemma expand_dropped:
  assumes "tokens str (dropWhile atom_char s) = Some ts"
  shows "takeWhile atom_char (expand s msg) = takeWhile atom_char s \<and>
    dropWhile atom_char (expand s msg) = expand (dropWhile atom_char s) msg"
proof -
  have "CHR ''$'' \<notin> set (takeWhile atom_char s)"
    by (auto dest!: set_takeWhileD simp: atom_char_def is_alnum_def)
  from expand_copies [OF this, of "dropWhile atom_char s" msg]
  have e: "expand s msg = takeWhile atom_char s @ expand (dropWhile atom_char s) msg" by simp
  have "expand (dropWhile atom_char s) msg = [] \<or> \<not> atom_char (hd (expand (dropWhile atom_char s) msg))"
  proof (cases "dropWhile atom_char s")
    case Nil
    show ?thesis unfolding Nil by (simp add: expand_def)
  next
    case (Cons d r)
    then have "\<not> atom_char d" by (metis dropWhile_eq_Cons_conv)
    moreover have "d \<noteq> CHR ''$''"
      using assms Cons by (auto simp: json_space_def json_punct_def atom_char_def is_alnum_def)
    ultimately show ?thesis using Cons by (simp add: expand_char)
  qed
  then show ?thesis
    unfolding e
    by (cases "expand (dropWhile atom_char s) msg")
      (auto simp: takeWhile_append2 takeWhile_tail dropWhile_append dest: set_takeWhileD)
qed

lemma expand_tokens:
  "tokens (read_items template_item) t = Some ts \<Longrightarrow> tokens read_text (expand t msg) = Some (map (map_token (filled msg)) ts)"
proof (induction "read_items template_item" t arbitrary: ts rule: tokens.induct)
  case 1
  then show ?case by (simp add: expand_def)
next
  case (2 c s)
  consider "c \<in> set json_space" | "c \<notin> set json_space" "c \<in> set json_punct"
    | "c \<notin> set json_space" "c \<notin> set json_punct" "c = CHR 0x22"
    | "c \<notin> set json_space" "c \<notin> set json_punct" "c \<noteq> CHR 0x22" by blast
  then show ?case
  proof cases
    case 1
    then have "c \<noteq> CHR ''$''" by (auto simp: json_space_def)
    with 1 2 show ?thesis by (simp add: expand_char)
  next
    case 2
    then have "c \<noteq> CHR ''$''" by (auto simp: json_punct_def)
    with 2 "2.hyps"(2) "2.prems" show ?thesis by (auto simp: expand_char)
  next
    case 3
    with "2.prems" obtain ps r us where r: "read_items template_item s = Some (ps, r)" "length r \<le> length s"
      "tokens (read_items template_item) r = Some us" "ts = TString ps # us"
      by (auto split: option.splits if_splits)
    from expand_items [OF r(1), of msg] "2.hyps"(3) [OF 3 r(1) refl r(2,3)] r(4) 3
    show ?thesis by (simp add: expand_char)
  next
    case 4
    with "2.prems" obtain us where a: "atom_char c" "json_atom (c # takeWhile atom_char s)"
      "tokens (read_items template_item) (dropWhile atom_char s) = Some us" "ts = TAtom (c # takeWhile atom_char s) # us"
      by (auto split: if_splits)
    then have "c \<noteq> CHR ''$''" by (auto simp: atom_char_def is_alnum_def)
    with a 4 "2.hyps"(4) [OF 4 _ a(3)] expand_dropped [OF a(3), of msg] show ?thesis
      by (simp add: expand_char)
  qed
qed

section \<open>Properties\<close>

text \<open>C36. Whatever the alert says, the webhook receives valid JSON that says it: for every template that is
  a JSON text with placeholders inside its strings, nested objects and arrays, numbers, escapes and
  white space included, the expanded text reads as the same JSON value with the subject and the body,
  character for character, in place of the placeholders. Quotes, backslashes, newlines, control
  characters and text that itself looks like a placeholder included.\<close>

theorem expand_fills_template:
  assumes "read_template t = Some j"
  shows "read_json (expand t msg) = Some (map_json (filled msg) j)"
proof -
  obtain ts where ts: "tokens (read_items template_item) t = Some ts" "parse ts = Some j"
    using assms by (auto simp: read_template_def bind_eq_Some_conv)
  from expand_tokens [OF ts(1), of msg] ts(2) show ?thesis by (simp add: read_json_def parse_map)
qed

text \<open>The template of the repository's own test, with white space and a number added.\<close>

definition nested_template :: string where
  "nested_template =
     ''{ '' @ quote ''text'' @ '':'' @ quote ''$SUBJECT: '' @ '', '' @ quote ''attachments'' @ '':[{'' @ quote ''text'' @ '':''
     @ quote ''${BODY}'' @ ''}, -1.5e3]}''"

lemma nested_template_reads:
  "read_template nested_template =
     Some (JObject [(map (\<lambda>c. Literal [c]) ''text'', JString (SUBJECT # map (\<lambda>c. Literal [c]) '': '')),
       (map (\<lambda>c. Literal [c]) ''attachments'',
        JArray [JObject [(map (\<lambda>c. Literal [c]) ''text'', JString [BODY])], JAtom ''-1.5e3''])])"
  by code_simp

theorem expand_fills_template_witness:
  "read_json (expand nested_template
     \<lparr>ms_Service = ''nginx-mailcow'', ms_Subject = ''a $BODY'', ms_Body = [CHR 0x22, CHR 0x0A, CHR 0x5C]\<rparr>)
   = Some (JObject [(''text'', JString ''a $BODY: ''),
       (''attachments'', JArray [JObject [(''text'', JString [CHR 0x22, CHR 0x0A, CHR 0x5C])], JAtom ''-1.5e3''])])"
  by (subst expand_fills_template [OF nested_template_reads]) (simp add: filled_def)

text \<open>WebhookSender.Send posts exactly once, to the configured URL with the filled template, and
  reports success if and only if the answer is a 2xx; a URL that makes no request posts nothing.\<close>

theorem webhook_send_outcome:
  "webhook_send w msg s =
     (case wh_new_request w (wh_url w) of
        Some err \<Rightarrow> (Some (''building the webhook request: '' @ err), s)
      | None \<Rightarrow>
          (let (answer, s') = wh_post w (wh_url w) (expand (wh_template w) msg) s in
           (case answer of
              Inl err \<Rightarrow> Some (''posting to the webhook: '' @ err)
            | Inr (code, status) \<Rightarrow> if code div 100 = 2 then None else Some (''the webhook answered '' @ status), s')))"
proof -
  have "code div 100 = 2 \<longleftrightarrow> \<not> (code < 200 \<or> code \<ge> 300)" for code :: int by linarith
  then show ?thesis by (simp add: webhook_send_def Let_def split: option.splits prod.splits sum.splits)
qed

end
