(* ===== verification/Mail.thy ===== *)
theory Mail
  imports Notify
begin

text \<open>
  internal/notify/smtp.go: mail is composed once per recipient and offered to the exchangers of the
  recipient's domain in preference order. The resolver and the SMTP session (net/smtp over a
  connection) are parameters: each command is a function of the world that may fail.
\<close>

section \<open>Composing\<close>

definition CRLF :: string where
  "CRLF = [CHR 0x0D, CHR 0x0A]"

definition normaliseNewlines :: "string \<Rightarrow> string" where
  "normaliseNewlines body =
     (let body = replace_all body CRLF [CHR 0x0A];
          body = replace_all body [CHR 0x0A] CRLF
      in if has_suffix body CRLF then body else body @ CRLF)"

text \<open>mime.QEncoding: the length of the UTF-8 sequence a text starts with (1 for an invalid byte), the
  encoding of a byte, and the words of at most 75 characters.\<close>

definition code :: "char \<Rightarrow> nat" where
  "code c = of_char c"

definition continues :: "nat \<Rightarrow> nat \<Rightarrow> char \<Rightarrow> bool" where
  "continues lo hi c \<longleftrightarrow> lo \<le> code c \<and> code c \<le> hi"

definition rune_length :: "string \<Rightarrow> nat" where
  "rune_length s =
     (case s of
        a # b # r \<Rightarrow>
          (if continues 194 223 a \<and> continues 128 191 b then 2
           else case r of
             c # r' \<Rightarrow>
               (if continues 224 239 a \<and>
                   continues (if code a = 224 then 160 else 128) (if code a = 237 then 159 else 191) b \<and>
                   continues 128 191 c then 3
                else case r' of
                  d # _ \<Rightarrow>
                    (if continues 240 244 a \<and>
                        continues (if code a = 240 then 144 else 128) (if code a = 244 then 143 else 191) b \<and>
                        continues 128 191 c \<and> continues 128 191 d then 4 else 1)
                | [] \<Rightarrow> 1)
           | [] \<Rightarrow> 1)
      | _ \<Rightarrow> 1)"

definition q_plain :: "char \<Rightarrow> bool" where
  "q_plain c \<longleftrightarrow> 32 \<le> code c \<and> code c \<le> 126 \<and> c \<notin> set ''=?_''"

definition q_byte :: "char \<Rightarrow> string" where
  "q_byte c = (if c = CHR '' '' then ''_'' else if q_plain c then [c]
     else [CHR ''='', upper_hex (code c div 16), upper_hex (code c mod 16)])"

definition max_content :: nat where
  "max_content = 63"

lemma rune_length_pos [simp]: "0 < rune_length s"
  by (simp add: rune_length_def split: list.splits)

function q_words :: "nat \<Rightarrow> string \<Rightarrow> string" where
  "q_words used [] = []"
| "q_words used (c # s) =
     (let n = (if q_plain c then 1 else rune_length (c # s));
          cost = (if q_plain c then 1 else 3 * n);
          split = used + cost > max_content
      in (if split then ''?= =?UTF-8?q?'' else []) @ concat (map q_byte (take n (c # s)))
         @ q_words ((if split then 0 else used) + cost) (drop n (c # s)))"
  by pat_completeness auto
termination
  by (relation "measure (length \<circ> snd)") auto

definition q_encode :: "string \<Rightarrow> string" where
  "q_encode value = ''=?UTF-8?q?'' @ q_words 0 value @ ''?=''"

definition encodeHeader :: "string \<Rightarrow> string" where
  "encodeHeader value = (if list_ex (\<lambda>c. code c > 127) value then q_encode value else value)"

record 'w smtp_sender =
  ss_from :: string
  ss_helo :: string
  ss_recipients :: "string list"
  ss_port :: int
  ss_lookupMX :: "string \<Rightarrow> 'w \<Rightarrow> string list res \<times> 'w"
  ss_now :: "'w \<Rightarrow> gotime"

text \<open>DefaultMXLookup: the resolver's records, stably sorted by preference, as host names without the root's
  dot.\<close>

record mx =
  mx_Host :: string
  mx_Pref :: nat

definition mx_host :: "mx \<Rightarrow> string" where
  "mx_host record = trim_suffix (mx_Host record) ''.''"

definition DefaultMXLookup :: "(string \<Rightarrow> 'w \<Rightarrow> mx list res \<times> 'w) \<Rightarrow> string \<Rightarrow> 'w \<Rightarrow> string list res \<times> 'w" where
  "DefaultMXLookup resolver domain w =
     (case resolver domain w of
        (Inl err, w') \<Rightarrow> (Inl err, w')
      | (Inr records, w') \<Rightarrow> (Inr (map mx_host (sort_key mx_Pref records)), w'))"

definition SMTPPort :: int where
  "SMTPPort = 25"

definition new_smtp ::
  "string \<Rightarrow> string \<Rightarrow> string list \<Rightarrow> int \<Rightarrow> (string \<Rightarrow> 'w \<Rightarrow> string list res \<times> 'w) \<Rightarrow> ('w \<Rightarrow> gotime)
     \<Rightarrow> 'w smtp_sender option" where
  "new_smtp from helo recipients port lookup now =
     (if recipients = [] then None
      else Some \<lparr>ss_from = from, ss_helo = helo, ss_recipients = recipients,
        ss_port = (if port = 0 then SMTPPort else port), ss_lookupMX = lookup, ss_now = now\<rparr>)"

definition mail_headers :: "string \<Rightarrow> string \<Rightarrow> gotime \<Rightarrow> message \<Rightarrow> string list" where
  "mail_headers from rcpt now msg =
     [''Date: '' @ rfc1123z now,
      ''From: '' @ from,
      ''To: '' @ rcpt,
      ''Subject: '' @ encodeHeader (ms_Subject msg),
      ''Message-ID: <'' @ itoa (tm_ns now) @ ''.'' @ from @ ''>'',
      ''X-Priority: 1'',
      ''MIME-Version: 1.0'',
      ''Content-Type: text/plain; charset=UTF-8'',
      ''Content-Transfer-Encoding: 8bit'']"

definition compose :: "'w smtp_sender \<Rightarrow> string \<Rightarrow> message \<Rightarrow> 'w \<Rightarrow> string" where
  "compose s rcpt msg w =
     concat (map (\<lambda>h. h @ CRLF) (mail_headers (ss_from s) rcpt (ss_now s w) msg)) @ CRLF
     @ normaliseNewlines (ms_Body msg)"

section \<open>Delivering\<close>

text \<open>The transport: dialing an exchanger and net/smtp's commands on the connection.\<close>

record 'w transport =
  tp_dial :: "string \<Rightarrow> 'w \<Rightarrow> error option \<times> 'w"
  tp_greet :: "'w \<Rightarrow> error option \<times> 'w"
  tp_hello :: "string \<Rightarrow> 'w \<Rightarrow> error option \<times> 'w"
  tp_has_starttls :: "'w \<Rightarrow> bool \<times> 'w"
  tp_starttls :: "string \<Rightarrow> 'w \<Rightarrow> error option \<times> 'w"
  tp_mail :: "string \<Rightarrow> 'w \<Rightarrow> error option \<times> 'w"
  tp_rcpt :: "string \<Rightarrow> 'w \<Rightarrow> error option \<times> 'w"
  tp_data :: "'w \<Rightarrow> error option \<times> 'w"
  tp_write :: "string \<Rightarrow> 'w \<Rightarrow> error option \<times> 'w"
  tp_finish :: "'w \<Rightarrow> error option \<times> 'w"
  tp_quit :: "'w \<Rightarrow> error option \<times> 'w"
  tp_close :: "'w \<Rightarrow> 'w"

definition attempt ::
  "string \<Rightarrow> ('w \<Rightarrow> error option \<times> 'w) \<Rightarrow> ('w \<Rightarrow> error option \<times> 'w) \<Rightarrow> 'w \<Rightarrow> error option \<times> 'w" where
  "attempt label act next_step w =
     (case act w of (Some err, w') \<Rightarrow> (Some (label @ err), w') | (None, w') \<Rightarrow> next_step w')"

definition transaction :: "'w smtp_sender \<Rightarrow> 'w transport \<Rightarrow> string \<Rightarrow> string \<Rightarrow> string \<Rightarrow> 'w \<Rightarrow> error option \<times> 'w" where
  "transaction s t host rcpt body =
     attempt ''starting the SMTP session: '' (tp_greet t)
       (attempt ''EHLO: '' (tp_hello t (ss_helo s))
         (\<lambda>w. case tp_has_starttls t w of
            (offered, w') \<Rightarrow>
              (let envelope =
                 attempt ''MAIL FROM: '' (tp_mail t (ss_from s))
                   (attempt ''RCPT TO: '' (tp_rcpt t rcpt)
                     (attempt ''DATA: '' (tp_data t)
                       (attempt ''writing the message: '' (tp_write t body)
                         (attempt ''finishing the message: '' (tp_finish t) (tp_quit t)))))
               in if offered then attempt ''STARTTLS: '' (tp_starttls t host) envelope w' else envelope w')))"

definition deliverTo :: "'w smtp_sender \<Rightarrow> 'w transport \<Rightarrow> string \<Rightarrow> string \<Rightarrow> string \<Rightarrow> 'w \<Rightarrow> error option \<times> 'w" where
  "deliverTo s t host rcpt body w =
     (case tp_dial t (join_host_port host (itoa (ss_port s))) w of
        (Some err, w') \<Rightarrow> (Some err, w')
      | (None, w') \<Rightarrow> (case transaction s t host rcpt body w' of (e, w'') \<Rightarrow> (e, tp_close t w'')))"

text \<open>The exchangers in order; the errors of those that failed.\<close>

fun try_hosts :: "(string \<Rightarrow> 'w \<Rightarrow> error option \<times> 'w) \<Rightarrow> string list \<Rightarrow> error list \<Rightarrow> 'w \<Rightarrow> error option \<times> 'w" where
  "try_hosts one [] attempts w = (errors_join attempts, w)"
| "try_hosts one (host # hosts) attempts w =
     (case one host w of
        (None, w') \<Rightarrow> (None, w')
      | (Some err, w') \<Rightarrow> try_hosts one hosts (attempts @ [host @ '': '' @ err]) w')"

definition deliver :: "'w smtp_sender \<Rightarrow> 'w transport \<Rightarrow> string \<Rightarrow> message \<Rightarrow> 'w \<Rightarrow> error option \<times> 'w" where
  "deliver s t rcpt msg w =
     (case after_last CHR ''@'' rcpt of
        None \<Rightarrow> (Some (quote rcpt @ '' is not an address''), w)
      | Some domain \<Rightarrow>
          (case ss_lookupMX s domain w of
             (Inl err, w') \<Rightarrow> (Some (''looking up the MX for '' @ domain @ '': '' @ err), w')
           | (Inr hosts, w') \<Rightarrow>
               (if hosts = [] then (Some (domain @ '' has no MX record''), w')
                else let body = compose s rcpt msg w' in
                  try_hosts (\<lambda>host. deliverTo s t host rcpt body) hosts [] w')))"

fun send_all :: "(string \<Rightarrow> 'w \<Rightarrow> error option \<times> 'w) \<Rightarrow> string list \<Rightarrow> 'w \<Rightarrow> error list \<times> 'w" where
  "send_all one [] w = ([], w)"
| "send_all one (rcpt # rcpts) w =
     (case one rcpt w of
        (Some err, w') \<Rightarrow> (let (errs, w'') = send_all one rcpts w' in
           ((''delivering to '' @ rcpt @ '': '' @ err) # errs, w''))
      | (None, w') \<Rightarrow> send_all one rcpts w')"

definition smtp_send :: "'w smtp_sender \<Rightarrow> 'w transport \<Rightarrow> 'w notifier" where
  "smtp_send s t msg w =
     (let (errs, w') = send_all (\<lambda>rcpt. deliver s t rcpt msg) (ss_recipients s) w in (errors_join errs, w'))"

section \<open>Line endings\<close>

lemma fold_crlf_simps:
  "replace_all [] CRLF [CHR 0x0A] = []"
  "replace_all (CHR 0x0D # CHR 0x0A # s) CRLF [CHR 0x0A] = CHR 0x0A # replace_all s CRLF [CHR 0x0A]"
  "\<not> has_prefix (c # s) CRLF \<Longrightarrow> replace_all (c # s) CRLF [CHR 0x0A] = c # replace_all s CRLF [CHR 0x0A]"
  by (simp_all add: replace_all_def CRLF_def)

definition to_wire :: "string \<Rightarrow> string" where
  "to_wire u = concat (map (\<lambda>c. if c = CHR 0x0A then CRLF else [c]) u)"

lemma expand_lf: "replace_all u [CHR 0x0A] CRLF = to_wire u"
  by (induction u) (simp_all add: replace_all_def to_wire_def)

lemma to_wire_simps [simp]:
  "to_wire [] = []"
  "to_wire (c # u) = (if c = CHR 0x0A then [CHR 0x0D, CHR 0x0A] else [c]) @ to_wire u"
  "to_wire (u @ v) = to_wire u @ to_wire v"
  by (simp_all add: to_wire_def CRLF_def)

lemma to_wire_head: "to_wire u \<noteq> CHR 0x0A # t"
  by (cases u) simp_all

lemma fold_expand: "replace_all (to_wire u) CRLF [CHR 0x0A] = u"
proof (induction u)
  case Nil
  show ?case by (simp add: replace_all_def)
next
  case (Cons c u)
  show ?case
  proof (cases "c = CHR 0x0A")
    case True
    with Cons show ?thesis by (simp add: fold_crlf_simps(2))
  next
    case False
    have "\<not> has_prefix (c # to_wire u) CRLF"
      using to_wire_head [of u] by (auto simp: has_prefix_iff CRLF_def)
    with Cons fold_crlf_simps(3) [OF this] False show ?thesis by simp
  qed
qed

lemma expand_suffix: "has_suffix (to_wire u) CRLF \<longleftrightarrow> u \<noteq> [] \<and> last u = CHR 0x0A"
  by (cases u rule: rev_cases) (auto simp: has_suffix_def CRLF_def)

text \<open>The text with Unix line endings and a last newline, and its form on the wire.\<close>

definition unix_lines :: "string \<Rightarrow> string" where
  "unix_lines body = (let u = replace_all body CRLF [CHR 0x0A] in
     if u \<noteq> [] \<and> last u = CHR 0x0A then u else u @ [CHR 0x0A])"

lemma normaliseNewlines_unix: "normaliseNewlines body = to_wire (unix_lines body)"
  by (simp add: normaliseNewlines_def unix_lines_def expand_lf expand_suffix Let_def) (simp add: CRLF_def)

lemma unix_lines_normal: "unix_lines (normaliseNewlines body) = unix_lines body"
proof -
  have "unix_lines body \<noteq> [] \<and> last (unix_lines body) = CHR 0x0A"
    by (simp add: unix_lines_def Let_def)
  then show ?thesis
    unfolding normaliseNewlines_unix by (simp add: unix_lines_def [of "to_wire _"] fold_expand)
qed

lemma no_bare_lf:
  "i < length (to_wire u) \<Longrightarrow> to_wire u ! i = CHR 0x0A \<Longrightarrow> 0 < i \<and> to_wire u ! (i - 1) = CHR 0x0D"
proof (induction u arbitrary: i)
  case Nil
  then show ?case by simp
next
  case (Cons c u)
  define p where "p = (if c = CHR 0x0A then [CHR 0x0D, CHR 0x0A] else [c])"
  have e: "to_wire (c # u) = p @ to_wire u" by (simp add: p_def)
  show ?case
  proof (cases "i < length p")
    case True
    with Cons.prems show ?thesis
      by (auto simp: p_def nth_append nth_Cons' split: if_splits)
  next
    case False
    then obtain j where j: "i = length p + j" by (metis le_add_diff_inverse not_less)
    have "to_wire u ! j = CHR 0x0A" "j < length (to_wire u)"
      using Cons.prems unfolding e j by (simp_all add: nth_append)
    with Cons.IH have "0 < j" "to_wire u ! (j - 1) = CHR 0x0D" by blast+
    moreover from \<open>0 < j\<close> have "length p + j - 1 = length p + (j - 1)" by simp
    ultimately show ?thesis
      using nth_append_length_plus [of p "to_wire u" "j - 1"] unfolding e j by simp
  qed
qed

section \<open>Reading a mail\<close>

text \<open>The receiver's side: a line ends at CRLF, the headers end at the first empty line.\<close>

fun take_line :: "string \<Rightarrow> (string \<times> string) option" where
  "take_line [] = None"
| "take_line [c] = None"
| "take_line (c # d # s) =
     (if c = CHR 0x0D \<and> d = CHR 0x0A then Some ([], s)
      else map_option (\<lambda>(l, r). (c # l, r)) (take_line (d # s)))"

lemma take_line_shorter: "take_line s = Some (l, r) \<Longrightarrow> length r < length s"
  by (induction s arbitrary: l rule: take_line.induct) (auto split: if_splits)

function read_mail :: "string \<Rightarrow> (string list \<times> string) option" where
  "read_mail s =
     (case take_line s of
        None \<Rightarrow> None
      | Some (l, r) \<Rightarrow> (if l = [] then Some ([], r) else map_option (\<lambda>(ls, b). (l # ls, b)) (read_mail r)))"
  by pat_completeness auto
termination
  by (relation "measure length") (auto dest: take_line_shorter)

declare read_mail.simps [simp del]

lemma take_line_CRLF: "CHR 0x0D \<notin> set l \<Longrightarrow> take_line (l @ CRLF @ r) = Some (l, r)"
proof (induction l)
  case Nil
  show ?case by (simp add: CRLF_def)
next
  case (Cons c l)
  then show ?case by (cases "l @ CRLF @ r") (auto simp: CRLF_def)
qed

lemma read_mail_lines:
  "(\<And>h. h \<in> set hs \<Longrightarrow> h \<noteq> [] \<and> CHR 0x0D \<notin> set h) \<Longrightarrow>
     read_mail (concat (map (\<lambda>h. h @ CRLF) hs) @ CRLF @ b) = Some (hs, b)"
proof (induction hs)
  case Nil
  show ?case by (subst read_mail.simps) (simp add: take_line_CRLF [of "[]", simplified])
next
  case (Cons h hs)
  then have "h \<noteq> []" "CHR 0x0D \<notin> set h" by simp_all
  moreover have "read_mail (concat (map (\<lambda>h. h @ CRLF) hs) @ CRLF @ b) = Some (hs, b)"
    using Cons by simp
  ultimately show ?case by (subst read_mail.simps) (simp add: take_line_CRLF)
qed

lemma upper_hex_printable: "n < 16 \<Longrightarrow> 32 < code (upper_hex n)"
  by (auto simp: upper_hex_def code_def)

definition printable :: "char set" where
  "printable = {c. 32 \<le> code c \<and> code c \<le> 126}"

lemma q_byte_printable: "set (q_byte c) \<subseteq> printable"
proof -
  have h: "code c div 16 < 16" "code c mod 16 < 16"
    by (simp_all add: code_def less_mult_imp_div_less)
  have "upper_hex n \<in> printable" if "n < 16" for n
    using that by (auto simp: upper_hex_def code_def printable_def)
  with h have hex: "upper_hex (code c div 16) \<in> printable" "upper_hex (code c mod 16) \<in> printable"
    by blast+
  have lit: "CHR ''_'' \<in> printable" "CHR ''='' \<in> printable"
    by (simp_all add: printable_def code_def)
  consider "c = CHR '' ''" | "c \<noteq> CHR '' ''" "q_plain c" | "c \<noteq> CHR '' ''" "\<not> q_plain c" by blast
  then show ?thesis
  proof cases
    case 1
    then show ?thesis using lit by (simp add: q_byte_def)
  next
    case 2
    then show ?thesis by (simp add: q_byte_def q_plain_def printable_def)
  next
    case 3
    then show ?thesis using hex lit by (simp add: q_byte_def)
  qed
qed

lemma q_words_printable: "set (q_words n s) \<subseteq> printable"
proof (induction n s rule: q_words.induct)
  case (2 used c s)
  let ?n = "if q_plain c then 1 else rune_length (c # s)"
  let ?cost = "if q_plain c then 1 else 3 * ?n"
  have "set (if b then ''?= =?UTF-8?q?'' else []) \<subseteq> printable" for b
    by (cases b) (simp_all add: printable_def code_def)
  moreover have "set (concat (map q_byte (take ?n (c # s)))) \<subseteq> printable"
    using q_byte_printable by (auto simp del: take_Suc_Cons)
  moreover note "2.IH" [OF refl refl refl]
  ultimately show ?case
    unfolding q_words.simps(2) Let_def set_append by (intro Un_least)
qed simp

lemma CR_not_printable: "CHR 0x0D \<notin> printable"
  by (simp add: printable_def code_def)

text \<open>A subject that keeps to its line: without a carriage return, or encoded because it goes beyond ASCII.\<close>

definition one_line :: "string \<Rightarrow> bool" where
  "one_line subject \<longleftrightarrow> list_ex (\<lambda>c. code c > 127) subject \<or> CHR 0x0D \<notin> set subject"

lemma encodeHeader_one_line:
  assumes "one_line v"
  shows "CHR 0x0D \<notin> set (encodeHeader v)"
proof -
  have "set ''=?UTF-8?q?'' \<subseteq> printable" "set ''?='' \<subseteq> printable"
    by (simp_all add: printable_def code_def)
  then have "set (q_encode v) \<subseteq> printable"
    using q_words_printable [of 0 v] unfolding q_encode_def set_append by (intro Un_least)
  then show ?thesis using assms CR_not_printable by (auto simp: encodeHeader_def one_line_def)
qed

lemma mail_headers_lines:
  assumes "CHR 0x0D \<notin> set from" "CHR 0x0D \<notin> set rcpt" "one_line (ms_Subject msg)"
    and "h \<in> set (mail_headers from rcpt now msg)"
  shows "h \<noteq> [] \<and> CHR 0x0D \<notin> set h"
proof -
  have "CHR 0x0D \<notin> set (rfc1123z now)" "CHR 0x0D \<notin> set (itoa n)" for n
    using rfc1123z_printable [of "CHR 0x0D"] itoa_printable [of "CHR 0x0D"] by fastforce+
  then show ?thesis using assms encodeHeader_one_line [OF assms(3)] by (auto simp: mail_headers_def)
qed

section \<open>Properties\<close>

text \<open>The body on the wire is the alert's body with SMTP line endings: every line feed has its
  carriage return, the text ends in CRLF, undoing the CRLFs gives back the body's lines, and a text
  already in that form is left alone, whatever mix of line endings the transcript had.\<close>

theorem normaliseNewlines_wire_form:
  "(\<forall>i < length (normaliseNewlines b). normaliseNewlines b ! i = CHR 0x0A \<longrightarrow>
      0 < i \<and> normaliseNewlines b ! (i - 1) = CHR 0x0D) \<and>
   has_suffix (normaliseNewlines b) CRLF \<and>
   replace_all (normaliseNewlines b) CRLF [CHR 0x0A] = unix_lines b \<and>
   normaliseNewlines (normaliseNewlines b) = normaliseNewlines b"
proof -
  have "unix_lines b \<noteq> [] \<and> last (unix_lines b) = CHR 0x0A"
    by (simp add: unix_lines_def Let_def)
  moreover have "normaliseNewlines (normaliseNewlines b) = normaliseNewlines b"
    using unix_lines_normal [of b] by (metis normaliseNewlines_unix)
  ultimately show ?thesis
    using no_bare_lf [of _ "unix_lines b"] fold_expand expand_suffix by (simp add: normaliseNewlines_unix)
qed

lemma wire_form_example:
  "normaliseNewlines ''a'' = [CHR ''a'', CHR 0x0D, CHR 0x0A]"
  by (simp add: normaliseNewlines_def replace_all_def CRLF_def has_suffix_def)

theorem normaliseNewlines_wire_form_witness:
  "normaliseNewlines ''a'' ! 2 = CHR 0x0A \<and> normaliseNewlines ''a'' ! (2 - 1) = CHR 0x0D"
  using normaliseNewlines_wire_form [of "''a''"] by (simp add: wire_form_example)


definition demo_sender :: "unit smtp_sender" where
  "demo_sender = \<lparr>ss_from = ''watchdog@mail.example'', ss_helo = ''mail.example'', ss_recipients = [''ops@mail.example''],
     ss_port = 25, ss_lookupMX = \<lambda>d w. (Inr [''mx1'', ''mx2''], w),
     ss_now = \<lambda>w. \<lparr>tm_ns = 0, tm_offset = 0, tm_zone = ''UTC''\<rparr>\<rparr>"


text \<open>A plain ASCII subject is written as it is, so a line break in it starts a header of its own: here
  the mail has ten.\<close>

lemma subject_injects_header:
  "map_option fst (read_mail (compose demo_sender ''ops@mail.example''
      \<lparr>ms_Service = [], ms_Subject = ''a'' @ CRLF @ ''Bcc: all'', ms_Body = []\<rparr> ()))
   = Some (take 3 hs @ [''Subject: a'', ''Bcc: all''] @ drop 4 hs)"
  if "hs = mail_headers ''watchdog@mail.example'' ''ops@mail.example'' (ss_now demo_sender ())
     \<lparr>ms_Service = [], ms_Subject = ''a'', ms_Body = []\<rparr>"
proof -
  let ?hs = "take 3 hs @ [''Subject: a'', ''Bcc: all''] @ drop 4 hs"
  have h: "\<And>h. h \<in> set ?hs \<Longrightarrow> h \<noteq> [] \<and> CHR 0x0D \<notin> set h"
    using mail_headers_lines [of "''watchdog@mail.example''" "''ops@mail.example''" "\<lparr>ms_Service = [], ms_Subject = ''a'', ms_Body = []\<rparr>"] that
    by (auto simp: one_line_def dest!: in_set_takeD in_set_dropD)
  have "compose demo_sender ''ops@mail.example'' \<lparr>ms_Service = [], ms_Subject = ''a'' @ CRLF @ ''Bcc: all'', ms_Body = []\<rparr> ()
      = concat (map (\<lambda>h. h @ CRLF) ?hs) @ CRLF @ normaliseNewlines []"
    unfolding that by (simp add: compose_def mail_headers_def encodeHeader_def code_def demo_sender_def CRLF_def)
  then show ?thesis by (simp only: read_mail_lines [OF h]) simp
qed

text \<open>The refusals of a list of exchangers and the world after them, when they all refuse.\<close>

fun all_refuse :: "(string \<Rightarrow> 'w \<Rightarrow> error option \<times> 'w) \<Rightarrow> string list \<Rightarrow> 'w \<Rightarrow> (error list \<times> 'w) option" where
  "all_refuse one [] w = Some ([], w)"
| "all_refuse one (host # hosts) w =
     (case one host w of
        (None, w') \<Rightarrow> None
      | (Some err, w') \<Rightarrow> map_option (\<lambda>(errs, u). (err # errs, u)) (all_refuse one hosts w'))"

text \<open>Exchangers are tried in preference order and no further than needed: either some exchanger
  accepts the mail after all before it refused, and then it is the last one contacted and the delivery
  succeeds; or all of them refuse, and the error lists every one with its reason, in order.\<close>

theorem try_hosts_first_accepting:
  "(\<exists>before host after errs w'. hosts = before @ host # after \<and> all_refuse one before w = Some (errs, w') \<and>
      fst (one host w') = None \<and> try_hosts one hosts prior w = one host w') \<or>
   (\<exists>errs. all_refuse one hosts w = Some (errs, snd (try_hosts one hosts prior w)) \<and>
      fst (try_hosts one hosts prior w) = errors_join (prior @ map (\<lambda>(h, m). h @ '': '' @ m) (zip hosts errs)))"
  (is "?accepted hosts w prior \<or> ?refused hosts w prior")
proof (induction hosts arbitrary: prior w)
  case Nil
  show ?case by simp
next
  case (Cons h hosts)
  obtain e u where o: "one h w = (e, u)" by (cases "one h w")
  show ?case
  proof (cases e)
    case None
    with o have "?accepted (h # hosts) w prior"
      by (metis (no_types, lifting) all_refuse.simps(1) append_Nil fst_conv try_hosts.simps(2) old.prod.case option.case(1))
    then show ?thesis ..
  next
    case (Some m)
    let ?prior = "prior @ [h @ '': '' @ m]"
    have next_host: "try_hosts one (h # hosts) prior w = try_hosts one hosts ?prior u" using o Some by simp
    from Cons.IH [of u ?prior] show ?thesis
    proof
      assume "?accepted hosts u ?prior"
      then obtain before host after errs w' where a: "hosts = before @ host # after"
        "all_refuse one before u = Some (errs, w')" "fst (one host w') = None"
        "try_hosts one hosts ?prior u = one host w'" by blast
      then have "h # hosts = (h # before) @ host # after"
        "all_refuse one (h # before) w = Some (m # errs, w')" using o Some by simp_all
      with a next_host have "?accepted (h # hosts) w prior" by metis
      then show ?thesis ..
    next
      assume "?refused hosts u ?prior"
      then obtain errs where "all_refuse one hosts u = Some (errs, snd (try_hosts one hosts ?prior u))"
        "fst (try_hosts one hosts ?prior u) = errors_join (?prior @ map (\<lambda>(h, m). h @ '': '' @ m) (zip hosts errs))"
        by blast
      then have "?refused (h # hosts) w prior"
        using o Some by (intro exI [of _ "m # errs"]) simp
      then show ?thesis ..
    qed
  qed
qed

text \<open>C34. A mail goes to the most preferred exchanger that takes it: the hosts are the resolver's records in
  ascending preference, equal ones in the resolver's order and without the root's dot; they are tried
  in that order with the same text, until one accepts, and then the delivery succeeds and no further
  host is contacted; or all refuse, and the error names every one with its reason, in order.\<close>

theorem mail_goes_to_the_most_preferred_exchanger:
  assumes "after_last CHR ''@'' rcpt = Some domain" "ss_lookupMX s = DefaultMXLookup resolver"
    and "resolver domain w = (Inr records, w1)" "records \<noteq> []"
  shows "\<exists>order. sorted (map mx_Pref order) \<and>
    (\<forall>k. filter (\<lambda>r. mx_Pref r = k) order = filter (\<lambda>r. mx_Pref r = k) records) \<and>
    (let one = (\<lambda>host. deliverTo s t host rcpt (compose s rcpt msg w1)); hosts = map mx_host order in
      (\<exists>before host after errs u. hosts = before @ host # after \<and> all_refuse one before w1 = Some (errs, u) \<and>
         fst (one host u) = None \<and> deliver s t rcpt msg w = one host u) \<or>
      (\<exists>errs. all_refuse one hosts w1 = Some (errs, snd (deliver s t rcpt msg w)) \<and>
         fst (deliver s t rcpt msg w) = errors_join (map (\<lambda>(h, m). h @ '': '' @ m) (zip hosts errs))))"
proof (intro exI conjI allI)
  let ?order = "sort_key mx_Pref records"
  show "sorted (map mx_Pref ?order)" by simp
  show "filter (\<lambda>r. mx_Pref r = k) ?order = filter (\<lambda>r. mx_Pref r = k) records" for k
    by (rule sort_key_stable)
  have "?order \<noteq> []" using assms(4) by (metis set_empty set_sort)
  with assms have d: "deliver s t rcpt msg w =
      try_hosts (\<lambda>host. deliverTo s t host rcpt (compose s rcpt msg w1)) (map mx_host ?order) [] w1"
    by (simp add: deliver_def DefaultMXLookup_def Let_def)
  show "let one = (\<lambda>host. deliverTo s t host rcpt (compose s rcpt msg w1)); hosts = map mx_host ?order in
      (\<exists>before host after errs u. hosts = before @ host # after \<and> all_refuse one before w1 = Some (errs, u) \<and>
         fst (one host u) = None \<and> deliver s t rcpt msg w = one host u) \<or>
      (\<exists>errs. all_refuse one hosts w1 = Some (errs, snd (deliver s t rcpt msg w)) \<and>
         fst (deliver s t rcpt msg w) = errors_join (map (\<lambda>(h, m). h @ '': '' @ m) (zip hosts errs)))"
    using try_hosts_first_accepting [where prior = "[]" and w = w1 and hosts = "map mx_host ?order"
        and one = "\<lambda>host. deliverTo s t host rcpt (compose s rcpt msg w1)"]
    unfolding Let_def d append_Nil .
qed

definition two_exchangers :: "unit smtp_sender" where
  "two_exchangers = demo_sender\<lparr>ss_lookupMX := DefaultMXLookup
     (\<lambda>d w. (Inr [\<lparr>mx_Host = ''backup.example.'', mx_Pref = 20\<rparr>, \<lparr>mx_Host = ''mx.example.'', mx_Pref = 10\<rparr>], w))\<rparr>"

theorem mail_goes_to_the_most_preferred_exchanger_witness:
  "\<exists>order. sorted (map mx_Pref order) \<and> filter (\<lambda>r. mx_Pref r = 10) order = [\<lparr>mx_Host = ''mx.example.'', mx_Pref = 10\<rparr>]"
proof -
  have "after_last CHR ''@'' ''ops@mail.example'' = Some ''mail.example''" by code_simp
  moreover have "ss_lookupMX two_exchangers = DefaultMXLookup (\<lambda>d w.
      (Inr [\<lparr>mx_Host = ''backup.example.'', mx_Pref = 20\<rparr>, \<lparr>mx_Host = ''mx.example.'', mx_Pref = 10\<rparr>], w))"
    by (simp add: two_exchangers_def)
  ultimately show ?thesis
    using mail_goes_to_the_most_preferred_exchanger [of "''ops@mail.example''" "''mail.example''" two_exchangers] by fastforce
qed

end
