(* ===== verification/Config.thy ===== *)
theory Config
  imports Dockerapi "HOL-Library.List_Lexorder" "HOL-Library.Char_ord"
begin

text \<open>
  internal/config: the configuration read from the environment, and what validate refuses. The
  environment is a function from names to values. A loader never reads the errors gathered so far,
  so each of env's methods returns its value and the errors it adds, and Load puts the errors
  together in the order of the calls. time.ParseDuration, Duration.String, url.Parse and
  net.SplitHostPort are parameters, in the record \<open>golib\<close>.
\<close>

record golib =
  gl_ParseDuration :: "string \<Rightarrow> int option"
  gl_DurationString :: "int \<Rightarrow> string"
  gl_url_error :: "string \<Rightarrow> error option"
  gl_SplitHostPort_error :: "string \<Rightarrow> error option"

section \<open>Environment values\<close>

type_synonym lookup = "string \<Rightarrow> string option"

definition env_str :: "lookup \<Rightarrow> string \<Rightarrow> string \<Rightarrow> string" where
  "env_str look key def =
     (case look key of
        None \<Rightarrow> def
      | Some v \<Rightarrow> if trim_space v = [] then def else trim_space v)"

definition env_int :: "lookup \<Rightarrow> string \<Rightarrow> int \<Rightarrow> int \<times> error list" where
  "env_int look key def =
     (case look key of
        None \<Rightarrow> (def, [])
      | Some raw \<Rightarrow>
          (if trim_space raw = [] then (def, [])
           else case atoi (trim_space raw) of
             None \<Rightarrow> (def, [key @ '' must be an integer (got '' @ quote raw @ '')''])
           | Some n \<Rightarrow>
               (if n < 0 then (def, [key @ '' must not be negative (got '' @ itoa n @ '')'']) else (n, []))))"

definition env_duration :: "golib \<Rightarrow> lookup \<Rightarrow> string \<Rightarrow> int \<Rightarrow> int \<times> error list" where
  "env_duration gl look key def =
     (case look key of
        None \<Rightarrow> (def, [])
      | Some raw \<Rightarrow>
          (if trim_space raw = [] then (def, [])
           else case gl_ParseDuration gl (trim_space raw) of
             None \<Rightarrow> (def, [key @ '' must be a duration such as 30s (got '' @ quote raw @ '')''])
           | Some d \<Rightarrow> (d, [])))"

definition env_err :: "error list \<Rightarrow> error option" where
  "env_err errs = (if errs = [] then None else Some (''invalid configuration: '' @ join ''; '' errs))"

definition isYes :: "string \<Rightarrow> bool" where
  "isYes v = (let w = to_lower (trim_space v) in w = ''y'' \<or> w = ''yes'')"

definition isNo :: "string \<Rightarrow> bool" where
  "isNo v = (let w = to_lower (trim_space v) in w = ''n'' \<or> w = ''no'')"

definition quotes :: string where
  "quotes = [CHR 0x22, CHR 0x27]"

definition splitAddresses :: "string \<Rightarrow> string list" where
  "splitAddresses raw =
     (let raw = trim_cutset (trim_space raw) quotes in
      if raw = [] then []
      else filter (\<lambda>p. p \<noteq> []) (map (\<lambda>p. trim_cutset (trim_space p) quotes) (split_at CHR '','' raw)))"

section \<open>Config\<close>

record check_spec =
  sp_Enabled :: bool
  sp_Threshold :: int

record checks_conf =
  cc_External :: check_spec
  cc_Nginx :: check_spec
  cc_Unbound :: check_spec
  cc_Redis :: check_spec
  cc_MySQL :: check_spec
  cc_MySQLRepl :: check_spec
  cc_SOGo :: check_spec
  cc_Postfix :: check_spec
  cc_PostfixTLSPo :: check_spec
  cc_Clamd :: check_spec
  cc_Dovecot :: check_spec
  cc_DovecotRepl :: check_spec
  cc_Cert :: check_spec
  cc_PHPFPM :: check_spec
  cc_Ratelimit :: check_spec
  cc_Mailq :: check_spec
  cc_Fail2ban :: check_spec
  cc_ACME :: check_spec
  cc_Rspamd :: check_spec
  cc_Olefy :: check_spec
  cc_MailqCritical :: int

definition checks_all :: "checks_conf \<Rightarrow> (string \<times> check_spec) list" where
  "checks_all c =
     [(''external'', cc_External c), (''nginx'', cc_Nginx c), (''unbound'', cc_Unbound c), (''redis'', cc_Redis c),
      (''mysql'', cc_MySQL c), (''mysql-repl'', cc_MySQLRepl c), (''sogo'', cc_SOGo c), (''postfix'', cc_Postfix c),
      (''postfix-tlspol'', cc_PostfixTLSPo c), (''clamd'', cc_Clamd c), (''dovecot'', cc_Dovecot c),
      (''dovecot-repl'', cc_DovecotRepl c), (''cert'', cc_Cert c), (''php-fpm'', cc_PHPFPM c),
      (''ratelimit'', cc_Ratelimit c), (''mailq'', cc_Mailq c), (''fail2ban'', cc_Fail2ban c), (''acme'', cc_ACME c),
      (''rspamd'', cc_Rspamd c), (''olefy'', cc_Olefy c)]"

definition sortedNames :: "(string \<times> check_spec) list \<Rightarrow> string list" where
  "sortedNames m = sort (map fst m)"

record mailcow_conf =
  mc_Hostname :: string
  mc_ComposeProject :: string
  mc_IPv4Network :: string
  mc_IPv6Network :: string

record db_conf =
  db_Socket :: string
  db_User :: string
  db_Password :: string
  db_Name :: string
  db_Root :: string

definition DSN :: "db_conf \<Rightarrow> string \<Rightarrow> string \<Rightarrow> string \<Rightarrow> string" where
  "DSN d user password database =
     user @ '':'' @ password @ ''@unix('' @ db_Socket d @ '')/'' @ database
     @ ''?tls=false&parseTime=true&timeout=5s&readTimeout=10s''"

definition AppDSN :: "db_conf \<Rightarrow> string" where
  "AppDSN d = DSN d (db_User d) (db_Password d) (db_Name d)"

definition RootDSN :: "db_conf \<Rightarrow> string" where
  "RootDSN d = DSN d ''root'' (db_Root d) []"

record redis_conf =
  rd_Addr :: string
  rd_Password :: string
  rd_LocalAddr :: string

record docker_conf =
  dk_BaseURL :: string
  dk_Dialect :: string
  dk_UseAPI :: bool

record log_conf =
  lg_Level :: string
  lg_Format :: string

record notify_conf =
  nt_Emails :: "string list"
  nt_Webhook :: string
  nt_WebhookBody :: string
  nt_Subject :: string
  nt_OnStart :: bool
  nt_OnBan :: bool
  nt_From :: string
  nt_HELO :: string

definition notify_enabled :: "notify_conf \<Rightarrow> bool" where
  "notify_enabled n \<longleftrightarrow> length (nt_Emails n) > 0 \<or> nt_Webhook n \<noteq> []"

record config =
  cf_Enabled :: bool
  cf_Verbose :: bool
  cf_SettleDelay :: int
  cf_CheckInterval :: int
  cf_Mailcow :: mailcow_conf
  cf_DB :: db_conf
  cf_Redis :: redis_conf
  cf_Docker :: docker_conf
  cf_Notify :: notify_conf
  cf_Checks :: checks_conf
  cf_Log :: log_conf
  cf_ObsListen :: string
  cf_MailqDir :: string

section \<open>Loading\<close>

text \<open>The compose defaults of the thresholds.\<close>

definition defaultExternalThreshold :: int where [simp]: "defaultExternalThreshold = 1"
definition defaultNginxThreshold :: int where [simp]: "defaultNginxThreshold = 5"
definition defaultUnboundThreshold :: int where [simp]: "defaultUnboundThreshold = 5"
definition defaultRedisThreshold :: int where [simp]: "defaultRedisThreshold = 5"
definition defaultMySQLThreshold :: int where [simp]: "defaultMySQLThreshold = 5"
definition defaultMySQLReplThreshold :: int where [simp]: "defaultMySQLReplThreshold = 1"
definition defaultSOGoThreshold :: int where [simp]: "defaultSOGoThreshold = 3"
definition defaultPostfixThreshold :: int where [simp]: "defaultPostfixThreshold = 8"
definition defaultPostfixTLSPolThreshold :: int where [simp]: "defaultPostfixTLSPolThreshold = 8"
definition defaultClamdThreshold :: int where [simp]: "defaultClamdThreshold = 15"
definition defaultDovecotThreshold :: int where [simp]: "defaultDovecotThreshold = 12"
definition defaultDovecotReplThreshold :: int where [simp]: "defaultDovecotReplThreshold = 20"
definition defaultPHPFPMThreshold :: int where [simp]: "defaultPHPFPMThreshold = 5"
definition defaultRatelimitThreshold :: int where [simp]: "defaultRatelimitThreshold = 1"
definition defaultMailqThreshold :: int where [simp]: "defaultMailqThreshold = 20"
definition defaultFail2banThreshold :: int where [simp]: "defaultFail2banThreshold = 1"
definition defaultACMEThreshold :: int where [simp]: "defaultACMEThreshold = 1"
definition defaultRspamdThreshold :: int where [simp]: "defaultRspamdThreshold = 5"
definition defaultOlefyThreshold :: int where [simp]: "defaultOlefyThreshold = 5"

definition CertThreshold :: int where
  "CertThreshold = 7"

definition DefaultCheckInterval :: int where
  "DefaultCheckInterval = 20 * second"

definition DefaultObsListen :: string where
  "DefaultObsListen = '':9393''"

definition mailqSpoolDir :: string where
  "mailqSpoolDir = ''/var/spool/postfix/deferred''"

definition loadRedis :: "lookup \<Rightarrow> redis_conf" where
  "loadRedis look =
     (let localAddr = ''redis:6379'';
          ip = env_str look ''REDIS_SLAVEOF_IP'' [];
          addr = (if ip \<noteq> [] then join_host_port ip (env_str look ''REDIS_SLAVEOF_PORT'' ''6379'') else localAddr)
      in \<lparr>rd_Addr = addr, rd_Password = env_str look ''REDISPASS'' [], rd_LocalAddr = localAddr\<rparr>)"

definition loadDocker :: "lookup \<Rightarrow> string \<Rightarrow> docker_conf \<times> error list" where
  "loadDocker look project =
     (let base = env_str look ''DOCKER_API_URL'' [];
          base = (if base = [] \<and> project \<noteq> [] then ''https://dockerapi.'' @ project @ ''_mailcow-network'' else base);
          (use, errs) = env_int look ''IP_BY_DOCKER_API'' 0
      in (\<lparr>dk_BaseURL = base, dk_Dialect = to_lower (env_str look ''DOCKER_API_DIALECT'' ''auto''), dk_UseAPI = (use \<noteq> 0)\<rparr>, errs))"

definition loadNotify :: "lookup \<Rightarrow> string \<Rightarrow> notify_conf" where
  "loadNotify look hostname =
     \<lparr>nt_Emails = splitAddresses (env_str look ''WATCHDOG_NOTIFY_EMAIL'' []),
      nt_Webhook = trim_space (env_str look ''WATCHDOG_NOTIFY_WEBHOOK'' []),
      nt_WebhookBody = env_str look ''WATCHDOG_NOTIFY_WEBHOOK_BODY'' [],
      nt_Subject = env_str look ''WATCHDOG_SUBJECT'' ''Watchdog ALERT'',
      nt_OnStart = isYes (env_str look ''WATCHDOG_NOTIFY_START'' ''y''),
      nt_OnBan = isYes (env_str look ''WATCHDOG_NOTIFY_BAN'' ''n''),
      nt_From = ''watchdog@'' @ hostname,
      nt_HELO = hostname\<rparr>"

text \<open>The integers of loadChecks, in the order it reads them, with their defaults.\<close>

definition check_ints :: "(string \<times> int) list" where
  "check_ints =
     [(''EXTERNAL_CHECKS_THRESHOLD'', defaultExternalThreshold), (''NGINX_THRESHOLD'', defaultNginxThreshold),
      (''CHECK_UNBOUND'', 1), (''UNBOUND_THRESHOLD'', defaultUnboundThreshold),
      (''REDIS_THRESHOLD'', defaultRedisThreshold), (''MYSQL_THRESHOLD'', defaultMySQLThreshold),
      (''MYSQL_REPLICATION_THRESHOLD'', defaultMySQLReplThreshold), (''SOGO_THRESHOLD'', defaultSOGoThreshold),
      (''POSTFIX_THRESHOLD'', defaultPostfixThreshold), (''POSTFIX_TLSPOL_THRESHOLD'', defaultPostfixTLSPolThreshold),
      (''CLAMD_THRESHOLD'', defaultClamdThreshold), (''DOVECOT_THRESHOLD'', defaultDovecotThreshold),
      (''DOVECOT_REPL_THRESHOLD'', defaultDovecotReplThreshold), (''PHPFPM_THRESHOLD'', defaultPHPFPMThreshold),
      (''RATELIMIT_THRESHOLD'', defaultRatelimitThreshold), (''MAILQ_THRESHOLD'', defaultMailqThreshold),
      (''FAIL2BAN_THRESHOLD'', defaultFail2banThreshold), (''ACME_THRESHOLD'', defaultACMEThreshold),
      (''RSPAMD_THRESHOLD'', defaultRspamdThreshold), (''OLEFY_THRESHOLD'', defaultOlefyThreshold),
      (''MAILQ_CRIT'', 30)]"

definition loadChecks :: "lookup \<Rightarrow> checks_conf \<times> error list" where
  "loadChecks look =
     (let num = (\<lambda>key. fst (env_int look key (the (map_of check_ints key))));
          spec = (\<lambda>enabled key. \<lparr>sp_Enabled = enabled, sp_Threshold = num key\<rparr>);
          yes = (\<lambda>key. isYes (env_str look key ''n''));
          no = (\<lambda>key. isNo (env_str look key ''n''))
      in (\<lparr>cc_External = spec (yes ''WATCHDOG_EXTERNAL_CHECKS'') ''EXTERNAL_CHECKS_THRESHOLD'',
           cc_Nginx = spec True ''NGINX_THRESHOLD'',
           cc_Unbound = spec (num ''CHECK_UNBOUND'' = 1) ''UNBOUND_THRESHOLD'',
           cc_Redis = spec True ''REDIS_THRESHOLD'',
           cc_MySQL = spec True ''MYSQL_THRESHOLD'',
           cc_MySQLRepl = spec (yes ''WATCHDOG_MYSQL_REPLICATION_CHECKS'') ''MYSQL_REPLICATION_THRESHOLD'',
           cc_SOGo = spec (no ''SKIP_SOGO'') ''SOGO_THRESHOLD'',
           cc_Postfix = spec True ''POSTFIX_THRESHOLD'',
           cc_PostfixTLSPo = spec True ''POSTFIX_TLSPOL_THRESHOLD'',
           cc_Clamd = spec (no ''SKIP_CLAMD'') ''CLAMD_THRESHOLD'',
           cc_Dovecot = spec True ''DOVECOT_THRESHOLD'',
           cc_DovecotRepl = spec True ''DOVECOT_REPL_THRESHOLD'',
           cc_Cert = \<lparr>sp_Enabled = True, sp_Threshold = CertThreshold\<rparr>,
           cc_PHPFPM = spec True ''PHPFPM_THRESHOLD'',
           cc_Ratelimit = spec True ''RATELIMIT_THRESHOLD'',
           cc_Mailq = spec True ''MAILQ_THRESHOLD'',
           cc_Fail2ban = spec True ''FAIL2BAN_THRESHOLD'',
           cc_ACME = spec True ''ACME_THRESHOLD'',
           cc_Rspamd = spec True ''RSPAMD_THRESHOLD'',
           cc_Olefy = spec (no ''SKIP_OLEFY'') ''OLEFY_THRESHOLD'',
           cc_MailqCritical = num ''MAILQ_CRIT''\<rparr>,
          concat (map (\<lambda>(key, def). snd (env_int look key def)) check_ints)))"

definition loadLog :: "lookup \<Rightarrow> bool \<Rightarrow> log_conf" where
  "loadLog look verbose =
     (let (level, format) = (if \<not> isNo (env_str look ''DEV_MODE'' ''n'') then (''debug'', ''text'') else (''info'', ''json''));
          level = (if verbose then ''debug'' else level)
      in \<lparr>lg_Level = to_lower (env_str look ''LOG_LEVEL'' level), lg_Format = to_lower (env_str look ''LOG_FORMAT'' format)\<rparr>)"

section \<open>Validation\<close>

definition validateListen :: "golib \<Rightarrow> string \<Rightarrow> string \<Rightarrow> error option" where
  "validateListen gl name addr =
     (if addr = [] then None
      else if contains addr ''/''
      then Some (name @ '' must be a listen address such as '' @ quote '':9393'' @ '', not a URL (got '' @ quote addr @ '')'')
      else case gl_SplitHostPort_error gl addr of
        Some err \<Rightarrow> Some (name @ '' must be a host:port address such as '' @ quote '':9393'' @ '' (got '' @ quote addr @ ''): '' @ err)
      | None \<Rightarrow> None)"

text \<open>strings.Cut at a colon: the part before the first one, when there is one.\<close>

definition cut_colon :: "string \<Rightarrow> string option" where
  "cut_colon s = (if CHR '':'' \<in> set s then Some (takeWhile (\<lambda>c. c \<noteq> CHR '':'') s) else None)"

definition bad_threshold :: "checks_conf \<Rightarrow> string option" where
  "bad_threshold c =
     find (\<lambda>name. case map_of (checks_all c) name of None \<Rightarrow> False
        | Some spec \<Rightarrow> sp_Enabled spec \<and> sp_Threshold spec < 1) (sortedNames (checks_all c))"

text \<open>The checks of validate in order: the first one that applies gives the error.\<close>

definition validate_errors :: "golib \<Rightarrow> config \<Rightarrow> (bool \<times> error) list" where
  "validate_errors gl c =
     (let m = cf_Mailcow c; d = cf_DB c; k = cf_Docker c; n = cf_Notify c; l = cf_Log c in
      [(mc_Hostname m = [], ''MAILCOW_HOSTNAME is not set''),
       (mc_ComposeProject m = [], ''COMPOSE_PROJECT_NAME is not set''),
       (db_User d = [] \<or> db_Password d = [] \<or> db_Name d = [], ''DBUSER, DBPASS and DBNAME must all be set''),
       (sp_Enabled (cc_MySQLRepl (cf_Checks c)) \<and> db_Root d = [],
          ''DBROOT must be set when WATCHDOG_MYSQL_REPLICATION_CHECKS is enabled''),
       (cf_CheckInterval c \<le> 0,
          ''WATCHDOG_CHECK_INTERVAL must be positive (got '' @ gl_DurationString gl (cf_CheckInterval c) @ '')''),
       (dk_Dialect k \<notin> {[], ''auto'', ''mailcow'', ''engine'', ''docker''},
          ''DOCKER_API_DIALECT must be auto, mailcow or engine (got '' @ quote (dk_Dialect k) @ '')''),
       (case cut_colon (dk_BaseURL k) of None \<Rightarrow> False | Some scheme \<Rightarrow> scheme \<notin> {''https'', ''http'', ''unix''},
          ''DOCKER_API_URL must use https:// or unix:// (got '' @ quote (dk_BaseURL k) @ '')''),
       (nt_Webhook n \<noteq> [] \<and> gl_url_error gl (nt_Webhook n) \<noteq> None,
          ''WATCHDOG_NOTIFY_WEBHOOK is not a valid URL: ''
            @ (case gl_url_error gl (nt_Webhook n) of Some e \<Rightarrow> e | None \<Rightarrow> [])),
       (nt_Webhook n \<noteq> [] \<and> nt_WebhookBody n = [],
          ''WATCHDOG_NOTIFY_WEBHOOK is set but WATCHDOG_NOTIFY_WEBHOOK_BODY is empty''),
       (list_ex (\<lambda>a. \<not> contains a ''@'') (nt_Emails n),
          ''WATCHDOG_NOTIFY_EMAIL contains ''
            @ (case find (\<lambda>a. \<not> contains a ''@'') (nt_Emails n) of Some a \<Rightarrow> quote a | None \<Rightarrow> [])
            @ '', which is not an address''),
       (bad_threshold (cf_Checks c) \<noteq> None,
          (case bad_threshold (cf_Checks c) of
             Some name \<Rightarrow> ''threshold for check '' @ quote name @ '' must be at least 1 (got ''
               @ (case map_of (checks_all (cf_Checks c)) name of Some s \<Rightarrow> itoa (sp_Threshold s) | None \<Rightarrow> []) @ '')''
           | None \<Rightarrow> [])),
       (lg_Level l \<notin> {''debug'', ''info'', ''warn'', ''error''},
          ''LOG_LEVEL must be one of debug, info, warn, error (got '' @ quote (lg_Level l) @ '')''),
       (lg_Format l \<notin> {''json'', ''text''}, ''LOG_FORMAT must be json or text (got '' @ quote (lg_Format l) @ '')''),
       (validateListen gl ''WATCHDOG_METRICS_LISTEN'' (cf_ObsListen c) \<noteq> None,
          (case validateListen gl ''WATCHDOG_METRICS_LISTEN'' (cf_ObsListen c) of Some e \<Rightarrow> e | None \<Rightarrow> []))])"

definition validate :: "golib \<Rightarrow> config \<Rightarrow> error option" where
  "validate gl c = map_option snd (find fst (validate_errors gl c))"

section \<open>Load\<close>

definition load_config :: "golib \<Rightarrow> lookup \<Rightarrow> config \<times> error list" where
  "load_config gl look =
     (let verbose = isYes (env_str look ''WATCHDOG_VERBOSE'' ''n'');
          (settle, e1) = env_duration gl look ''WATCHDOG_SETTLE_DELAY'' (30 * second);
          (interval, e2) = env_duration gl look ''WATCHDOG_CHECK_INTERVAL'' DefaultCheckInterval;
          hostname = env_str look ''MAILCOW_HOSTNAME'' [];
          project = env_str look ''COMPOSE_PROJECT_NAME'' [];
          (docker, e3) = loadDocker look project;
          (checks, e4) = loadChecks look
      in (\<lparr>cf_Enabled = (\<not> isNo (env_str look ''USE_WATCHDOG'' ''y'')),
           cf_Verbose = verbose,
           cf_SettleDelay = settle,
           cf_CheckInterval = interval,
           cf_Mailcow = \<lparr>mc_Hostname = hostname, mc_ComposeProject = project,
             mc_IPv4Network = env_str look ''IPV4_NETWORK'' [], mc_IPv6Network = env_str look ''IPV6_NETWORK'' []\<rparr>,
           cf_DB = \<lparr>db_Socket = env_str look ''DBSOCKET'' ''/var/run/mysqld/mysqld.sock'',
             db_User = env_str look ''DBUSER'' [], db_Password = env_str look ''DBPASS'' [],
             db_Name = env_str look ''DBNAME'' [], db_Root = env_str look ''DBROOT'' []\<rparr>,
           cf_Redis = loadRedis look,
           cf_Docker = docker,
           cf_Notify = loadNotify look hostname,
           cf_Checks = checks,
           cf_Log = loadLog look verbose,
           cf_ObsListen = env_str look ''WATCHDOG_METRICS_LISTEN'' DefaultObsListen,
           cf_MailqDir = env_str look ''MAILQ_SPOOL_DIR'' mailqSpoolDir\<rparr>,
          e1 @ e2 @ e3 @ e4))"

definition Load :: "golib \<Rightarrow> lookup \<Rightarrow> config res" where
  "Load gl look =
     (let (cfg, errs) = load_config gl look in
      case env_err errs of
        Some err \<Rightarrow> Inl err
      | None \<Rightarrow> (case validate gl cfg of Some err \<Rightarrow> Inl err | None \<Rightarrow> Inr cfg))"

section \<open>Lemmas\<close>

lemma env_int_bounds: "0 \<le> def \<Longrightarrow> def \<le> max_int64 \<Longrightarrow> 0 \<le> fst (env_int look key def) \<and> fst (env_int look key def) \<le> max_int64"
  by (auto simp: env_int_def atoi_def Let_def in64_def split: option.splits if_splits prod.splits)

lemma check_ints_defaults:
  "(key, def) \<in> set check_ints \<Longrightarrow> 0 \<le> def \<and> def \<le> max_int64"
  by (auto simp: check_ints_def)

lemma validate_None_iff: "validate gl c = None \<longleftrightarrow> list_all (\<lambda>e. \<not> fst e) (validate_errors gl c)"
  by (auto simp: validate_def find_None_iff list_all_iff)

lemma map_of_sortedNames: "set (sortedNames m) = fst ` set m"
  by (simp add: sortedNames_def)

lemma distinct_checks_all: "distinct (map fst (checks_all c))"
  by (simp add: checks_all_def)

lemma bad_threshold_None:
  "bad_threshold c = None \<Longrightarrow> (name, spec) \<in> set (checks_all c) \<Longrightarrow> sp_Enabled spec \<Longrightarrow> 1 \<le> sp_Threshold spec"
proof -
  assume b: "bad_threshold c = None" and m: "(name, spec) \<in> set (checks_all c)" and e: "sp_Enabled spec"
  have "map_of (checks_all c) name = Some spec" using m distinct_checks_all by (rule map_of_is_SomeI [rotated])
  moreover have "name \<in> set (sortedNames (checks_all c))" using m by (force simp: map_of_sortedNames)
  ultimately show ?thesis using b e unfolding bad_threshold_def find_None_iff by fastforce
qed

lemma split_at_parts: "p \<in> set (split_at d s) \<Longrightarrow> d \<notin> set p"
  by (induction s arbitrary: p) (auto split: if_splits list.splits)

lemma trim_with_ends:
  "trim_with q s \<noteq> [] \<Longrightarrow> \<not> q (hd (trim_with q s)) \<and> \<not> q (last (trim_with q s)) \<and> set (trim_with q s) \<subseteq> set s"
proof -
  let ?t = "dropWhile q s"
  let ?r = "dropWhile q (rev ?t)"
  assume n: "trim_with q s \<noteq> []"
  then have r: "?r \<noteq> []" by (simp add: trim_with_def)
  have last: "\<not> q (hd ?r)" using r hd_dropWhile by blast
  have "?t \<noteq> []" using r by (cases ?t) simp_all
  then have first: "\<not> q (hd ?t)" using hd_dropWhile by blast
  have "rev ?t = takeWhile q (rev ?t) @ ?r" by simp
  then have "?t = rev ?r @ rev (takeWhile q (rev ?t))" by (metis rev_append rev_rev_ident)
  then have "hd (rev ?r) = hd ?t" using r by (metis hd_append2 rev_is_Nil_conv)
  with first last r have "\<not> q (hd (rev ?r)) \<and> \<not> q (last (rev ?r))" by (simp add: last_rev)
  moreover have "set ?r \<subseteq> set s" by (metis set_dropWhileD set_rev subsetI)
  ultimately show ?thesis by (simp add: trim_with_def)
qed

lemma trim_with_subset: "set (trim_with q s) \<subseteq> set s"
  using trim_with_ends by (cases "trim_with q s = []") auto

section \<open>Properties\<close>

text \<open>C32. A configuration that loads is one the watchdog can run on: the stack's name and credentials are
  there, no enabled check has a threshold below one, the rounds have a positive pause, every
  recipient is an address, a webhook has its template, and the dialect, the log level and the log
  format are names their readers know.\<close>

theorem loaded_config_is_valid:
  assumes "Load gl look = Inr cfg"
  shows "mc_Hostname (cf_Mailcow cfg) \<noteq> [] \<and> mc_ComposeProject (cf_Mailcow cfg) \<noteq> [] \<and>
    db_User (cf_DB cfg) \<noteq> [] \<and> db_Password (cf_DB cfg) \<noteq> [] \<and> db_Name (cf_DB cfg) \<noteq> [] \<and>
    0 < cf_CheckInterval cfg \<and>
    list_all (\<lambda>(name, spec). sp_Enabled spec \<longrightarrow> 1 \<le> sp_Threshold spec) (checks_all (cf_Checks cfg)) \<and>
    list_all (\<lambda>a. contains a ''@'') (nt_Emails (cf_Notify cfg)) \<and>
    (nt_Webhook (cf_Notify cfg) \<noteq> [] \<longrightarrow> nt_WebhookBody (cf_Notify cfg) \<noteq> []) \<and>
    snd (ParseDialect (dk_Dialect (cf_Docker cfg))) = None \<and>
    lg_Level (cf_Log cfg) \<in> {''debug'', ''info'', ''warn'', ''error''} \<and> lg_Format (cf_Log cfg) \<in> {''json'', ''text''}"
proof -
  have v: "validate gl cfg = None"
    using assms by (auto simp: Load_def Let_def split: prod.splits option.splits)
  then have e: "list_all (\<lambda>e. \<not> fst e) (validate_errors gl cfg)" by (simp add: validate_None_iff)
  have b: "bad_threshold (cf_Checks cfg) = None" using e by (simp add: validate_errors_def Let_def)
  have d: "dk_Dialect (cf_Docker cfg) \<in> {[], ''auto'', ''mailcow'', ''engine'', ''docker''}"
    using e by (simp add: validate_errors_def Let_def)
  have "snd (ParseDialect x) = None" if "x \<in> {[], ''auto'', ''mailcow'', ''engine'', ''docker''}" for x
    using that by (auto simp: ParseDialect_def trim_space_def trim_with_def is_space_def to_lower_def lower_char_def Let_def)
  with d have "snd (ParseDialect (dk_Dialect (cf_Docker cfg))) = None" by blast
  moreover have "list_all (\<lambda>(name, spec). sp_Enabled spec \<longrightarrow> 1 \<le> sp_Threshold spec) (checks_all (cf_Checks cfg))"
    using bad_threshold_None [OF b] by (auto simp: list_all_iff)
  moreover have "list_all (\<lambda>a. contains a ''@'') (nt_Emails (cf_Notify cfg))"
    using e by (simp add: validate_errors_def Let_def list_all_iff list_ex_iff)
  moreover have "nt_Webhook (cf_Notify cfg) \<noteq> [] \<longrightarrow> nt_WebhookBody (cf_Notify cfg) \<noteq> []"
    using e by (auto simp: validate_errors_def Let_def)
  ultimately show ?thesis using e by (simp add: validate_errors_def Let_def)
qed

text \<open>C33. Nobody hunts for a typo twice: Load names every malformed or negative integer of the check
  settings in one error, whatever else is wrong, before any other complaint.\<close>

theorem load_reports_every_bad_integer:
  assumes "(key, def) \<in> set check_ints" "look key = Some raw" "trim_space raw \<noteq> []"
    and "case atoi (trim_space raw) of None \<Rightarrow> True | Some n \<Rightarrow> n < 0"
  shows "\<exists>err. Load gl look = Inl err \<and> has_prefix err ''invalid configuration: '' \<and> contains err (key @ '' must '')"
proof -
  obtain cfg errs where l: "load_config gl look = (cfg, errs)" by (cases "load_config gl look")
  have "\<exists>e \<in> set (snd (loadChecks look)). contains e (key @ '' must '')"
  proof -
    have "\<exists>e. snd (env_int look key def) = [e] \<and> (\<exists>r. e = (key @ '' must '') @ r)"
      using assms(2-4) by (auto simp: env_int_def split: option.splits)
    then obtain e where e: "snd (env_int look key def) = [e]" "contains e (key @ '' must '')"
      unfolding contains_iff by (metis append_Nil)
    from assms(1) e(1) have "e \<in> set (snd (loadChecks look))"
      by (simp only: loadChecks_def Let_def snd_conv set_concat set_map) (force intro!: bexI [of _ "(key, def)"])
    with e(2) show ?thesis by blast
  qed
  moreover have "set (snd (loadChecks look)) \<subseteq> set errs"
    using l by (auto simp: load_config_def Let_def split: prod.splits)
  ultimately obtain e where e: "e \<in> set errs" "contains e (key @ '' must '')" by blast
  have "contains (join sep es) t" if "e \<in> set es" "contains e t" for sep es t
    using that
  proof (induction es)
    case (Cons x xs)
    show ?case
    proof (cases "xs = []")
      case True
      with Cons show ?thesis by simp
    next
      case False
      then have j: "join sep (x # xs) = x @ sep @ join sep xs" by (rule join_Cons)
      show ?thesis
      proof (cases "e = x")
        case True
        with Cons.prems(2) show ?thesis using contains_append [of e t "[]" "sep @ join sep xs"] j by simp
      next
        case False
        with Cons have "contains (join sep xs) t" by simp
        then show ?thesis using contains_append [of "join sep xs" t "x @ sep" "[]"] j by simp
      qed
    qed
  qed simp
  from this [OF e] have "contains (''invalid configuration: '' @ join ''; '' errs @ []) (key @ '' must '')"
    by (rule contains_append)
  then show ?thesis
    using l e(1) by (auto simp: Load_def env_err_def)
qed

text \<open>The recipients splitAddresses finds are usable: none is empty, none contains a comma, and none
  starts or ends with the quotes mailcow.conf is written with.\<close>

theorem splitAddresses_usable:
  assumes "a \<in> set (splitAddresses raw)"
  shows "a \<noteq> [] \<and> CHR '','' \<notin> set a \<and> hd a \<notin> set quotes \<and> last a \<notin> set quotes"
proof -
  obtain p r where p: "p \<in> set (split_at CHR '','' r)" "a = trim_cutset (trim_space p) quotes" "a \<noteq> []"
    using assms by (auto simp: splitAddresses_def Let_def split: if_splits)
  have "CHR '','' \<notin> set p" using p(1) by (rule split_at_parts)
  moreover have "set a \<subseteq> set p"
    using trim_with_subset p(2) unfolding trim_cutset_def trim_space_def by (metis order_trans)
  ultimately show ?thesis
    using trim_with_ends [of "\<lambda>c. c \<in> set quotes" "trim_space p"] p(2,3) by (auto simp: trim_cutset_def)
qed

theorem splitAddresses_usable_witness:
  "''b@x'' \<in> set (splitAddresses (CHR 0x22 # ''a@x, b@x,'' @ [CHR 0x22])) \<and> hd ''b@x'' \<notin> set quotes"
proof -
  have "''b@x'' \<in> set (splitAddresses (CHR 0x22 # ''a@x, b@x,'' @ [CHR 0x22]))"
    by (simp add: splitAddresses_def trim_cutset_def trim_space_def trim_with_def is_space_def quotes_def Let_def)
  then show ?thesis using splitAddresses_usable by blast
qed

section \<open>A minimal environment\<close>

definition plain_golib :: golib where
  "plain_golib = \<lparr>gl_ParseDuration = (\<lambda>s. None), gl_DurationString = (\<lambda>d. itoa d), gl_url_error = (\<lambda>u. None),
     gl_SplitHostPort_error = (\<lambda>a. None)\<rparr>"

definition minimal_env :: lookup where
  "minimal_env = map_of [(''MAILCOW_HOSTNAME'', ''mail.example''), (''COMPOSE_PROJECT_NAME'', ''mailcowdockerized''),
     (''DBUSER'', ''mailcow''), (''DBPASS'', ''secret''), (''DBNAME'', ''mailcow''), (''NGINX_THRESHOLD'', '' 7 '')]"

definition typo_env :: lookup where
  "typo_env = minimal_env(''MAILQ_CRIT'' \<mapsto> ''3O'')"

lemma load_config_parts:
  "cf_Checks (fst (load_config gl look)) = fst (loadChecks look)"
  "cf_Docker (fst (load_config gl look)) = fst (loadDocker look (env_str look ''COMPOSE_PROJECT_NAME'' []))"
  "cf_Log (fst (load_config gl look)) = loadLog look (isYes (env_str look ''WATCHDOG_VERBOSE'' ''n''))"
  "cf_Notify (fst (load_config gl look)) = loadNotify look (env_str look ''MAILCOW_HOSTNAME'' [])"
  "cf_CheckInterval (fst (load_config gl look)) = fst (env_duration gl look ''WATCHDOG_CHECK_INTERVAL'' DefaultCheckInterval)"
  "mc_Hostname (cf_Mailcow (fst (load_config gl look))) = env_str look ''MAILCOW_HOSTNAME'' []"
  "mc_ComposeProject (cf_Mailcow (fst (load_config gl look))) = env_str look ''COMPOSE_PROJECT_NAME'' []"
  "db_User (cf_DB (fst (load_config gl look))) = env_str look ''DBUSER'' []"
  "db_Password (cf_DB (fst (load_config gl look))) = env_str look ''DBPASS'' []"
  "db_Name (cf_DB (fst (load_config gl look))) = env_str look ''DBNAME'' []"
  "cf_ObsListen (fst (load_config gl look)) = env_str look ''WATCHDOG_METRICS_LISTEN'' DefaultObsListen"
  "snd (load_config gl look) = snd (env_duration gl look ''WATCHDOG_SETTLE_DELAY'' (30 * second))
     @ snd (env_duration gl look ''WATCHDOG_CHECK_INTERVAL'' DefaultCheckInterval)
     @ snd (loadDocker look (env_str look ''COMPOSE_PROJECT_NAME'' [])) @ snd (loadChecks look)"
  by (simp_all add: load_config_def Let_def case_prod_beta)

lemma minimal_checks: "snd (loadChecks minimal_env) = []" "bad_threshold (fst (loadChecks minimal_env)) = None"
    "sp_Enabled (cc_MySQLRepl (fst (loadChecks minimal_env))) = False"
  by code_simp+

lemma minimal_docker:
  "snd (loadDocker minimal_env ''mailcowdockerized'') = []"
  "dk_Dialect (fst (loadDocker minimal_env ''mailcowdockerized'')) = ''auto''"
  "cut_colon (dk_BaseURL (fst (loadDocker minimal_env ''mailcowdockerized''))) = Some ''https''"
  by code_simp+

lemma minimal_strings:
  "env_str minimal_env ''MAILCOW_HOSTNAME'' [] = ''mail.example''" "env_str minimal_env ''COMPOSE_PROJECT_NAME'' [] = ''mailcowdockerized''"
  "env_str minimal_env ''DBUSER'' [] = ''mailcow''" "env_str minimal_env ''DBPASS'' [] = ''secret''"
  "env_str minimal_env ''DBNAME'' [] = ''mailcow''"
  by code_simp+

lemma minimal_rest:
  "env_duration plain_golib minimal_env ''WATCHDOG_SETTLE_DELAY'' (30 * second) = (30 * second, [])"
  "env_duration plain_golib minimal_env ''WATCHDOG_CHECK_INTERVAL'' DefaultCheckInterval = (DefaultCheckInterval, [])"
  "validateListen plain_golib ''WATCHDOG_METRICS_LISTEN'' (env_str minimal_env ''WATCHDOG_METRICS_LISTEN'' DefaultObsListen) = None"
  "nt_Webhook (loadNotify minimal_env h) = []" "nt_Emails (loadNotify minimal_env h) = []"
  "lg_Level (loadLog minimal_env (isYes (env_str minimal_env ''WATCHDOG_VERBOSE'' ''n''))) = ''info''"
  "lg_Format (loadLog minimal_env (isYes (env_str minimal_env ''WATCHDOG_VERBOSE'' ''n''))) = ''json''"
  by code_simp+

lemma minimal_env_loads: "Load plain_golib minimal_env = Inr (fst (load_config plain_golib minimal_env))"
proof -
  have interval: "0 < DefaultCheckInterval" by (simp add: DefaultCheckInterval_def)
  have "snd (load_config plain_golib minimal_env) = []"
    by (simp add: load_config_parts minimal_checks minimal_docker minimal_rest minimal_strings del: second_def)
  moreover have "validate plain_golib (fst (load_config plain_golib minimal_env)) = None"
    unfolding validate_None_iff validate_errors_def Let_def load_config_parts
    using interval by (simp add: minimal_checks minimal_docker minimal_rest minimal_strings)
  ultimately show ?thesis
    by (simp add: Load_def env_err_def case_prod_beta)
qed

theorem loaded_config_is_valid_witness:
  "0 < cf_CheckInterval (fst (load_config plain_golib minimal_env)) \<and>
   snd (ParseDialect (dk_Dialect (cf_Docker (fst (load_config plain_golib minimal_env))))) = None"
  using loaded_config_is_valid [OF minimal_env_loads] by blast

theorem load_reports_every_bad_integer_witness:
  "\<exists>err. Load plain_golib typo_env = Inl err \<and> contains err ''MAILQ_CRIT must ''"
proof -
  have "case atoi (trim_space ''3O'') of None \<Rightarrow> True | Some n \<Rightarrow> n < 0" "trim_space ''3O'' \<noteq> []"
    by code_simp+
  moreover have "typo_env ''MAILQ_CRIT'' = Some ''3O''" by (simp add: typo_env_def)
  moreover have "(''MAILQ_CRIT'', 30) \<in> set check_ints" by (simp add: check_ints_def)
  ultimately show ?thesis using load_reports_every_bad_integer [of "''MAILQ_CRIT''" 30 typo_env "''3O''" plain_golib]
    by auto
qed

end
