(* ===== verification/Tcp.thy ===== *)
theory Tcp
  imports Probe
begin

text \<open>
  internal/probe/tcp.go and dial of probe.go: the TCP and milter probes, and the connection every
  network probe talks over. \<open>net\<close> is the network a probe sees: dialing, the TLS handshake (which
  returns the peer's chain), writing, closing, and what the peer sends. Reading stops at the
  connection's deadline at the latest, so what a peer sends is finite: \<open>ne_reads\<close> gives the pieces
  successive calls of Read return and the error that ends them, \<open>ne_lines\<close> the same as lines, and
  \<open>ne_take\<close> is the state after that many of them have been read.
\<close>

section \<open>Connections\<close>

datatype read_error = EOF | TimedOut error | Broken error

primrec read_error_text :: "read_error \<Rightarrow> error" where
  "read_error_text EOF = ''EOF''"
| "read_error_text (TimedOut e) = e"
| "read_error_text (Broken e) = e"

record 'w net =
  ne_dial :: "string \<Rightarrow> 'w \<Rightarrow> error option \<times> 'w"
  ne_handshake :: "string \<Rightarrow> 'w \<Rightarrow> certificate list res \<times> 'w"
  ne_write :: "string \<Rightarrow> 'w \<Rightarrow> error option \<times> 'w"
  ne_reads :: "'w \<Rightarrow> string list \<times> read_error"
  ne_lines :: "'w \<Rightarrow> string list \<times> error"
  ne_take :: "nat \<Rightarrow> 'w \<Rightarrow> 'w"
  ne_close :: "'w \<Rightarrow> 'w"

definition dial :: "'w net \<Rightarrow> string \<Rightarrow> int \<Rightarrow> 'w \<Rightarrow> error option \<times> 'w" where
  "dial net host port = ne_dial net (join_host_port host (itoa port))"

definition endpoint :: "string \<Rightarrow> int \<Rightarrow> string" where
  "endpoint host port = host @ '':'' @ itoa port"

text \<open>The deferred Close of a probe: it runs after the verdict.\<close>

definition closing :: "'w net \<Rightarrow> result \<times> 'w \<Rightarrow> result \<times> 'w" where
  "closing net out = (fst out, ne_close net (snd out))"

section \<open>readUntil and trim\<close>

definition readLimit :: nat where
  "readLimit = 8192"

text \<open>The text read, the error that ended it, and how many pieces were read.\<close>

fun read_until :: "string \<Rightarrow> string \<Rightarrow> string list \<times> read_error \<Rightarrow> string \<times> read_error option \<times> nat" where
  "read_until want buf ([], fin) = (if length buf < readLimit then (buf, Some fin, 0) else (buf, None, 0))"
| "read_until want buf (c # cs, fin) =
     (if length buf < readLimit
      then if c \<noteq> [] \<and> contains (buf @ c) want then (buf @ c, None, 1)
           else (case read_until want (buf @ c) (cs, fin) of (got, e, n) \<Rightarrow> (got, e, Suc n))
      else (buf, None, 0))"

definition ellipsis :: string where
  "ellipsis = [CHR 0xE2, CHR 0x80, CHR 0xA6]"

definition trim_banner :: "string \<Rightarrow> string" where
  "trim_banner s =
     (let s = trim_space (replace_all (replace_all s [CHR 0x0D] '' '') [CHR 0x0A] '' '')
      in if length s > 120 then take 120 s @ ellipsis else s)"

text \<open>A probe that needs \<open>want\<close> in what it reads: the two failures readUntil's callers tell apart.\<close>

datatype expectation = Met string | ReadFailed error string | Missing string

definition expect :: "'w net \<Rightarrow> string \<Rightarrow> 'w \<Rightarrow> expectation \<times> 'w" where
  "expect net want w =
     (case read_until want [] (ne_reads net w) of
        (got, e, n) \<Rightarrow>
          (case e of
             Some err \<Rightarrow> if \<not> contains got want then ReadFailed (read_error_text err) got else Met got
           | None \<Rightarrow> if \<not> contains got want then Missing got else Met got, ne_take net n w))"

section \<open>TCP\<close>

record tcp_options =
  to_Send :: string
  to_Expect :: string
  to_Quit :: string
  to_TLS :: bool
  to_ServerName :: string

definition no_options :: tcp_options where
  "no_options = \<lparr>to_Send = [], to_Expect = [], to_Quit = [], to_TLS = False, to_ServerName = []\<rparr>"

record 'w tcp =
  tc_name :: string
  tc_addr :: "'w addr"
  tc_port :: int
  tc_opts :: tcp_options

definition new_tcp :: "string \<Rightarrow> 'w addr \<Rightarrow> int \<Rightarrow> tcp_options \<Rightarrow> 'w tcp" where
  "new_tcp name addr port opts = \<lparr>tc_name = name, tc_addr = addr, tc_port = port, tc_opts = opts\<rparr>"

definition new_clamd :: "string \<Rightarrow> 'w addr \<Rightarrow> 'w tcp" where
  "new_clamd name addr =
     new_tcp name addr 3310 (no_options\<lparr>to_Send := ''PING'' @ [CHR 0x0A], to_Expect := ''PONG''\<rparr>)"

definition tcp_connect :: "'w net \<Rightarrow> 'w tcp \<Rightarrow> string \<Rightarrow> 'w \<Rightarrow> error option \<times> 'w" where
  "tcp_connect net p host w =
     (case dial net host (tc_port p) w of
        (Some err, w') \<Rightarrow> (Some err, w')
      | (None, w') \<Rightarrow>
          (if \<not> to_TLS (tc_opts p) then (None, w')
           else let server = (if to_ServerName (tc_opts p) = [] then host else to_ServerName (tc_opts p)) in
             (case ne_handshake net server w' of
                (Inl err, w'') \<Rightarrow> (Some err, ne_close net w'')
              | (Inr chain, w'') \<Rightarrow> (None, w''))))"

text \<open>The conversation on an open connection.\<close>

definition tcp_finish :: "'w net \<Rightarrow> 'w tcp \<Rightarrow> string \<Rightarrow> 'w \<Rightarrow> result \<times> 'w" where
  "tcp_finish net p host w =
     (let w = (if to_Quit (tc_opts p) \<noteq> [] then snd (ne_write net (to_Quit (tc_opts p)) w) else w);
          where_at = tc_name p @ '': '' @ endpoint host (tc_port p)
      in (if to_Expect (tc_opts p) = []
          then OK (where_at @ '' accepted a connection, nothing was read back'')
          else OK (where_at @ '' answered with '' @ quote (to_Expect (tc_opts p)) @ '' as expected''), w))"

definition tcp_talk :: "'w net \<Rightarrow> 'w tcp \<Rightarrow> string \<Rightarrow> 'w \<Rightarrow> result \<times> 'w" where
  "tcp_talk net p host w =
     (let name = tc_name p; at = endpoint host (tc_port p); want = to_Expect (tc_opts p);
          (sent, w) = (if to_Send (tc_opts p) \<noteq> [] then ne_write net (to_Send (tc_opts p)) w else (None, w))
      in case sent of
        Some err \<Rightarrow> (Critical (name @ '': cannot send to '' @ at @ '': '' @ err), w)
      | None \<Rightarrow>
          (if want = [] then tcp_finish net p host w
           else case expect net want w of
             (ReadFailed err got, w') \<Rightarrow>
               (Critical (name @ '': reading from '' @ at @ '' failed: '' @ err @ '' (got '' @ quote (trim_banner got) @ '')''), w')
           | (Missing got, w') \<Rightarrow>
               (Critical (name @ '': '' @ at @ '' did not answer with '' @ quote want @ '', got '' @ quote (trim_banner got)), w')
           | (Met got, w') \<Rightarrow> tcp_finish net p host w'))"

definition tcp_run :: "'w net \<Rightarrow> 'w tcp \<Rightarrow> 'w \<Rightarrow> result \<times> 'w" where
  "tcp_run net p w =
     (case resolve (tc_addr p) (tc_name p) w of
        (Inl bad, w') \<Rightarrow> (bad, w')
      | (Inr host, w') \<Rightarrow>
          (case tcp_connect net p host w' of
             (Some err, w'') \<Rightarrow>
               (Critical (tc_name p @ '': cannot connect to '' @ endpoint host (tc_port p) @ '': '' @ err), w'')
           | (None, w'') \<Rightarrow> closing net (tcp_talk net p host w'')))"

section \<open>Milter\<close>

record 'w milter =
  ml_name :: string
  ml_addr :: "'w addr"
  ml_port :: int
  ml_timeout :: int

definition new_milter :: "string \<Rightarrow> 'w addr \<Rightarrow> int \<Rightarrow> int \<Rightarrow> 'w milter" where
  "new_milter name addr port timeout =
     (let timeout = (if timeout \<le> 0 then DefaultTimeout else timeout)
      in \<lparr>ml_name = name, ml_addr = addr, ml_port = port, ml_timeout = timeout\<rparr>)"

text \<open>The first Read: bytes, or the error that comes instead.\<close>

definition first_read :: "'w net \<Rightarrow> 'w \<Rightarrow> read_error option" where
  "first_read net w = (case ne_reads net w of ([], fin) \<Rightarrow> Some fin | (c # cs, fin) \<Rightarrow> None)"

definition isTimeout :: "read_error \<Rightarrow> bool" where
  "isTimeout e = (case e of TimedOut _ \<Rightarrow> True | _ \<Rightarrow> False)"

definition milter_run :: "'w net \<Rightarrow> (int \<Rightarrow> string) \<Rightarrow> 'w milter \<Rightarrow> 'w \<Rightarrow> result \<times> 'w" where
  "milter_run net duration_text p w =
     (case resolve (ml_addr p) (ml_name p) w of
        (Inl bad, w') \<Rightarrow> (bad, w')
      | (Inr host, w') \<Rightarrow>
          (let at = endpoint host (ml_port p) in
           case dial net host (ml_port p) w' of
             (Some err, w'') \<Rightarrow> (Critical (ml_name p @ '': cannot connect to milter '' @ at @ '': '' @ err), w'')
           | (None, w'') \<Rightarrow>
               (let w = snd (ne_write net (''GET / HTTP/1.0'' @ [CHR 0x0D, CHR 0x0A, CHR 0x0D, CHR 0x0A]) w'');
                    outcome = first_read net w
                in closing net
                  (if outcome = None \<or> outcome = Some EOF
                   then OK (ml_name p @ '': milter '' @ at @ '' answered'')
                   else if isTimeout (the outcome)
                   then Critical (ml_name p @ '': milter '' @ at @ '' did not answer within '' @ duration_text (ml_timeout p))
                   else OK (ml_name p @ '': milter '' @ at @ '' closed the connection ('' @ read_error_text (the outcome) @ '')''),
                   ne_take net 1 w))))"

section \<open>Lemmas\<close>

lemma closing_fst [simp]: "fst (closing net out) = fst out"
  by (simp add: closing_def)

lemma contains_prefix_extend: "contains s t \<Longrightarrow> contains (s @ u) t"
  using contains_append [of s t "[]" u] by simp

lemma read_until_prefix:
  "fst (read_until want buf (cs, fin)) = buf @ concat (take (snd (snd (read_until want buf (cs, fin)))) cs)"
  by (induction cs arbitrary: buf) (simp_all add: case_prod_beta)

lemma read_until_taken: "snd (snd (read_until want buf (cs, fin))) \<le> length cs"
  by (induction cs arbitrary: buf) (simp_all add: case_prod_beta)

lemma read_until_bound:
  "length buf < readLimit + m \<Longrightarrow> (\<And>c. c \<in> set cs \<Longrightarrow> length c \<le> m) \<Longrightarrow>
     length (fst (read_until want buf (cs, fin))) < readLimit + m"
proof (induction cs arbitrary: buf)
  case (Cons c cs)
  show ?case
  proof (cases "length buf < readLimit")
    case True
    with Cons.prems have "length (buf @ c) < readLimit + m" by (simp add: add_less_le_mono)
    with Cons.IH [of "buf @ c"] Cons.prems True show ?thesis by (auto split: prod.splits)
  qed (use Cons.prems in simp)
qed auto

lemma read_until_complete:
  assumes "want \<noteq> []" "\<not> contains buf want" "length (buf @ concat cs) < readLimit"
  shows "contains (fst (read_until want buf (cs, fin))) want \<longleftrightarrow> contains (buf @ concat cs) want"
  using assms(2,3)
proof (induction cs arbitrary: buf)
  case (Cons c cs)
  have l: "length buf < readLimit" using Cons.prems by simp
  show ?case
  proof (cases "c \<noteq> [] \<and> contains (buf @ c) want")
    case True
    then show ?thesis using l contains_prefix_extend [of "buf @ c" want "concat cs"] by simp
  next
    case False
    then have "\<not> contains (buf @ c) want" using Cons.prems by auto
    from Cons.IH [OF this] Cons.prems False l show ?thesis by (auto split: prod.splits)
  qed
qed simp

lemma expect_Met_iff:
  "(\<exists>got w'. expect net want w = (Met got, w')) \<longleftrightarrow> contains (fst (read_until want [] (ne_reads net w))) want"
  by (auto simp: expect_def split: prod.splits option.splits)

lemma graded_tcp_run [simp]: "graded (fst (tcp_run net p w))"
  by (auto simp: tcp_run_def tcp_talk_def tcp_finish_def Let_def dest!: resolve_bad split: prod.splits sum.splits option.splits expectation.splits)

lemma graded_milter_run [simp]: "graded (fst (milter_run net dt p w))"
  by (auto simp: milter_run_def Let_def dest!: resolve_bad split: prod.splits sum.splits option.splits)

interpretation tcp: probe_contract "\<lambda>(net, p, w). fst (tcp_run net p w)"
  by unfold_locales (simp split: prod.splits)

interpretation milter: probe_contract "\<lambda>(net, dt, p, w). fst (milter_run net dt p w)"
  by unfold_locales (simp split: prod.splits)

section \<open>Properties\<close>

text \<open>C26. However the network splits what a service sends, the verdict is the same: once the connection
  stands and the request is out, the probe is OK exactly when the expected text occurs in the bytes
  received, and CRITICAL otherwise, as long as they stay below the buffer's limit; and whatever a
  peer sends, the buffer never grows beyond the limit by more than one read.\<close>

theorem tcp_verdict_ignores_chunking:
  assumes "resolve (tc_addr p) (tc_name p) w = (Inr host, w1)" "tcp_connect net p host w1 = (None, w2)"
    and "(if to_Send (tc_opts p) \<noteq> [] then ne_write net (to_Send (tc_opts p)) w2 else (None, w2)) = (None, w3)"
    and "to_Expect (tc_opts p) \<noteq> []" "ne_reads net w3 = (cs, fin)" "length (concat cs) < readLimit"
  shows "rs_Status (fst (tcp_run net p w))
      = (if contains (concat cs) (to_Expect (tc_opts p)) then StatusOK else StatusCritical) \<and>
    (\<forall>ds fin' n. list_all (\<lambda>d. length d \<le> n) ds \<longrightarrow>
       length (fst (read_until (to_Expect (tc_opts p)) [] (ds, fin'))) < readLimit + n)"
proof -
  have "contains (fst (read_until (to_Expect (tc_opts p)) [] (cs, fin))) (to_Expect (tc_opts p))
      \<longleftrightarrow> contains (concat cs) (to_Expect (tc_opts p))"
    using read_until_complete [of "to_Expect (tc_opts p)" "[]" cs fin] assms(4,6) by simp
  moreover have "length (fst (read_until want [] (ds, fin'))) < readLimit + n"
    if "list_all (\<lambda>d. length d \<le> n) ds" for want ds fin' n
    using that by (intro read_until_bound) (auto simp: list_all_iff readLimit_def)
  ultimately show ?thesis
    using assms by (auto simp: tcp_run_def tcp_talk_def expect_def tcp_finish_def Let_def split: prod.splits option.splits)
qed

text \<open>A peer whose replies are all in the world, for the examples.\<close>

definition mute_net :: "certificate list \<Rightarrow> string list net" where
  "mute_net chain =
     \<lparr>ne_dial = (\<lambda>a w. (None, w)), ne_handshake = (\<lambda>n w. (Inr chain, w)), ne_write = (\<lambda>s w. (None, w)),
      ne_reads = (\<lambda>w. (w, EOF)), ne_lines = (\<lambda>w. (w, ''EOF'')), ne_take = drop, ne_close = id\<rparr>"

theorem tcp_verdict_ignores_chunking_witness:
  "rs_Status (fst (tcp_run (mute_net []) (new_clamd ''ping'' (Static ''clamd'')) [''PO'', ''N'', ''G''])) = StatusOK \<and>
   rs_Status (fst (tcp_run (mute_net []) (new_clamd ''ping'' (Static ''clamd'')) [''PO'', ''N''])) = StatusCritical"
  using tcp_verdict_ignores_chunking [of "new_clamd ''ping'' (Static ''clamd'')" _ "''clamd''" _ "mute_net []"]
  by (simp add: new_clamd_def new_tcp_def no_options_def resolve_def Static_def tcp_connect_def dial_def mute_net_def readLimit_def)

end
