(* ===== verification/Smtp_Probe.thy ===== *)
theory Smtp_Probe
  imports Tcp "HOL-Library.Sublist"
begin

text \<open>
  internal/probe/smtp.go: the scripted SMTP and LMTP conversation. A reply is read as net/textproto's
  ReadResponse(0) reads it. A step of the conversation returns the verdict that ends the probe, or
  \<open>None\<close> to go on; Go returns that as a pair of a Result and a flag.
\<close>

section \<open>textproto replies\<close>

definition CRLF_end :: string where
  "CRLF_end = [CHR 0x0D, CHR 0x0A]"

definition trim_right :: "string \<Rightarrow> string \<Rightarrow> string" where
  "trim_right s cutset = rev (dropWhile (\<lambda>c. c \<in> set cutset) (rev s))"

record code_line =
  cl_code :: int
  cl_continued :: bool
  cl_message :: string
  cl_err :: "error option"

definition parse_code_line :: "string \<Rightarrow> code_line" where
  "parse_code_line line =
     (if length line < 4 \<or> line ! 3 \<noteq> CHR '' '' \<and> line ! 3 \<noteq> CHR ''-''
      then \<lparr>cl_code = 0, cl_continued = False, cl_message = [], cl_err = Some (''short response: '' @ line)\<rparr>
      else let code = (case atoi (take 3 line) of None \<Rightarrow> 0 | Some n \<Rightarrow> n) in
        if atoi (take 3 line) = None \<or> code < 100
        then \<lparr>cl_code = code, cl_continued = (line ! 3 = CHR ''-''), cl_message = [],
              cl_err = Some (''invalid response code: '' @ line)\<rparr>
        else \<lparr>cl_code = code, cl_continued = (line ! 3 = CHR ''-''), cl_message = drop 4 line, cl_err = None\<rparr>)"

type_synonym reply = "(int \<times> string) res"

text \<open>The continuation lines of a multi-line reply, and how many of them were read.\<close>

fun read_more :: "int \<Rightarrow> string \<Rightarrow> string list \<Rightarrow> error \<Rightarrow> reply \<times> nat" where
  "read_more code message [] silence = (Inl silence, 0)"
| "read_more code message (line # ls) silence =
     (let c = parse_code_line line;
          cont = (\<lambda>m. case read_more code m ls silence of (r, n) \<Rightarrow> (r, Suc n))
      in if cl_err c \<noteq> None \<or> cl_code c \<noteq> code
         then cont (message @ [CHR 0x0A] @ trim_right line CRLF_end)
         else if cl_continued c then cont (message @ [CHR 0x0A] @ cl_message c)
         else (Inr (code, message @ [CHR 0x0A] @ cl_message c), 1))"

definition read_response :: "string list \<Rightarrow> error \<Rightarrow> reply \<times> nat" where
  "read_response ls silence =
     (case ls of
        [] \<Rightarrow> (Inl silence, 0)
      | line # rest \<Rightarrow>
          (let c = parse_code_line line;
               (out, n) = (if cl_continued c then read_more (cl_code c) (cl_message c) rest silence
                           else (Inr (cl_code c, cl_message c), 0))
           in case out of
                Inl e \<Rightarrow> (Inl e, Suc n)
              | Inr (code, message) \<Rightarrow>
                  (case cl_err c of
                     None \<Rightarrow> (Inr (code, message), Suc n)
                   | Some e \<Rightarrow> (Inl (if cl_continued c \<and> message \<noteq> [] then itoa code @ '' '' @ message else e), Suc n))))"

section \<open>Session\<close>

definition smtp_write :: "'w net \<Rightarrow> string \<Rightarrow> 'w \<Rightarrow> error option \<times> 'w" where
  "smtp_write net line = ne_write net (line @ CRLF_end)"

definition smtp_read :: "'w net \<Rightarrow> 'w \<Rightarrow> reply \<times> 'w" where
  "smtp_read net w =
     (case read_response (fst (ne_lines net w)) (snd (ne_lines net w)) of (r, n) \<Rightarrow> (r, ne_take net n w))"

definition smtp_cmd :: "'w net \<Rightarrow> string \<Rightarrow> 'w \<Rightarrow> reply \<times> 'w" where
  "smtp_cmd net line w =
     (case smtp_write net line w of
        (Some err, w') \<Rightarrow> (Inl err, w')
      | (None, w') \<Rightarrow> smtp_read net w')"

section \<open>SMTP\<close>

record command =
  cm_Send :: string
  cm_Expect :: string

record smtp_options =
  so_LMTP :: bool
  so_HELO :: string
  so_From :: string
  so_Commands :: "command list"
  so_StartTLS :: bool
  so_MinCertDays :: int

definition plain_smtp :: smtp_options where
  "plain_smtp = \<lparr>so_LMTP = False, so_HELO = [], so_From = [], so_Commands = [], so_StartTLS = False, so_MinCertDays = 0\<rparr>"

record 'w smtp =
  sm_name :: string
  sm_addr :: "'w addr"
  sm_port :: int
  sm_opts :: smtp_options

definition new_smtp_probe :: "string \<Rightarrow> 'w addr \<Rightarrow> int \<Rightarrow> smtp_options \<Rightarrow> 'w smtp" where
  "new_smtp_probe name addr port opts =
     (let opts = (if so_HELO opts = [] then opts\<lparr>so_HELO := ''localhost''\<rparr> else opts)
      in \<lparr>sm_name = name, sm_addr = addr, sm_port = port, sm_opts = opts\<rparr>)"

definition protocol :: "'w smtp \<Rightarrow> string" where
  "protocol p = (if so_LMTP (sm_opts p) then ''LMTP'' else ''SMTP'')"

definition greet :: "'w net \<Rightarrow> 'w smtp \<Rightarrow> string \<Rightarrow> 'w \<Rightarrow> result option \<times> 'w" where
  "greet net p at w =
     (let verb = (if so_LMTP (sm_opts p) then ''LHLO'' else ''EHLO'') in
      case smtp_cmd net (verb @ '' '' @ so_HELO (sm_opts p)) w of
        (Inl err, w') \<Rightarrow> (Some (Critical (sm_name p @ '': '' @ at @ '' did not answer '' @ verb @ '': '' @ err)), w')
      | (Inr (code, line), w') \<Rightarrow>
          (if code = 250 then (None, w')
           else if so_LMTP (sm_opts p)
           then (Some (Critical (sm_name p @ '': '' @ at @ '' rejected LHLO: '' @ quote (trim_banner line))), w')
           else case smtp_cmd net (''HELO '' @ so_HELO (sm_opts p)) w' of
             (Inl err, w'') \<Rightarrow> (Some (Critical (sm_name p @ '': '' @ at @ '' did not answer HELO: '' @ err)), w'')
           | (Inr (code, line), w'') \<Rightarrow>
               (if code \<noteq> 250
                then (Some (Critical (sm_name p @ '': '' @ at @ '' rejected HELO: '' @ quote (trim_banner line))), w'')
                else (None, w''))))"

text \<open>startTLS: the peer's chain, or the verdict that ends the probe.\<close>

definition startTLS :: "'w net \<Rightarrow> 'w smtp \<Rightarrow> string \<Rightarrow> string \<Rightarrow> 'w \<Rightarrow> (result + certificate list) \<times> 'w" where
  "startTLS net p host at w =
     (case smtp_cmd net ''STARTTLS'' w of
        (Inl err, w') \<Rightarrow> (Inl (Critical (sm_name p @ '': '' @ at @ '' did not answer STARTTLS: '' @ err)), w')
      | (Inr (code, line), w') \<Rightarrow>
          (if code \<noteq> 220
           then (Inl (Critical (sm_name p @ '': '' @ at @ '' refused STARTTLS: '' @ quote (trim_banner line))), w')
           else case ne_handshake net host w' of
             (Inl err, w'') \<Rightarrow> (Inl (Critical (sm_name p @ '': TLS handshake with '' @ at @ '' failed: '' @ err)), w'')
           | (Inr chain, w'') \<Rightarrow>
               (case greet net p at w'' of
                  (Some res, w''') \<Rightarrow> (Inl res, w''')
                | (None, w''') \<Rightarrow> (Inr chain, w'''))))"

definition mailFrom :: "'w net \<Rightarrow> 'w smtp \<Rightarrow> string \<Rightarrow> 'w \<Rightarrow> result option \<times> 'w" where
  "mailFrom net p at w =
     (if so_From (sm_opts p) = [] then (None, w)
      else case smtp_cmd net (''MAIL FROM:<'' @ so_From (sm_opts p) @ ''>'') w of
        (Inl err, w') \<Rightarrow> (Some (Critical (sm_name p @ '': '' @ at @ '' did not answer MAIL FROM: '' @ err)), w')
      | (Inr (code, line), w') \<Rightarrow>
          (if code \<noteq> 250
           then (Some (Warning (sm_name p @ '': '' @ at @ '' answered MAIL FROM with '' @ quote (trim_banner line) @ '', want 250'')), w')
           else (None, w')))"

fun run_commands :: "'w net \<Rightarrow> string \<Rightarrow> string \<Rightarrow> command list \<Rightarrow> 'w \<Rightarrow> result option \<times> 'w" where
  "run_commands net name at [] w = (None, w)"
| "run_commands net name at (c # cs) w =
     (case smtp_cmd net (cm_Send c) w of
        (Inl err, w') \<Rightarrow> (Some (Critical (name @ '': '' @ at @ '' did not answer '' @ quote (cm_Send c) @ '': '' @ err)), w')
      | (Inr (code, line), w') \<Rightarrow>
          (if cm_Expect c = [] then run_commands net name at cs w'
           else let full = itoa code @ '' '' @ line in
             if \<not> contains full (cm_Expect c)
             then (Some (Warning (name @ '': '' @ at @ '' answered '' @ quote (cm_Send c) @ '' with ''
                     @ quote (trim_banner full) @ '', want it to contain '' @ quote (cm_Expect c))), w')
             else run_commands net name at cs w'))"

text \<open>The mail part of the conversation, after the greetings.\<close>

definition smtp_mail :: "'w net \<Rightarrow> 'w smtp \<Rightarrow> string \<Rightarrow> 'w \<Rightarrow> result \<times> 'w" where
  "smtp_mail net p at w =
     (case mailFrom net p at w of
        (Some res, w') \<Rightarrow> (res, w')
      | (None, w') \<Rightarrow>
          (case run_commands net (sm_name p) at (so_Commands (sm_opts p)) w' of
             (Some res, w'') \<Rightarrow> (res, w'')
           | (None, w'') \<Rightarrow>
               (OK (sm_name p @ '': '' @ at @ '' completed the '' @ protocol p @ '' conversation''),
                snd (smtp_write net ''QUIT'' w''))))"

text \<open>The part after the first greeting exchange.\<close>

definition smtp_secured ::
  "(int \<Rightarrow> string) \<Rightarrow> ('w \<Rightarrow> int) \<Rightarrow> 'w net \<Rightarrow> 'w smtp \<Rightarrow> string \<Rightarrow> string \<Rightarrow> 'w \<Rightarrow> result \<times> 'w" where
  "smtp_secured rfc3339 now net p host at w =
     (if \<not> so_StartTLS (sm_opts p) then smtp_mail net p at w
      else case startTLS net p host at w of
        (Inl res, w') \<Rightarrow> (res, w')
      | (Inr chain, w') \<Rightarrow>
          (if so_MinCertDays (sm_opts p) > 0
           then let w'' = snd (smtp_write net ''QUIT'' w') in
             (cert_expiry rfc3339 (now w'') chain (so_MinCertDays (sm_opts p)) (sm_name p @ '': '' @ at), w'')
           else smtp_mail net p at w'))"

definition smtp_talk ::
  "(int \<Rightarrow> string) \<Rightarrow> ('w \<Rightarrow> int) \<Rightarrow> 'w net \<Rightarrow> 'w smtp \<Rightarrow> string \<Rightarrow> 'w \<Rightarrow> result \<times> 'w" where
  "smtp_talk rfc3339 now net p host w =
     (let at = endpoint host (sm_port p) in
      case smtp_read net w of
        (Inl err, w') \<Rightarrow> (Critical (sm_name p @ '': '' @ at @ '' sent no greeting: '' @ err), w')
      | (Inr (code, line), w') \<Rightarrow>
          (if code \<noteq> 220
           then (Critical (sm_name p @ '': '' @ at @ '' greeted with '' @ quote (trim_banner line) @ '', want 220''), w')
           else case greet net p at w' of
             (Some res, w'') \<Rightarrow> (res, w'')
           | (None, w'') \<Rightarrow> smtp_secured rfc3339 now net p host at w''))"

definition smtp_run ::
  "(int \<Rightarrow> string) \<Rightarrow> ('w \<Rightarrow> int) \<Rightarrow> 'w net \<Rightarrow> 'w smtp \<Rightarrow> 'w \<Rightarrow> result \<times> 'w" where
  "smtp_run rfc3339 now net p w =
     (case resolve (sm_addr p) (sm_name p) w of
        (Inl bad, w') \<Rightarrow> (bad, w')
      | (Inr host, w') \<Rightarrow>
          (case dial net host (sm_port p) w' of
             (Some err, w'') \<Rightarrow>
               (Critical (sm_name p @ '': cannot connect to '' @ endpoint host (sm_port p) @ '': '' @ err), w'')
           | (None, w'') \<Rightarrow> closing net (smtp_talk rfc3339 now net p host w'')))"

section \<open>The severity of each step\<close>

lemma greet_status: "greet net p at w = (Some r, w') \<Longrightarrow> rs_Status r = 2 \<and> graded r"
  by (auto simp: greet_def Let_def split: prod.splits sum.splits if_splits)

lemma startTLS_status: "startTLS net p host at w = (Inl r, w') \<Longrightarrow> rs_Status r = 2 \<and> graded r"
  by (auto simp: startTLS_def split: prod.splits sum.splits if_splits option.splits dest!: greet_status)

lemma mailFrom_status: "mailFrom net p at w = (Some r, w') \<Longrightarrow> (rs_Status r = 1 \<or> rs_Status r = 2) \<and> graded r"
  by (auto simp: mailFrom_def split: prod.splits sum.splits if_splits)

lemma run_commands_status:
  "run_commands net name at cs w = (Some r, w') \<Longrightarrow> (rs_Status r = 1 \<or> rs_Status r = 2) \<and> graded r"
  by (induction cs arbitrary: w) (auto simp: Let_def split: prod.splits sum.splits if_splits)

lemma smtp_mail_status: "smtp_mail net p at w = (r, w') \<Longrightarrow> rs_Status r \<noteq> 3 \<and> graded r"
  by (auto simp: smtp_mail_def split: prod.splits option.splits dest!: mailFrom_status run_commands_status)

lemma cert_expiry_status: "rs_Status (cert_expiry rfc now chain n label) = 0 \<or> rs_Status (cert_expiry rfc now chain n label) = 2"
  by (simp add: cert_expiry_def Let_def split: list.splits)

lemma smtp_secured_status:
  assumes "smtp_secured rfc now net p host at w = (r, w')"
  shows "rs_Status r \<noteq> 3 \<and> graded r"
proof -
  have c: "rs_Status (cert_expiry rfc n chain k label) \<noteq> 3" for n chain k label
    using cert_expiry_status [of rfc n chain k label] by auto
  show ?thesis
    using assms by (auto simp: smtp_secured_def Let_def c split: prod.splits sum.splits if_splits
        dest!: startTLS_status smtp_mail_status)
qed

lemma smtp_talk_status: "smtp_talk rfc now net p host w = (r, w') \<Longrightarrow> rs_Status r \<noteq> 3 \<and> graded r"
  by (auto simp: smtp_talk_def Let_def split: prod.splits sum.splits if_splits option.splits
      dest!: greet_status smtp_secured_status)

lemma graded_smtp_run [simp]: "graded (fst (smtp_run rfc now net p w))"
  by (auto simp: smtp_run_def dest!: resolve_bad split: prod.splits sum.splits option.splits)
    (metis prod.collapse smtp_talk_status)

interpretation smtp: probe_contract "\<lambda>(rfc, now, net, p, w). fst (smtp_run rfc now net p w)"
  by unfold_locales (simp split: prod.splits)

section \<open>What is sent\<close>

text \<open>The lines of a whole conversation: the greeting with or without the fallback to HELO, the upgrade
  with its second greeting, and the mail part or, for a certificate check, QUIT alone.\<close>

definition greetings :: "smtp_options \<Rightarrow> string list set" where
  "greetings opts =
     (if so_LMTP opts then {[''LHLO '' @ so_HELO opts]} else {[''EHLO '' @ so_HELO opts], [''EHLO '' @ so_HELO opts, ''HELO '' @ so_HELO opts]})"

definition mail_lines :: "smtp_options \<Rightarrow> string list" where
  "mail_lines opts =
     (if so_From opts = [] then [] else [''MAIL FROM:<'' @ so_From opts @ ''>'']) @ map cm_Send (so_Commands opts)"

definition closing_lines :: "smtp_options \<Rightarrow> string list \<Rightarrow> string list" where
  "closing_lines opts h =
     (if so_StartTLS opts then ''STARTTLS'' # h @ (if so_MinCertDays opts > 0 then [] else mail_lines opts)
      else mail_lines opts) @ [''QUIT'']"

definition scripts :: "smtp_options \<Rightarrow> string list set" where
  "scripts opts = {g @ closing_lines opts h | g h. g \<in> greetings opts \<and> h \<in> greetings opts}"

lemma greetings_nonempty: "\<exists>h. h \<in> greetings opts"
  by (cases "so_LMTP opts") (auto simp: greetings_def)

text \<open>A network that logs what is written to it.\<close>

definition recording :: "'w net \<Rightarrow> ('w \<times> string list) net" where
  "recording net =
     \<lparr>ne_dial = (\<lambda>a (w, l). case ne_dial net a w of (e, w') \<Rightarrow> (e, w', l)),
      ne_handshake = (\<lambda>n (w, l). case ne_handshake net n w of (r, w') \<Rightarrow> (r, w', l)),
      ne_write = (\<lambda>s (w, l). case ne_write net s w of (e, w') \<Rightarrow> (e, w', l @ [s])),
      ne_reads = (\<lambda>(w, l). ne_reads net w), ne_lines = (\<lambda>(w, l). ne_lines net w),
      ne_take = (\<lambda>n (w, l). (ne_take net n w, l)), ne_close = (\<lambda>(w, l). (ne_close net w, l))\<rparr>"

locale recorded_net =
  fixes net :: "'w net" and sent :: "'w \<Rightarrow> string list"
  assumes write_sends: "sent (snd (ne_write net s w)) = sent w @ [s]"
    and dial_quiet: "sent (snd (ne_dial net a w)) = sent w"
    and handshake_quiet: "sent (snd (ne_handshake net n w)) = sent w"
    and take_quiet: "sent (ne_take net k w) = sent w"
    and close_quiet: "sent (ne_close net w) = sent w"
begin

definition sends :: "'w \<Rightarrow> string list \<Rightarrow> 'w \<Rightarrow> bool" where
  "sends w ls w' \<longleftrightarrow> sent w' = sent w @ map (\<lambda>l. l @ CRLF_end) ls"

lemma sends_Nil [simp]: "sends w [] w" by (simp add: sends_def)

lemma sends_trans: "sends w ls w' \<Longrightarrow> sends w' ms w'' \<Longrightarrow> sends w (ls @ ms) w''"
  by (simp add: sends_def)

lemma read_sends: "smtp_read net w = (r, w') \<Longrightarrow> sends w [] w'"
  by (auto simp: smtp_read_def sends_def take_quiet split: prod.splits)

lemma write_line_sends: "smtp_write net l w = (e, w') \<Longrightarrow> sends w [l] w'"
  using write_sends [of "l @ CRLF_end" w] by (simp add: smtp_write_def sends_def)

lemma cmd_sends: "smtp_cmd net l w = (r, w') \<Longrightarrow> sends w [l] w'"
  by (auto simp: smtp_cmd_def split: prod.splits option.splits dest!: write_line_sends read_sends dest: sends_trans)

lemma handshake_sends: "ne_handshake net n w = (r, w') \<Longrightarrow> sends w [] w'"
  using handshake_quiet [of n w] by (simp add: sends_def)

lemma greet_sends: "greet net p at w = (r, w') \<Longrightarrow> \<exists>g \<in> greetings (sm_opts p). sends w g w'"
  by (auto simp: greet_def greetings_def Let_def split: prod.splits sum.splits if_splits
      dest!: cmd_sends dest: sends_trans)

lemma mailFrom_sends:
  "mailFrom net p at w = (r, w') \<Longrightarrow>
     sends w (if so_From (sm_opts p) = [] then [] else [''MAIL FROM:<'' @ so_From (sm_opts p) @ ''>'']) w'"
  by (auto simp: mailFrom_def split: prod.splits sum.splits if_splits dest!: cmd_sends)

lemma run_commands_sends:
  "run_commands net name at cs w = (r, w') \<Longrightarrow>
     \<exists>ls. sends w ls w' \<and> prefix ls (map cm_Send cs) \<and> (r = None \<longrightarrow> ls = map cm_Send cs)"
proof (induction cs arbitrary: w)
  case (Cons c cs)
  obtain out w1 where cmd: "smtp_cmd net (cm_Send c) w = (out, w1)" by (cases "smtp_cmd net (cm_Send c) w")
  from cmd have s: "sends w [cm_Send c] w1" by (rule cmd_sends)
  from Cons.prems cmd consider "r \<noteq> None" "w' = w1" | "run_commands net name at cs w1 = (r, w')"
    by (auto simp: Let_def split: sum.splits prod.splits if_splits)
  then show ?case
  proof cases
    case 1
    with s show ?thesis by (intro exI [of _ "[cm_Send c]"]) auto
  next
    case 2
    from Cons.IH [OF this] sends_trans [OF s] show ?thesis by fastforce
  qed
qed (auto simp: sends_def)

lemma startTLS_sends:
  assumes "startTLS net p host at w = (r, w')"
  shows "\<exists>ls. \<exists>h \<in> greetings (sm_opts p). sends w ls w' \<and> prefix ls (''STARTTLS'' # h) \<and> (\<forall>chain. r = Inr chain \<longrightarrow> ls = ''STARTTLS'' # h)"
proof -
  obtain out w1 where cmd: "smtp_cmd net ''STARTTLS'' w = (out, w1)" by (cases "smtp_cmd net ''STARTTLS'' w")
  from cmd have s: "sends w [''STARTTLS''] w1" by (rule cmd_sends)
  obtain h0 where h0: "h0 \<in> greetings (sm_opts p)" using greetings_nonempty by blast
  consider (refused) res where "r = Inl res" "w' = w1"
    | (broken) res e where "r = Inl res" "ne_handshake net host w1 = (Inl e, w')"
    | (greeted) chain w2 out' where "ne_handshake net host w1 = (Inr chain, w2)" "greet net p at w2 = (out', w')"
    using assms cmd by (auto simp: startTLS_def split: prod.splits sum.splits if_splits option.splits)
  then show ?thesis
  proof cases
    case refused
    with s h0 show ?thesis by (intro exI [of _ "[''STARTTLS'']"]) auto
  next
    case broken
    from sends_trans [OF s handshake_sends [OF broken(2)]] broken(1) h0 show ?thesis
      by (intro exI [of _ "[''STARTTLS'']"]) auto
  next
    case greeted
    from greet_sends [OF greeted(2)] obtain h where h: "h \<in> greetings (sm_opts p)" "sends w2 h w'" by blast
    from sends_trans [OF sends_trans [OF s handshake_sends [OF greeted(1)]] h(2)] h(1) show ?thesis
      by (intro exI [of _ "''STARTTLS'' # h"]) auto
  qed
qed

lemma mail_sends:
  assumes "smtp_mail net p at w = (r, w')"
  shows "\<exists>ls. sends w ls w' \<and> prefix ls (mail_lines (sm_opts p) @ [''QUIT'']) \<and>
    (rs_Status r = StatusOK \<longrightarrow> ls = mail_lines (sm_opts p) @ [''QUIT''])"
proof -
  let ?from = "if so_From (sm_opts p) = [] then [] else [''MAIL FROM:<'' @ so_From (sm_opts p) @ ''>'']"
  let ?cmds = "map cm_Send (so_Commands (sm_opts p))"
  have ml: "mail_lines (sm_opts p) = ?from @ ?cmds" by (simp add: mail_lines_def)
  obtain a w1 where a: "mailFrom net p at w = (a, w1)" by (cases "mailFrom net p at w")
  note s1 = mailFrom_sends [OF a]
  show ?thesis
  proof (cases a)
    case (Some res)
    then have "r = res" "w' = w1" using assms a by (auto simp: smtp_mail_def)
    moreover have "rs_Status res \<noteq> 0" using mailFrom_status a unfolding Some by fastforce
    ultimately show ?thesis using s1 unfolding ml by (intro exI [of _ ?from]) auto
  next
    case None
    obtain b w2 where b: "run_commands net (sm_name p) at (so_Commands (sm_opts p)) w1 = (b, w2)"
      by (cases "run_commands net (sm_name p) at (so_Commands (sm_opts p)) w1")
    from run_commands_sends [OF b] obtain ls where ls: "sends w1 ls w2" "prefix ls ?cmds" "b = None \<longrightarrow> ls = ?cmds"
      by blast
    have s2: "sends w (?from @ ls) w2" using sends_trans [OF s1 ls(1)] .
    show ?thesis
    proof (cases b)
      case Some': (Some res)
      then have "r = res" "w' = w2" using assms a b None by (auto simp: smtp_mail_def)
      moreover have "rs_Status res \<noteq> 0" using run_commands_status b unfolding Some' by fastforce
      moreover have "prefix (?from @ ls) (mail_lines (sm_opts p) @ [''QUIT''])"
        using ls(2) unfolding ml by (auto simp: prefix_def)
      ultimately show ?thesis using s2 by (intro exI [of _ "?from @ ls"]) auto
    next
      case None': None
      then have "w' = snd (smtp_write net ''QUIT'' w2)" using assms a b None by (auto simp: smtp_mail_def)
      then have "sends w2 [''QUIT''] w'" using write_line_sends [of "''QUIT''" w2] by (metis prod.collapse)
      from sends_trans [OF s2 this] ls(3) None' show ?thesis unfolding ml
        by (intro exI [of _ "?from @ ls @ [''QUIT'']"]) auto
    qed
  qed
qed

lemma secured_sends:
  assumes "smtp_secured rfc now net p host at w = (r, w')"
  shows "\<exists>ls. \<exists>h \<in> greetings (sm_opts p). sends w ls w' \<and> prefix ls (closing_lines (sm_opts p) h) \<and>
    (rs_Status r = StatusOK \<longrightarrow> ls = closing_lines (sm_opts p) h)"
proof (cases "so_StartTLS (sm_opts p)")
  case False
  with assms have "smtp_mail net p at w = (r, w')" by (simp add: smtp_secured_def)
  from mail_sends [OF this] greetings_nonempty False show ?thesis by (simp add: closing_lines_def)
next
  case tls: True
  obtain b w1 where st: "startTLS net p host at w = (b, w1)" by (cases "startTLS net p host at w")
  from startTLS_sends [OF st] obtain ls h where h: "h \<in> greetings (sm_opts p)" "sends w ls w1"
    "prefix ls (''STARTTLS'' # h)" "\<forall>chain. b = Inr chain \<longrightarrow> ls = ''STARTTLS'' # h" by blast
  define rest where "rest = (if so_MinCertDays (sm_opts p) > 0 then [] else mail_lines (sm_opts p)) @ [''QUIT'']"
  have c: "closing_lines (sm_opts p) h = (''STARTTLS'' # h) @ rest" by (simp add: closing_lines_def rest_def tls)
  consider (refused) res where "b = Inl res" "r = res" "w' = w1"
    | (cert) chain where "b = Inr chain" "rest = [''QUIT'']" "w' = snd (smtp_write net ''QUIT'' w1)"
    | (mail) chain where "b = Inr chain" "rest = mail_lines (sm_opts p) @ [''QUIT'']" "smtp_mail net p at w1 = (r, w')"
    using assms st tls by (cases b) (auto simp: smtp_secured_def rest_def Let_def split: if_splits)
  then show ?thesis
  proof cases
    case refused
    with h startTLS_status [of net p host at w res] st prefix_prefix [OF h(3), of rest] show ?thesis
      by (intro exI [of _ ls] bexI [of _ h]) (auto simp: c)
  next
    case cert
    then have "sends w1 [''QUIT''] w'" using write_line_sends [of "''QUIT''" w1] by (metis prod.collapse)
    from sends_trans [OF h(2) this] h(1,4) cert show ?thesis
      by (intro exI [of _ "ls @ [''QUIT'']"] bexI [of _ h]) (auto simp: c)
  next
    case mail
    from mail_sends [OF mail(3)] obtain ms where "sends w1 ms w'" "prefix ms rest" "rs_Status r = StatusOK \<longrightarrow> ms = rest"
      using mail(2) by blast
    with sends_trans [OF h(2) this(1)] h(1,4) mail(1) show ?thesis
      by (intro exI [of _ "ls @ ms"] bexI [of _ h]) (auto simp: c)
  qed
qed

lemma talk_sends:
  assumes "smtp_talk rfc now net p host w = (r, w')"
  shows "\<exists>ls. \<exists>script \<in> scripts (sm_opts p). sends w ls w' \<and> prefix ls script \<and> (rs_Status r = StatusOK \<longrightarrow> ls = script)"
proof -
  let ?o = "sm_opts p" and ?at = "endpoint host (sm_port p)"
  obtain h0 where h0: "h0 \<in> greetings ?o" using greetings_nonempty by blast
  obtain out w1 where rd: "smtp_read net w = (out, w1)" by (cases "smtp_read net w")
  obtain a w2 where gr: "greet net p ?at w1 = (a, w2)" by (cases "greet net p ?at w1")
  from greet_sends [OF gr] obtain g where g: "g \<in> greetings ?o" "sends w1 g w2" by blast
  note s1 = read_sends [OF rd]
  note s2 = sends_trans [OF s1 g(2), simplified]
  consider (unwelcome) "rs_Status r = 2" "w' = w1" | (rejected) "a = Some r" "w' = w2"
    | (greeted) "smtp_secured rfc now net p host ?at w2 = (r, w')"
    using assms rd gr by (auto simp: smtp_talk_def Let_def split: sum.splits prod.splits if_splits option.splits)
  then show ?thesis
  proof cases
    case unwelcome
    with s1 h0 show ?thesis unfolding scripts_def
      by (intro exI [of _ "[]"] bexI [of _ "h0 @ closing_lines ?o h0"]) auto
  next
    case rejected
    with s2 g(1) h0 greet_status [of net p ?at w1 r] gr show ?thesis unfolding scripts_def
      by (intro exI [of _ g] bexI [of _ "g @ closing_lines ?o h0"]) auto
  next
    case greeted
    from secured_sends [OF this] obtain ls h where ls: "h \<in> greetings ?o" "sends w2 ls w'"
      "prefix ls (closing_lines ?o h)" "rs_Status r = StatusOK \<longrightarrow> ls = closing_lines ?o h" by blast
    from sends_trans [OF s2 ls(2)] ls g(1) show ?thesis unfolding scripts_def
      by (intro exI [of _ "g @ ls"] bexI [of _ "g @ closing_lines ?o h"]) auto
  qed
qed

end

interpretation rec_net: recorded_net "recording net" snd for net :: "'w net"
  by unfold_locales (auto simp: recording_def split: prod.splits)

section \<open>Properties\<close>

text \<open>C25. The probe says to the peer what its configuration says, in order, and nothing else: the lines
  it sends are the beginning of one of the conversations the options describe (LHLO, or EHLO with or
  without the fallback to HELO; for STARTTLS the upgrade and a second greeting; then the sender and
  the scripted commands, or nothing for a certificate check; then QUIT), it is OK only at the end of
  one, UNKNOWN only when the name did not resolve, with nothing sent.\<close>

theorem smtp_speaks_its_script:
  assumes "\<And>v. snd (snd (sm_addr p v)) = snd v"
  shows "\<exists>ls. \<exists>script \<in> scripts (sm_opts p).
    snd (snd (smtp_run rfc now (recording net) p w)) = snd w @ map (\<lambda>l. l @ CRLF_end) ls \<and>
    prefix ls script \<and>
    (rs_Status (fst (smtp_run rfc now (recording net) p w)) = StatusOK \<longrightarrow> ls = script) \<and>
    (rs_Status (fst (smtp_run rfc now (recording net) p w)) = StatusUnknown \<longrightarrow> ls = [])"
proof -
  obtain g where g: "g \<in> greetings (sm_opts p)" using greetings_nonempty by blast
  then have s: "g @ closing_lines (sm_opts p) g \<in> scripts (sm_opts p)" by (auto simp: scripts_def)
  obtain r w' where run: "smtp_run rfc now (recording net) p w = (r, w')"
    by (cases "smtp_run rfc now (recording net) p w")
  consider (silent) "snd w' = snd w" "rs_Status r = 2 \<or> rs_Status r = 3"
    | (talked) host v v' where "snd v = snd w" "smtp_talk rfc now (recording net) p host v = (r, v')" "snd w' = snd v'"
  proof -
    obtain a w1 where Pair: "sm_addr p w = (a, w1)" by (metis prod.collapse)
    with assms [of w] have w1: "snd w1 = snd w" by simp
    show ?thesis
    proof (cases a)
      case (Inl e)
      with Pair run w1 silent show ?thesis by (auto simp: smtp_run_def resolve_def)
    next
      case (Inr host)
      obtain e w2 where d: "dial (recording net) host (sm_port p) w1 = (e, w2)"
        by (cases "dial (recording net) host (sm_port p) w1")
      then have w2: "snd w2 = snd w" using rec_net.dial_quiet [of net] w1 by (simp add: dial_def) (metis snd_conv)
      show ?thesis
      proof (cases e)
        case None
        obtain r' v' where t: "smtp_talk rfc now (recording net) p host w2 = (r', v')"
          by (cases "smtp_talk rfc now (recording net) p host w2")
        with Pair run Inr d None have "r = r'" "w' = ne_close (recording net) v'"
          by (auto simp: smtp_run_def resolve_def closing_def)
        with t w2 show ?thesis using talked rec_net.close_quiet [of net] by blast
      qed (use Pair run w2 Inr d silent in \<open>auto simp: smtp_run_def resolve_def\<close>)
    qed
  qed
  then show ?thesis
  proof cases
    case silent
    with s show ?thesis unfolding run by (intro exI [of _ "[]"] bexI [OF _ s]) auto
  next
    case talked
    from rec_net.talk_sends [OF talked(2)] obtain ls script where "script \<in> scripts (sm_opts p)"
      "rec_net.sends v ls v'" "prefix ls script" "rs_Status r = StatusOK \<longrightarrow> ls = script" by blast
    with talked smtp_talk_status [OF talked(2)] show ?thesis unfolding run
      by (intro exI [of _ ls] bexI [of _ script]) (auto simp: rec_net.sends_def)
  qed
qed

definition starttls_probe :: "(string list \<times> string list) smtp" where
  "starttls_probe = new_smtp_probe ''cert'' (Static ''postfix'') 589
     (plain_smtp\<lparr>so_HELO := ''mx'', so_StartTLS := True, so_MinCertDays := 7\<rparr>)"

theorem smtp_speaks_its_script_witness:
  "snd (snd (smtp_run (\<lambda>t. []) (\<lambda>w. 0)
      (recording (mute_net [\<lparr>ct_NotBefore = 0, ct_NotAfter = 8 * nanos_per_day, ct_Subject = [], ct_Issuer = []\<rparr>]))
      starttls_probe ([''220 mx'', ''250-mx'', ''250 STARTTLS'', ''220 go'', ''250 mx''], [])))
    \<in> {map (\<lambda>l. l @ CRLF_end) script | script. script \<in> scripts (sm_opts starttls_probe)}"
proof -
  have "rs_Status (fst (smtp_run (\<lambda>t. []) (\<lambda>w. 0)
      (recording (mute_net [\<lparr>ct_NotBefore = 0, ct_NotAfter = 8 * nanos_per_day, ct_Subject = [], ct_Issuer = []\<rparr>]))
      starttls_probe ([''220 mx'', ''250-mx'', ''250 STARTTLS'', ''220 go'', ''250 mx''], []))) = StatusOK"
    by code_simp
  moreover have "snd (snd (sm_addr starttls_probe v)) = snd v" for v
    by (simp add: starttls_probe_def new_smtp_probe_def Static_def)
  ultimately show ?thesis
    using smtp_speaks_its_script [of starttls_probe "\<lambda>t. []" "\<lambda>w. 0"] by fastforce
qed

section \<open>Reading a reply\<close>

lemma atoi_nat_text: "in64 (int n) \<Longrightarrow> atoi (nat_text n) = Some (int n)"
proof -
  assume n: "in64 (int n)"
  obtain c r where t: "nat_text n = c # r" using nat_text_nonempty by (metis list.exhaust)
  have "list_all is_digit (nat_text n)"
    using nat_text_digits by (auto simp: list_all_iff is_digit_def)
  then have d: "is_digit c" "\<not> list_ex (\<lambda>c. \<not> is_digit c) (c # r)" using t by (auto simp: list_all_iff list_ex_iff)
  have "c \<noteq> CHR ''-''" "c \<noteq> CHR ''+''" using d(1) by (auto simp: is_digit_def)
  with n d(2) digits_value_nat_text [of n] show ?thesis
    unfolding atoi_def t by simp
qed

lemma itoa_code:
  assumes "100 \<le> code" "code \<le> 999"
  shows "length (itoa code) = 3" "atoi (itoa code) = Some code"
proof -
  obtain n where n: "code = int n" "100 \<le> n" "n \<le> 999" using assms by (metis int_ops(3) nat_0_le numeral_le_iff of_nat_numeral order.trans zero_le_numeral nat_le_iff nat_numeral le_nat_iff)
  have "nat_text n = [digit_char (n div 10 div 10), digit_char (n div 10 mod 10), digit_char (n mod 10)]"
  proof -
    have "\<not> n < 10" "\<not> n div 10 < 10" "n div 10 div 10 < 10" using n(2,3) by linarith+
    then show ?thesis by (simp add: nat_text.simps [of n] nat_text.simps [of "n div 10"] nat_text.simps [of "n div 10 div 10"])
  qed
  then show "length (itoa code) = 3" using n by (simp add: itoa_def)
  show "atoi (itoa code) = Some code" using n atoi_nat_text [of n] by (simp add: itoa_def in64_def)
qed

lemma parse_code_line_text:
  assumes "100 \<le> code" "code \<le> 999" "c = CHR '' '' \<or> c = CHR ''-''"
  shows "parse_code_line (itoa code @ c # m) =
    \<lparr>cl_code = code, cl_continued = (c = CHR ''-''), cl_message = m, cl_err = None\<rparr>"
  using itoa_code [OF assms(1,2)] assms by (auto simp: parse_code_line_def Let_def nth_append)

lemma read_more_text:
  assumes "100 \<le> code" "code \<le> 999"
  shows "read_more code message (map (\<lambda>m. itoa code @ CHR ''-'' # m) ms @ (itoa code @ CHR '' '' # m) # rest) silence
    = (Inr (code, join [CHR 0x0A] (message # ms @ [m])), Suc (length ms))"
proof (induction ms arbitrary: message)
  case (Cons a ms)
  have "join [CHR 0x0A] (message # a # ms @ [m]) = join [CHR 0x0A] ((message @ [CHR 0x0A] @ a) # ms @ [m])"
    by (cases ms) simp_all
  with Cons [of "message @ [CHR 0x0A] @ a"] show ?case
    by (simp add: parse_code_line_text [OF assms] Let_def)
qed (simp add: parse_code_line_text [OF assms] Let_def)

text \<open>A reply is read as the peer meant it: a code from 100 to 999 with any number of continuation
  lines gives that code and all the lines' texts in order, and not a line of what follows is
  touched.\<close>

theorem read_response_reads_one_reply:
  assumes "100 \<le> code" "code \<le> 999"
  shows "read_response (map (\<lambda>m. itoa code @ CHR ''-'' # m) ms @ (itoa code @ CHR '' '' # m) # rest) silence
    = (Inr (code, join [CHR 0x0A] (ms @ [m])), length ms + 1)"
proof (cases ms)
  case Nil
  then show ?thesis by (simp add: read_response_def parse_code_line_text [OF assms] Let_def)
next
  case (Cons a ms')
  then show ?thesis using read_more_text [OF assms, of a ms' m rest silence]
    by (simp add: read_response_def parse_code_line_text [OF assms] Let_def)
qed

theorem read_response_reads_one_reply_witness:
  "read_response [''250-mx.example'', ''250-PIPELINING'', ''250 STARTTLS'', ''220 go''] ''EOF''
     = (Inr (250, ''mx.example'' @ CHR 0x0A # ''PIPELINING'' @ CHR 0x0A # ''STARTTLS''), 3)"
proof -
  have "itoa 250 = ''250''" by code_simp
  then show ?thesis
    using read_response_reads_one_reply [of 250 "[''mx.example'', ''PIPELINING'']" "''STARTTLS''" "[''220 go'']" "''EOF''"]
    by simp
qed

end
