(* ===== verification/Imap.thy ===== *)
theory Imap
  imports Tcp
begin

text \<open>
  internal/probe/imap.go: the greeting of an IMAP server, or, with \<open>io_MinCertDays\<close>, the expiry of the
  certificate it presents.
\<close>

record imap_options =
  io_TLS :: bool
  io_Expect :: string
  io_MinCertDays :: int

record 'w imap =
  im_name :: string
  im_addr :: "'w addr"
  im_port :: int
  im_opts :: imap_options

definition plain_imap :: imap_options where
  "plain_imap = \<lparr>io_TLS = False, io_Expect = [], io_MinCertDays = 0\<rparr>"

definition new_imap :: "string \<Rightarrow> 'w addr \<Rightarrow> int \<Rightarrow> imap_options \<Rightarrow> 'w imap" where
  "new_imap name addr port opts =
     (let opts = (if io_Expect opts = [] then opts\<lparr>io_Expect := ''* OK''\<rparr> else opts)
      in \<lparr>im_name = name, im_addr = addr, im_port = port, im_opts = opts\<rparr>)"

definition imap_greeting :: "'w net \<Rightarrow> 'w imap \<Rightarrow> string \<Rightarrow> 'w \<Rightarrow> result \<times> 'w" where
  "imap_greeting net p at w =
     (let want = io_Expect (im_opts p) in
      case expect net want w of
        (ReadFailed err got, w') \<Rightarrow>
          (Critical (im_name p @ '': reading the greeting from '' @ at @ '' failed: '' @ err
             @ '' (got '' @ quote (trim_banner got) @ '')''), w')
      | (Missing got, w') \<Rightarrow>
          (Critical (im_name p @ '': '' @ at @ '' greeted with '' @ quote (trim_banner got)
             @ '', want it to contain '' @ quote want), w')
      | (Met got, w') \<Rightarrow>
          (OK (im_name p @ '': '' @ at @ '' greeted with '' @ quote (trim_banner got)),
           snd (ne_write net (''a1 LOGOUT'' @ [CHR 0x0D, CHR 0x0A]) w')))"

text \<open>The state of a connection without TLS holds no certificate.\<close>

definition imap_handshake :: "'w net \<Rightarrow> 'w imap \<Rightarrow> string \<Rightarrow> 'w \<Rightarrow> certificate list res \<times> 'w" where
  "imap_handshake net p host w = (if io_TLS (im_opts p) then ne_handshake net host w else (Inr [], w))"

definition imap_talk ::
  "(int \<Rightarrow> string) \<Rightarrow> ('w \<Rightarrow> int) \<Rightarrow> 'w net \<Rightarrow> 'w imap \<Rightarrow> string \<Rightarrow> 'w \<Rightarrow> result \<times> 'w" where
  "imap_talk rfc3339 now net p host w =
     (let at = endpoint host (im_port p) in
      case imap_handshake net p host w of
        (Inl err, w') \<Rightarrow> (Critical (im_name p @ '': TLS handshake with '' @ at @ '' failed: '' @ err), w')
      | (Inr chain, w') \<Rightarrow>
          (if io_MinCertDays (im_opts p) > 0
           then if \<not> io_TLS (im_opts p)
                then (Unknown (im_name p @ '': certificate check needs an implicit TLS connection''), w')
                else (cert_expiry rfc3339 (now w') chain (io_MinCertDays (im_opts p)) (im_name p @ '': '' @ at), w')
           else imap_greeting net p at w'))"

definition imap_run ::
  "(int \<Rightarrow> string) \<Rightarrow> ('w \<Rightarrow> int) \<Rightarrow> 'w net \<Rightarrow> 'w imap \<Rightarrow> 'w \<Rightarrow> result \<times> 'w" where
  "imap_run rfc3339 now net p w =
     (case resolve (im_addr p) (im_name p) w of
        (Inl bad, w') \<Rightarrow> (bad, w')
      | (Inr host, w') \<Rightarrow>
          (case dial net host (im_port p) w' of
             (Some err, w'') \<Rightarrow>
               (Critical (im_name p @ '': cannot connect to '' @ endpoint host (im_port p) @ '': '' @ err), w'')
           | (None, w'') \<Rightarrow> closing net (imap_talk rfc3339 now net p host w'')))"

lemma graded_imap_run [simp]: "graded (fst (imap_run rfc now net p w))"
  by (auto simp: imap_run_def imap_talk_def imap_greeting_def Let_def dest!: resolve_bad
      split: prod.splits sum.splits option.splits expectation.splits)

interpretation imap: probe_contract "\<lambda>(rfc, now, net, p, w). fst (imap_run rfc now net p w)"
  by unfold_locales (simp split: prod.splits)

text \<open>A certificate check grades the certificate and nothing else: over a TLS connection that was
  established, the probe is OK exactly when the peer's leaf certificate is valid now and for at
  least the days asked for, whatever the server says or fails to say afterwards; configured
  without TLS it is never OK.\<close>

theorem imap_cert_check_reads_only_the_certificate:
  assumes "1 \<le> io_MinCertDays (im_opts p)"
    and "resolve (im_addr p) (im_name p) w = (Inr host, w1)" "dial net host (im_port p) w1 = (None, w2)"
    and "ne_handshake net host w2 = (Inr chain, w3)"
  shows "rs_Status (fst (imap_run rfc now net p w)) = StatusOK \<longleftrightarrow>
    io_TLS (im_opts p) \<and> (\<exists>leaf rest. chain = leaf # rest \<and> ct_NotBefore leaf \<le> now w3 \<and>
      now w3 + io_MinCertDays (im_opts p) * nanos_per_day \<le> ct_NotAfter leaf)"
proof -
  have "rs_Status (cert_expiry rfc (now w3) chain (io_MinCertDays (im_opts p)) label) = StatusOK \<longleftrightarrow>
    (\<exists>leaf rest. chain = leaf # rest \<and> ct_NotBefore leaf \<le> now w3 \<and>
      now w3 + io_MinCertDays (im_opts p) * nanos_per_day \<le> ct_NotAfter leaf)" for label
    using cert_accepted_iff [OF assms(1)] by simp
  then show ?thesis
    using assms by (simp add: imap_run_def imap_talk_def imap_handshake_def Let_def)
qed

theorem imap_cert_check_reads_only_the_certificate_witness:
  "rs_Status (fst (imap_run (\<lambda>t. []) (\<lambda>w. 5) (mute_net [\<lparr>ct_NotBefore = 0, ct_NotAfter = 8 * nanos_per_day,
       ct_Subject = [], ct_Issuer = []\<rparr>])
     (new_imap ''dovecot-cert'' (Static ''dovecot'') 993 (plain_imap\<lparr>io_TLS := True, io_MinCertDays := 7\<rparr>)) [])) = StatusOK"
  using imap_cert_check_reads_only_the_certificate
    [of "new_imap ''dovecot-cert'' (Static ''dovecot'') 993 (plain_imap\<lparr>io_TLS := True, io_MinCertDays := 7\<rparr>)" "[]"
        "''dovecot''" "[]" "mute_net [\<lparr>ct_NotBefore = 0, ct_NotAfter = 8 * nanos_per_day, ct_Subject = [], ct_Issuer = []\<rparr>]"
        "[]" "[\<lparr>ct_NotBefore = 0, ct_NotAfter = 8 * nanos_per_day, ct_Subject = [], ct_Issuer = []\<rparr>]" "[]" "\<lambda>t. []" "\<lambda>w. 5"]
  by (simp add: new_imap_def plain_imap_def resolve_def Static_def dial_def mute_net_def nanos_per_day_def)

end
