(* ===== verification/Mailq.thy ===== *)
theory Mailq
  imports Probe
begin

text \<open>
  internal/probe/mailq.go: the size of the deferred queue. The spool is the tree the walk finds, each
  directory with the listing ReadDir gave when the walk reached it: postfix may move files in
  between. \<open>live k\<close> is ctx.Err() at the \<open>k\<close>-th call of the walk's callback. filepath.WalkDir is
  written out with this callback in it.
\<close>

datatype spool = Regular | Special | Unreadable error | Dir "spool list"

datatype stat = Exists | NotExist error | StatFailed error

record mailq =
  mq_name :: string
  mq_dir :: string
  mq_critical :: int

definition new_mailq :: "string \<Rightarrow> string \<Rightarrow> int \<Rightarrow> mailq" where
  "new_mailq name dir critical = \<lparr>mq_name = name, mq_dir = dir, mq_critical = critical\<rparr>"

text \<open>walkDir: the error that ends it, the calls made so far and the files counted. An unreadable
  directory is reported by a second call, which skips it.\<close>

fun walk :: "(nat \<Rightarrow> error option) \<Rightarrow> spool \<Rightarrow> nat \<times> nat \<Rightarrow> error option \<times> nat \<times> nat"
  and walk_all :: "(nat \<Rightarrow> error option) \<Rightarrow> spool list \<Rightarrow> nat \<times> nat \<Rightarrow> error option \<times> nat \<times> nat" where
  "walk live Regular (k, n) = (case live k of Some e \<Rightarrow> (Some e, Suc k, n) | None \<Rightarrow> (None, Suc k, Suc n))"
| "walk live Special (k, n) = (case live k of Some e \<Rightarrow> (Some e, Suc k, n) | None \<Rightarrow> (None, Suc k, n))"
| "walk live (Unreadable err) (k, n) =
     (case live k of Some e \<Rightarrow> (Some e, Suc k, n)
      | None \<Rightarrow> (case live (Suc k) of Some e \<Rightarrow> (Some e, Suc (Suc k), n) | None \<Rightarrow> (None, Suc (Suc k), n)))"
| "walk live (Dir ds) (k, n) =
     (case live k of Some e \<Rightarrow> (Some e, Suc k, n) | None \<Rightarrow> walk_all live ds (Suc k, n))"
| "walk_all live [] s = (None, s)"
| "walk_all live (d # ds) s =
     (case walk live d s of (Some e, s') \<Rightarrow> (Some e, s') | (None, s') \<Rightarrow> walk_all live ds s')"

text \<open>countFiles: Stat, then WalkDir, whose own Lstat may fail (\<open>None\<close>); the callback is then called
  without an entry.\<close>

definition countFiles :: "(nat \<Rightarrow> error option) \<Rightarrow> stat \<Rightarrow> spool option \<Rightarrow> string \<Rightarrow> int \<times> error option" where
  "countFiles live st root dir =
     (case st of
        NotExist err \<Rightarrow> (0, Some err)
      | StatFailed err \<Rightarrow> (0, Some err)
      | Exists \<Rightarrow>
          (let (out, k, n) = (case root of Some d \<Rightarrow> walk live d (0, 0) | None \<Rightarrow> (live 0, 1, 0))
           in (int n, map_option (\<lambda>err. ''walking '' @ dir @ '': '' @ err) out)))"

definition is_not_exist :: "stat \<Rightarrow> bool" where
  "is_not_exist st = (case st of NotExist _ \<Rightarrow> True | _ \<Rightarrow> False)"

text \<open>Run; os.IsNotExist looks at an error without unwrapping it, so only Stat's counts.\<close>

definition mailq_run :: "(nat \<Rightarrow> error option) \<Rightarrow> stat \<Rightarrow> spool option \<Rightarrow> mailq \<Rightarrow> result" where
  "mailq_run live st root p =
     (let (count, err) = countFiles live st root (mq_dir p) in
      case (if is_not_exist st then None else err) of
        Some e \<Rightarrow> Unknown (mq_name p @ '': cannot read the deferred queue at '' @ mq_dir p @ '': '' @ e)
      | None \<Rightarrow>
          (let count = (if is_not_exist st then 0 else count);
               text = mq_name p @ '': mail queue contains '' @ itoa count @ '' items (critical limit is '' @ itoa (mq_critical p) @ '')''
           in if count \<ge> mq_critical p then Critical text else OK text))"

lemma graded_mailq_run [simp]: "graded (mailq_run live st root p)"
  by (auto simp: mailq_run_def Let_def split: prod.splits option.splits)

interpretation mailq: probe_contract "\<lambda>(live, st, root, p). mailq_run live st root p"
  by unfold_locales (simp split: prod.splits)

section \<open>What the walk counts\<close>

primrec regulars :: "spool \<Rightarrow> nat" where
  "regulars Regular = 1"
| "regulars Special = 0"
| "regulars (Unreadable e) = 0"
| "regulars (Dir ds) = sum_list (map regulars ds)"

primrec callbacks :: "spool \<Rightarrow> nat" where
  "callbacks Regular = 1"
| "callbacks Special = 1"
| "callbacks (Unreadable e) = 2"
| "callbacks (Dir ds) = Suc (sum_list (map callbacks ds))"

text \<open>The context stays live for \<open>m\<close> calls from the \<open>k\<close>-th on.\<close>

definition quiet :: "(nat \<Rightarrow> error option) \<Rightarrow> nat \<Rightarrow> nat \<Rightarrow> bool" where
  "quiet live k m \<longleftrightarrow> list_all (\<lambda>j. live j = None) [k..<k + m]"

lemma quiet_simps [simp]: "quiet live k 0" "quiet live k (Suc m) \<longleftrightarrow> live k = None \<and> quiet live (Suc k) m"
  by (simp_all add: quiet_def upt_conv_Cons del: upt_Suc)

lemma quiet_add: "quiet live k (a + b) \<longleftrightarrow> quiet live k a \<and> quiet live (k + a) b"
proof -
  have "[k..<k + (a + b)] = [k..<k + a] @ [k + a..<k + a + b]"
    using upt_add_eq_append [of k "k + a" b] by (simp add: add.assoc)
  then show ?thesis by (simp add: quiet_def)
qed

lemma walk_spec:
  "walk live d s = (e, s') \<Longrightarrow> (e = None \<longleftrightarrow> quiet live (fst s) (callbacks d)) \<and>
     (e = None \<longrightarrow> s' = (fst s + callbacks d, snd s + regulars d))"
  "walk_all live ds s = (e, s') \<Longrightarrow> (e = None \<longleftrightarrow> quiet live (fst s) (sum_list (map callbacks ds))) \<and>
     (e = None \<longrightarrow> s' = (fst s + sum_list (map callbacks ds), snd s + sum_list (map regulars ds)))"
proof (induction live d s and live ds s arbitrary: e s' and e s' rule: walk_walk_all.induct)
  case (6 live d ds s)
  obtain a s1 where a: "walk live d s = (a, s1)" by (cases "walk live d s")
  note ih = 6(1) [OF a]
  show ?case
  proof (cases a)
    case None
    with a 6(3) have "walk_all live ds s1 = (e, s')" by simp
    from 6(2) [OF a [symmetric] _ this] ih None show ?thesis by (auto simp: quiet_add)
  next
    case (Some err)
    with ih a 6(3) show ?thesis by (auto simp: quiet_add)
  qed
qed (auto split: option.splits simp: numeral_2_eq_2, (metis option.simps(3))+)

section \<open>Properties\<close>

text \<open>C29. The queue is counted completely or not graded: with a readable spool and a context that stays
  live during the walk the probe is CRITICAL exactly when the regular files below it, at any depth,
  unreadable directories aside, reach the limit; a context that ends during the walk makes it
  UNKNOWN, and so does a spool that cannot be looked at, while a missing one is an empty queue.\<close>

theorem mailq_counts_the_whole_spool:
  "rs_Status (mailq_run live st root p) =
     (case st of
        StatFailed _ \<Rightarrow> StatusUnknown
      | NotExist _ \<Rightarrow> if mq_critical p \<le> 0 then StatusCritical else StatusOK
      | Exists \<Rightarrow>
          (case root of
             None \<Rightarrow> if live 0 \<noteq> None then StatusUnknown else if mq_critical p \<le> 0 then StatusCritical else StatusOK
           | Some d \<Rightarrow>
               if \<not> list_all (\<lambda>k. live k = None) [0..<callbacks d] then StatusUnknown
               else if mq_critical p \<le> int (regulars d) then StatusCritical else StatusOK))"
proof (cases "st = Exists \<and> root \<noteq> None")
  case True
  then obtain d where d: "st = Exists" "root = Some d" by blast
  obtain e k n where w: "walk live d (0, 0) = (e, k, n)" by (metis prod.collapse)
  from walk_spec(1) [OF w] have "e = None \<longleftrightarrow> list_all (\<lambda>k. live k = None) [0..<callbacks d]"
    "e = None \<longrightarrow> n = regulars d" by (auto simp: quiet_def)
  then show ?thesis using d w by (cases e) (auto simp: mailq_run_def countFiles_def is_not_exist_def Let_def)
next
  case False
  then show ?thesis
    by (cases st; cases root) (auto simp: mailq_run_def countFiles_def is_not_exist_def Let_def split: option.splits)
qed

end
