(* ===== verification/Http_Probes.thy ===== *)
theory Http_Probes
  imports Probe Complex_Main
begin

text \<open>
  The probes that are one HTTP request: internal/probe/http.go (a GET graded by its status code),
  external.go (the relay test of checks.mailcow.email) and rspamd.go (a scan over rspamd's socket).
  \<open>http\<close> is net/http as they use it: whether a request can be built, and sending it, with the body
  as the bytes that could be read and the error after them. encoding/json's decoding is a parameter.
\<close>

section \<open>net/http and net/url\<close>

record http_request =
  rq_Method :: string
  rq_URL :: string
  rq_Header :: "(string \<times> string) list"
  rq_Body :: string

record http_response =
  rp_StatusCode :: int
  rp_Status :: string
  rp_Body :: "string \<times> error option"

record 'w http =
  ht_request_error :: "string \<Rightarrow> error option"
  ht_Do :: "http_request \<Rightarrow> 'w \<Rightarrow> http_response res \<times> 'w"

text \<open>Reading a body through io.LimitReader.\<close>

definition read_limited :: "nat \<Rightarrow> string \<times> error option \<Rightarrow> string res" where
  "read_limited limit body =
     (if limit \<le> length (fst body) then Inr (take limit (fst body))
      else case snd body of None \<Rightarrow> Inr (fst body) | Some err \<Rightarrow> Inl err)"

text \<open>The text of a URL made of a host with its port and a path: a path of a single star is written as
  it is, and a path that does not start with a slash gets one.\<close>

definition url_path_safe :: "char \<Rightarrow> bool" where
  "url_path_safe c \<longleftrightarrow> is_alnum c \<or> c \<in> set ''-_.~$&+,/:;=@''"

definition url_host_safe :: "char \<Rightarrow> bool" where
  "url_host_safe c \<longleftrightarrow> is_alnum c \<or> c \<in> set ''-_.~!$&()*+,;=:[]<>'' \<or> c = CHR 0x22 \<or> c = CHR 0x27"

definition http_url :: "string \<Rightarrow> string \<Rightarrow> string" where
  "http_url host path =
     (let text = (if path = ''*'' then path else percent_escape url_path_safe path)
      in ''http://'' @ percent_escape url_host_safe host
         @ (if text \<noteq> [] \<and> hd text \<noteq> CHR ''/'' then CHR ''/'' # text else text))"

text \<open>url.Values.Encode of one field.\<close>

definition query_safe :: "char \<Rightarrow> bool" where
  "query_safe c \<longleftrightarrow> is_alnum c \<or> c \<in> set ''-_.~''"

definition query_escape :: "string \<Rightarrow> string" where
  "query_escape s = concat (map (\<lambda>c. if c = CHR '' '' then ''+'' else percent_char query_safe c) s)"

definition form_encode :: "string \<Rightarrow> string \<Rightarrow> string" where
  "form_encode key value = query_escape key @ ''='' @ query_escape value"

section \<open>HTTP\<close>

record 'w http_probe =
  hp_name :: string
  hp_addr :: "'w addr"
  hp_port :: int
  hp_path :: string

definition new_http :: "string \<Rightarrow> 'w addr \<Rightarrow> int \<Rightarrow> string \<Rightarrow> 'w http_probe" where
  "new_http name addr port path = \<lparr>hp_name = name, hp_addr = addr, hp_port = port, hp_path = path\<rparr>"

definition http_run :: "'w http \<Rightarrow> 'w http_probe \<Rightarrow> 'w \<Rightarrow> result \<times> 'w" where
  "http_run http p w =
     (case resolve (hp_addr p) (hp_name p) w of
        (Inl bad, w') \<Rightarrow> (bad, w')
      | (Inr host, w') \<Rightarrow>
          (let target = http_url (join_host_port host (itoa (hp_port p))) (hp_path p) in
           case ht_request_error http target of
             Some err \<Rightarrow> (Unknown (hp_name p @ '': cannot build request for '' @ target @ '': '' @ err), w')
           | None \<Rightarrow>
               (case ht_Do http \<lparr>rq_Method = ''GET'', rq_URL = target,
                    rq_Header = [(''User-Agent'', ''mailcow-watchdog'')], rq_Body = []\<rparr> w' of
                  (Inl err, w'') \<Rightarrow> (Critical (hp_name p @ '': GET '' @ target @ '' failed: '' @ err), w'')
                | (Inr resp, w'') \<Rightarrow>
                    (let message = hp_name p @ '': GET '' @ target @ '' returned '' @ rp_Status resp
                     in (if rp_StatusCode resp \<ge> 500 then Critical message
                         else if rp_StatusCode resp \<ge> 400 then Warning message
                         else OK message, w'')))))"

section \<open>External\<close>

definition ExternalEndpoint :: string where
  "ExternalEndpoint = ''https://checks.mailcow.email''"

record external =
  ex_name :: string
  ex_network :: string
  ex_url :: string
  ex_details :: string

definition new_external :: "string \<Rightarrow> string \<Rightarrow> string \<Rightarrow> external" where
  "new_external name network endpoint = \<lparr>ex_name = name, ex_network = network, ex_url = endpoint, ex_details = []\<rparr>"

definition orNA :: "string \<Rightarrow> string" where
  "orNA v = (if v = [] then ''N/A'' else v)"

text \<open>\<open>decode\<close> gives the fields response and out of a JSON answer, empty when absent.\<close>

definition external_run ::
  "(string \<Rightarrow> (string \<times> string) option) \<Rightarrow> 'w http \<Rightarrow> ('w \<Rightarrow> string res \<times> 'w) \<Rightarrow> external \<Rightarrow> 'w
     \<Rightarrow> result \<times> external \<times> 'w" where
  "external_run decode http guid p w =
     (let name = ex_name p in
      case guid w of
        (Inl err, w') \<Rightarrow> (Unknown (name @ '': cannot read the mailcow GUID: '' @ err), p, w')
      | (Inr value, w') \<Rightarrow>
          (case ht_request_error http (ex_url p) of
             Some err \<Rightarrow> (Unknown (name @ '': cannot build the request: '' @ err), p, w')
           | None \<Rightarrow>
               (case ht_Do http \<lparr>rq_Method = ''POST'', rq_URL = ex_url p,
                    rq_Header = [(''Content-Type'', ''application/x-www-form-urlencoded'')],
                    rq_Body = form_encode ''guid'' value\<rparr> w' of
                  (Inl err, w'') \<Rightarrow>
                    (OK (name @ '': '' @ ex_url p @ '' is not reachable over '' @ ex_network p @ '': '' @ err), p, w'')
                | (Inr resp, w'') \<Rightarrow>
                    (case read_limited (2 ^ 20) (rp_Body resp) of
                       Inl err \<Rightarrow> (OK (name @ '': could not read the response over '' @ ex_network p @ '': '' @ err), p, w'')
                     | Inr body \<Rightarrow>
                         (case decode body of
                            None \<Rightarrow> (OK (name @ '': '' @ ex_url p @ '' returned an unparsable answer over '' @ ex_network p), p, w'')
                          | Some (response, report) \<Rightarrow>
                              (if response = ''critical''
                               then (Critical (name @ '': '' @ ex_url p @ '' reports this installation as an open relay over ''
                                       @ ex_network p), p\<lparr>ex_details := report\<rparr>, w'')
                               else (OK (name @ '': '' @ ex_url p @ '' reports '' @ quote (orNA response) @ '' over ''
                                       @ ex_network p), p, w'')))))))"

definition external_Details :: "external \<Rightarrow> string" where
  "external_Details p = ex_details p"

section \<open>Rspamd\<close>

definition rspamdSettingsScore :: int where
  "rspamdSettingsScore = 9999"

definition rspamdProbeMessage :: string where
  "rspamdProbeMessage =
     ''To: null@localhost'' @ [CHR 0x0D, CHR 0x0A] @ ''From: watchdog@localhost'' @ [CHR 0x0D, CHR 0x0A]
     @ [CHR 0x0D, CHR 0x0A] @ ''Empty'' @ [CHR 0x0D, CHR 0x0A]"

text \<open>The conversion of a float64 to int: truncation; outside int64 the result is the
  processor's, on amd64 the smallest integer.\<close>

definition go_int :: "rat \<Rightarrow> int" where
  "go_int q = (let i = (if q < 0 then \<lceil>q\<rceil> else \<lfloor>q\<rfloor>) in if in64 i then i else - (2 ^ 63))"

record rspamd =
  rm_name :: string
  rm_socket :: string

text \<open>\<open>decode\<close> gives the field default.required_score of the answer, 0 when absent.\<close>

definition new_rspamd :: "string \<Rightarrow> string \<Rightarrow> rspamd" where
  "new_rspamd name socket = \<lparr>rm_name = name, rm_socket = socket\<rparr>"

definition rspamd_run :: "(string \<Rightarrow> rat res) \<Rightarrow> 'w http \<Rightarrow> rspamd \<Rightarrow> 'w \<Rightarrow> result \<times> 'w" where
  "rspamd_run decode http p w =
     (case ht_request_error http ''http://rspamd/scan'' of
        Some err \<Rightarrow> (Unknown (rm_name p @ '': cannot build the scan request: '' @ err), w)
      | None \<Rightarrow>
          (case ht_Do http \<lparr>rq_Method = ''POST'', rq_URL = ''http://rspamd/scan'',
               rq_Header = [(''Content-Type'', ''text/plain'')], rq_Body = rspamdProbeMessage\<rparr> w of
             (Inl err, w') \<Rightarrow> (Critical (rm_name p @ '': scan through '' @ rm_socket p @ '' failed: '' @ err), w')
           | (Inr resp, w') \<Rightarrow>
               (case read_limited (2 ^ 20) (rp_Body resp) of
                  Inl err \<Rightarrow> (Critical (rm_name p @ '': cannot read the scan result: '' @ err), w')
                | Inr body \<Rightarrow>
                    (if rp_StatusCode resp \<noteq> 200
                     then (Critical (rm_name p @ '': rspamd answered the scan with '' @ rp_Status resp), w')
                     else case decode body of
                       Inl err \<Rightarrow> (Critical (rm_name p @ '': cannot parse the scan result: '' @ err), w')
                     | Inr required \<Rightarrow>
                         (if go_int required \<noteq> rspamdSettingsScore
                          then (Critical (rm_name p @ '': settings check failed, score returned: ''
                                 @ itoa (go_int required) @ '' (want '' @ itoa rspamdSettingsScore @ '')''), w')
                          else (OK (rm_name p @ '': settings check succeeded, score returned: ''
                                 @ itoa rspamdSettingsScore), w'))))))"

section \<open>Lemmas\<close>

lemma graded_http_run [simp]: "graded (fst (http_run http p w))"
  by (auto simp: http_run_def Let_def dest!: resolve_bad split: prod.splits sum.splits option.splits)

lemma graded_external_run [simp]: "graded (fst (external_run decode http guid p w))"
  by (auto simp: external_run_def Let_def split: prod.splits sum.splits option.splits)

lemma graded_rspamd_run [simp]: "graded (fst (rspamd_run decode http p w))"
  by (auto simp: rspamd_run_def Let_def split: prod.splits sum.splits option.splits)

interpretation http: probe_contract "\<lambda>(http, p, w). fst (http_run http p w)"
  by unfold_locales (simp split: prod.splits)

interpretation external: probe_contract "\<lambda>(decode, http, guid, p, w). fst (external_run decode http guid p w)"
  by unfold_locales (simp split: prod.splits)

interpretation rspamd: probe_contract "\<lambda>(decode, http, p, w). fst (rspamd_run decode http p w)"
  by unfold_locales (simp split: prod.splits)

lemma go_int_eq: "0 < k \<Longrightarrow> k \<le> max_int64 \<Longrightarrow> go_int q = k \<longleftrightarrow> of_int k \<le> q \<and> q < of_int k + 1"
proof -
  assume k: "0 < k" "k \<le> max_int64"
  have "go_int q \<le> 0" if "q < 0"
    using that by (auto simp: go_int_def Let_def ceiling_le_iff)
  moreover have "\<lfloor>q\<rfloor> = k \<longleftrightarrow> of_int k \<le> q \<and> q < of_int k + 1" by (simp add: floor_eq_iff)
  moreover have "go_int q = k \<longleftrightarrow> \<lfloor>q\<rfloor> = k" if "\<not> q < 0"
    using that k by (auto simp: go_int_def Let_def in64_def)
  ultimately show ?thesis using k by (cases "q < 0") (auto simp: not_less intro: order.trans)
qed

section \<open>Properties\<close>

text \<open>The relay test answered, and its answer is critical with this report.\<close>

definition relay_accused ::
  "(string \<Rightarrow> (string \<times> string) option) \<Rightarrow> 'w http \<Rightarrow> ('w \<Rightarrow> string res \<times> 'w) \<Rightarrow> external \<Rightarrow> 'w \<Rightarrow> string \<Rightarrow> bool" where
  "relay_accused decode http guid p w report \<longleftrightarrow>
     (\<exists>value w1 resp w2 body. guid w = (Inr value, w1) \<and> ht_request_error http (ex_url p) = None \<and>
        ht_Do http \<lparr>rq_Method = ''POST'', rq_URL = ex_url p,
          rq_Header = [(''Content-Type'', ''application/x-www-form-urlencoded'')],
          rq_Body = form_encode ''guid'' value\<rparr> w1 = (Inr resp, w2) \<and>
        read_limited (2 ^ 20) (rp_Body resp) = Inr body \<and> decode body = Some (''critical'', report))"

text \<open>C28. Only the relay test itself can accuse an installation: the probe is CRITICAL, for two points,
  exactly when the endpoint answered and its answer says critical, and then its report is what Details
  returns; it is UNKNOWN, for three points, exactly when the GUID cannot be read or the request cannot
  be built; and in every other case, an endpoint that cannot be reached, read or parsed included, it is
  OK and costs nothing. Nothing but a critical answer changes the report, so an old one stays for every
  later notification.\<close>

theorem external_accuses_only_on_critical:
  "let (verdict, p', w') = external_run decode http guid p w;
       helpless = (isl (fst (guid w)) \<or> ht_request_error http (ex_url p) \<noteq> None)
   in (rs_Status verdict = StatusCritical \<and> result_weight verdict = 2 \<longleftrightarrow> (\<exists>report. relay_accused decode http guid p w report)) \<and>
      (rs_Status verdict = StatusUnknown \<and> result_weight verdict = 3 \<longleftrightarrow> helpless) \<and>
      (rs_Status verdict = StatusOK \<and> result_weight verdict = 0 \<longleftrightarrow>
         \<not> helpless \<and> (\<forall>report. \<not> relay_accused decode http guid p w report)) \<and>
      (\<forall>report. relay_accused decode http guid p w report \<longrightarrow> external_Details p' = report) \<and>
      ((\<forall>report. \<not> relay_accused decode http guid p w report) \<longrightarrow> p' = p)"
proof -
  obtain g w1 where g: "guid w = (g, w1)" by fastforce
  show ?thesis
  proof (cases "\<exists>value. g = Inr value \<and> ht_request_error http (ex_url p) = None")
    case False
    then show ?thesis
      by (cases g) (auto simp: external_run_def relay_accused_def result_weight_def g)
  next
    case True
    then obtain v where v: "g = Inr v" "ht_request_error http (ex_url p) = None" by blast
    obtain r w2 where r: "ht_Do http \<lparr>rq_Method = ''POST'', rq_URL = ex_url p,
        rq_Header = [(''Content-Type'', ''application/x-www-form-urlencoded'')],
        rq_Body = form_encode ''guid'' v\<rparr> w1 = (r, w2)" by fastforce
    show ?thesis
    proof (cases r)
      case (Inr resp)
      then show ?thesis
        by (cases "read_limited (2 ^ 20) (rp_Body resp)")
          (auto simp: external_run_def relay_accused_def result_weight_def external_Details_def g v r Let_def split: option.splits)
    qed (simp add: external_run_def relay_accused_def result_weight_def g v r Let_def)
  qed
qed

definition relay_endpoint :: "unit http" where
  "relay_endpoint = \<lparr>ht_request_error = (\<lambda>u. None),
     ht_Do = (\<lambda>rq w. (Inr \<lparr>rp_StatusCode = 200, rp_Status = ''200 OK'', rp_Body = (''bad'', None)\<rparr>, w))\<rparr>"

theorem external_accuses_only_on_critical_witness:
  "case external_run (\<lambda>b. Some (''critical'', b)) relay_endpoint (\<lambda>w. (Inr ''guid'', w)) (new_external ''relay'' ''tcp4'' ExternalEndpoint) ()
   of (verdict, p', w') \<Rightarrow> result_weight verdict = 2 \<and> external_Details p' = ''bad''"
proof -
  have "relay_accused (\<lambda>b. Some (''critical'', b)) relay_endpoint (\<lambda>w. (Inr ''guid'', w)) (new_external ''relay'' ''tcp4'' ExternalEndpoint) () ''bad''"
    by (simp add: relay_accused_def relay_endpoint_def read_limited_def)
  with external_accuses_only_on_critical [of "\<lambda>b. Some (''critical'', b)" relay_endpoint "\<lambda>w. (Inr ''guid'', w)"
      "new_external ''relay'' ''tcp4'' ExternalEndpoint" "()"]
  show ?thesis by (auto simp: Let_def split: prod.splits)
qed

text \<open>Rspamd counts as healthy exactly when it answered the scan with 200 and a required score from
  9999 up to but not including 10000, the mark of mailcow's settings; everything else is CRITICAL,
  and UNKNOWN only means that the request could not be built.\<close>

theorem rspamd_recognises_its_settings:
  assumes "ht_request_error http ''http://rspamd/scan'' = None"
  shows "rs_Status (fst (rspamd_run decode http p w)) \<in> {StatusOK, StatusCritical} \<and>
    (rs_Status (fst (rspamd_run decode http p w)) = StatusOK \<longleftrightarrow>
      (\<exists>resp w1 body required. ht_Do http \<lparr>rq_Method = ''POST'', rq_URL = ''http://rspamd/scan'',
           rq_Header = [(''Content-Type'', ''text/plain'')], rq_Body = rspamdProbeMessage\<rparr> w = (Inr resp, w1) \<and>
         rp_StatusCode resp = 200 \<and> read_limited (2 ^ 20) (rp_Body resp) = Inr body \<and>
         decode body = Inr required \<and> 9999 \<le> required \<and> required < 10000))"
proof -
  have k: "go_int q = 9999 \<longleftrightarrow> 9999 \<le> q \<and> q < 10000" for q
    using go_int_eq [of 9999 q] by simp
  obtain r w1 where r: "ht_Do http \<lparr>rq_Method = ''POST'', rq_URL = ''http://rspamd/scan'',
           rq_Header = [(''Content-Type'', ''text/plain'')], rq_Body = rspamdProbeMessage\<rparr> w = (r, w1)" by fastforce
  show ?thesis
    by (cases r) (auto simp: rspamd_run_def assms r rspamdSettingsScore_def k split: sum.splits)
qed

theorem rspamd_recognises_its_settings_witness:
  "rs_Status (fst (rspamd_run (\<lambda>body. Inr 9999)
     \<lparr>ht_request_error = (\<lambda>u. None), ht_Do = (\<lambda>q w. (Inr \<lparr>rp_StatusCode = 200, rp_Status = ''200 OK'', rp_Body = ([], None)\<rparr>, w))\<rparr>
     \<lparr>rm_name = ''settings'', rm_socket = ''/var/lib/rspamd/rspamd.sock''\<rparr> ())) = StatusOK"
  using rspamd_recognises_its_settings [of "\<lparr>ht_request_error = (\<lambda>u. None),
      ht_Do = (\<lambda>q w. (Inr \<lparr>rp_StatusCode = 200, rp_Status = ''200 OK'', rp_Body = ([], None)\<rparr>, w))\<rparr>"
    "\<lambda>body. Inr 9999" "\<lparr>rm_name = ''settings'', rm_socket = ''/var/lib/rspamd/rspamd.sock''\<rparr>" "()"]
  by (simp add: read_limited_def)

text \<open>An HTTP service is asked once, by GET, at its host, port and path, and graded by the class of
  the answer: 5xx and no answer at all are CRITICAL, 4xx is WARNING, everything below is OK.\<close>

theorem http_graded_by_class:
  assumes "resolve (hp_addr p) (hp_name p) w = (Inr host, w1)"
    and "ht_request_error http (http_url (join_host_port host (itoa (hp_port p))) (hp_path p)) = None"
    and "ht_Do http \<lparr>rq_Method = ''GET'', rq_URL = http_url (join_host_port host (itoa (hp_port p))) (hp_path p),
      rq_Header = [(''User-Agent'', ''mailcow-watchdog'')], rq_Body = []\<rparr> w1 = (out, w2)"
  shows "snd (http_run http p w) = w2 \<and>
    rs_Status (fst (http_run http p w)) =
      (case out of Inl _ \<Rightarrow> StatusCritical
       | Inr resp \<Rightarrow> if 500 \<le> rp_StatusCode resp then StatusCritical
           else if 400 \<le> rp_StatusCode resp then StatusWarning else StatusOK)"
  using assms by (auto simp: http_run_def Let_def split: sum.splits)

definition demo_http :: "unit http" where
  "demo_http = \<lparr>ht_request_error = (\<lambda>u. None), ht_Do = (\<lambda>q w.
     (Inr \<lparr>rp_StatusCode = 404, rp_Status = rq_Method q @ '' '' @ rq_URL q, rp_Body = ([], None)\<rparr>, w))\<rparr>"

theorem http_graded_by_class_witness:
  "rs_Status (fst (http_run demo_http (new_http ''http-8081'' (Static ''nginx'') 8081 ''/'') ())) = StatusWarning"
proof -
  let ?p = "new_http ''http-8081'' (Static ''nginx'') 8081 ''/''"
  have r: "resolve (hp_addr ?p) (hp_name ?p) () = (Inr ''nginx'', ())"
    by (simp add: new_http_def resolve_def Static_def)
  have "ht_request_error demo_http u = None" for u by (simp add: demo_http_def)
  from http_graded_by_class [OF r this] show ?thesis by (simp add: demo_http_def)
qed

end
