(* ===== verification/Mysql.thy ===== *)
theory Mysql
  imports Http_Probes
begin

text \<open>
  internal/probe/mysql.go: the connection and query probe, the replication probe and the GUID lookup.
  \<open>sqldb\<close> is database/sql as they use it: a ping, the scan of a query's single value, and a query
  with its first row, each failure where the code looks for it. A nil handle is \<open>None\<close>.
\<close>

section \<open>database/sql and strings.EqualFold\<close>

datatype scan = Scanned string | NoRows | ScanFailed error

record sqlrows =
  sr_Columns :: "string list res"
  sr_First :: "(string option list res) option"
  sr_Err :: "error option"

record 'w sqldb =
  sq_Ping :: "'w \<Rightarrow> error option \<times> 'w"
  sq_QueryRow :: "string \<Rightarrow> 'w \<Rightarrow> scan \<times> 'w"
  sq_Query :: "string \<Rightarrow> 'w \<Rightarrow> sqlrows res \<times> 'w"

text \<open>Case folding of a text that is compared with ASCII letters: besides the capitals, two characters
  outside ASCII fold onto a letter, U+017F onto s and U+212A onto k.\<close>

fun fold_case :: "string \<Rightarrow> string" where
  "fold_case (a # b # c # s) =
     (if a = CHR 0xC5 \<and> b = CHR 0xBF then CHR ''s'' # fold_case (c # s)
      else if a = CHR 0xE2 \<and> b = CHR 0x84 \<and> c = CHR 0xAA then CHR ''k'' # fold_case s
      else lower_char a # fold_case (b # c # s))"
| "fold_case [a, b] = (if a = CHR 0xC5 \<and> b = CHR 0xBF then ''s'' else [lower_char a, lower_char b])"
| "fold_case [a] = [lower_char a]"
| "fold_case [] = []"

declare fold_case.simps [simp del]

definition equal_fold :: "string \<Rightarrow> string \<Rightarrow> bool" where
  "equal_fold s t \<longleftrightarrow> fold_case s = fold_case t"

section \<open>MySQL\<close>

record mysql =
  my_name :: string
  my_query :: string

definition new_mysql_ping :: "string \<Rightarrow> mysql" where
  "new_mysql_ping name = \<lparr>my_name = name, my_query = []\<rparr>"

definition new_mysql_query :: "string \<Rightarrow> string \<Rightarrow> mysql" where
  "new_mysql_query name query = \<lparr>my_name = name, my_query = query\<rparr>"

definition mysql_run :: "'w sqldb option \<Rightarrow> mysql \<Rightarrow> 'w \<Rightarrow> result \<times> 'w" where
  "mysql_run db p w =
     (case db of
        None \<Rightarrow> (Unknown (my_name p @ '': no database handle configured''), w)
      | Some db \<Rightarrow>
          (case sq_Ping db w of
             (Some err, w') \<Rightarrow> (Critical (my_name p @ '': cannot reach the database: '' @ err), w')
           | (None, w') \<Rightarrow>
               (if my_query p = [] then (OK (my_name p @ '': database is reachable''), w')
                else case sq_QueryRow db (my_query p) w' of
                  (ScanFailed err, w'') \<Rightarrow> (Critical (my_name p @ '': query failed: '' @ err), w'')
                | (_, w'') \<Rightarrow> (OK (my_name p @ '': query succeeded''), w''))))"

definition GUID :: "'w sqldb \<Rightarrow> 'w \<Rightarrow> string res \<times> 'w" where
  "GUID db w =
     (case sq_QueryRow db (''SELECT version FROM versions WHERE application = '' @ [CHR 0x27] @ ''GUID'' @ [CHR 0x27]) w of
        (Scanned guid, w') \<Rightarrow> (Inr guid, w')
      | (NoRows, w') \<Rightarrow> (Inl (''reading the mailcow GUID: sql: no rows in result set''), w')
      | (ScanFailed err, w') \<Rightarrow> (Inl (''reading the mailcow GUID: '' @ err), w'))"

section \<open>MySQLReplication\<close>

definition colSQLRunning :: string where "colSQLRunning = ''Slave_SQL_Running''"
definition colIORunning :: string where "colIORunning = ''Slave_IO_Running''"
definition colPrimaryHost :: string where "colPrimaryHost = ''Master_Host''"
definition colSecondsBehind :: string where "colSecondsBehind = ''Seconds_Behind_Master''"

text \<open>The row as a map: a later column of the same name wins, and NULL becomes its name.\<close>

definition row_status :: "string list \<Rightarrow> string option list \<Rightarrow> string \<Rightarrow> string option" where
  "row_status cols cells =
     map_of (rev (zip cols (map (\<lambda>cell. case cell of Some s \<Rightarrow> s | None \<Rightarrow> ''NULL'') cells)))"

definition replicationStatus :: "'w sqldb \<Rightarrow> 'w \<Rightarrow> (string \<Rightarrow> string option) option res \<times> 'w" where
  "replicationStatus db w =
     (case sq_Query db ''SHOW SLAVE STATUS'' w of
        (Inl err, w') \<Rightarrow> (Inl err, w')
      | (Inr rows, w') \<Rightarrow>
          (case sr_Columns rows of
             Inl err \<Rightarrow> Inl err
           | Inr cols \<Rightarrow>
               (case sr_First rows of
                  None \<Rightarrow> (case sr_Err rows of None \<Rightarrow> Inr None | Some err \<Rightarrow> Inl err)
                | Some (Inl err) \<Rightarrow> Inl err
                | Some (Inr cells) \<Rightarrow>
                    (case sr_Err rows of None \<Rightarrow> Inr (Some (row_status cols cells)) | Some err \<Rightarrow> Inl err)), w'))"

definition column :: "(string \<Rightarrow> string option) \<Rightarrow> string \<Rightarrow> string" where
  "column status col = (case status col of None \<Rightarrow> [] | Some v \<Rightarrow> v)"

definition replication_evaluate :: "string \<Rightarrow> (string \<Rightarrow> string option) option \<Rightarrow> result" where
  "replication_evaluate name status =
     (case status of
        None \<Rightarrow> Critical (name @ '': the server reports no replication status at all'')
      | Some status \<Rightarrow>
          (let sqlRunning = column status colSQLRunning; ioRunning = column status colIORunning;
               primary = column status colPrimaryHost; delay = column status colSecondsBehind in
           if sqlRunning = [] \<or> equal_fold sqlRunning ''NULL''
           then Critical (name @ '': the replica'' @ CHR 0x27 # ''s SQL thread reports NULL ('' @ colSQLRunning @ '')'')
           else if equal_fold sqlRunning ''No''
           then Critical (name @ '': the replica'' @ CHR 0x27 # ''s SQL thread is not running'')
           else if equal_fold ioRunning ''No''
           then Critical (name @ '': the replica'' @ CHR 0x27 # ''s I/O thread is not running'')
           else if equal_fold ioRunning ''Connecting''
           then Critical (name @ '': the replica'' @ CHR 0x27 # ''s I/O thread cannot reach the primary'')
           else if equal_fold sqlRunning ''Yes'' \<and> equal_fold ioRunning ''Yes''
           then OK (name @ '': replicating from primary '' @ orNA primary @ '', '' @ orNA delay @ '' seconds behind'')
           else Unknown (name @ '': unexpected replication state (SQL thread '' @ quote sqlRunning
                  @ '', I/O thread '' @ quote ioRunning @ '')'')))"

definition replication_run :: "'w sqldb option \<Rightarrow> string \<Rightarrow> 'w \<Rightarrow> result \<times> 'w" where
  "replication_run db name w =
     (case db of
        None \<Rightarrow> (Unknown (name @ '': no database handle configured''), w)
      | Some db \<Rightarrow>
          (case replicationStatus db w of
             (Inl err, w') \<Rightarrow> (Critical (name @ '': cannot read the replication status: '' @ err), w')
           | (Inr status, w') \<Rightarrow> (replication_evaluate name status, w')))"

section \<open>Lemmas\<close>

lemma graded_mysql_run [simp]: "graded (fst (mysql_run db p w))"
  by (auto simp: mysql_run_def split: option.splits prod.splits scan.splits)

lemma graded_evaluate [simp]: "graded (replication_evaluate name status)"
  by (auto simp: replication_evaluate_def Let_def split: option.splits)

lemma graded_replication_run [simp]: "graded (fst (replication_run db name w))"
  by (auto simp: replication_run_def split: option.splits prod.splits sum.splits)

interpretation mysql: probe_contract "\<lambda>(db, p, w). fst (mysql_run db p w)"
  by unfold_locales (simp split: prod.splits)

interpretation replication: probe_contract "\<lambda>(db, name, w). fst (replication_run db name w)"
  by unfold_locales (simp split: prod.splits)

lemma fold_words [simp]:
  "fold_case ''NULL'' = ''null''" "fold_case ''No'' = ''no''" "fold_case ''Yes'' = ''yes''"
  "fold_case ''Connecting'' = ''connecting''"
  by code_simp+

text \<open>The abstract verdict: the two threads' answers, folded.\<close>

definition thread_verdict :: "string \<Rightarrow> string \<Rightarrow> status" where
  "thread_verdict s i =
     (if s \<in> {'''', ''null'', ''no''} \<or> i \<in> {''no'', ''connecting''} then StatusCritical
      else if s = ''yes'' \<and> i = ''yes'' then StatusOK else StatusUnknown)"

lemma fold_case_empty [simp]: "fold_case s = [] \<longleftrightarrow> s = []"
  by (cases s rule: fold_case.cases) (auto simp: fold_case.simps)

lemma evaluate_verdict:
  "rs_Status (replication_evaluate name (Some st)) =
     thread_verdict (fold_case (column st colSQLRunning)) (fold_case (column st colIORunning))"
  by (simp add: replication_evaluate_def thread_verdict_def equal_fold_def Let_def)

text \<open>The last cell of a column, as it is graded: absent and NULL are not the same.\<close>

definition cell :: "string list \<Rightarrow> string option list \<Rightarrow> string \<Rightarrow> string" where
  "cell cols cells col =
     (case find (\<lambda>p. fst p = col) (rev (zip cols cells)) of
        None \<Rightarrow> [] | Some (_, None) \<Rightarrow> ''NULL'' | Some (_, Some s) \<Rightarrow> s)"

lemma column_row: "column (row_status cols cells) col = cell cols cells col"
proof -
  have "map_of (map (\<lambda>(c, x). (c, f x)) ps) col = map_option (f \<circ> snd) (find (\<lambda>p. fst p = col) ps)" for f :: "string option \<Rightarrow> string" and ps
    by (induction ps) auto
  from this [of "\<lambda>x. case x of Some s \<Rightarrow> s | None \<Rightarrow> ''NULL''" "rev (zip cols cells)"] show ?thesis
    by (auto simp: column_def row_status_def cell_def zip_map2 rev_map split: option.splits)
qed

section \<open>Properties\<close>

text \<open>Replication is healthy exactly when the first row of the status says Yes for both threads, in
  any case of letters; a thread that says No or NULL, an I/O thread that is connecting, an absent
  SQL column, no row at all and every error of the query are CRITICAL, and any other pair of answers
  is UNKNOWN. The verdict never depends on another column.\<close>

theorem replication_verdict:
  assumes "sq_Query db ''SHOW SLAVE STATUS'' w = (out, w')"
  shows "rs_Status (fst (replication_run (Some db) name w)) =
    (case out of
       Inr rows \<Rightarrow>
         (case (sr_Columns rows, sr_First rows, sr_Err rows) of
            (Inr cols, Some (Inr cells), None) \<Rightarrow>
              thread_verdict (fold_case (cell cols cells colSQLRunning)) (fold_case (cell cols cells colIORunning))
          | _ \<Rightarrow> StatusCritical)
     | Inl _ \<Rightarrow> StatusCritical)"
proof (cases out)
  case (Inl e)
  then show ?thesis using assms by (simp add: replication_run_def replicationStatus_def)
next
  case (Inr rows)
  have none: "rs_Status (replication_evaluate name None) = StatusCritical" by (simp add: replication_evaluate_def)
  show ?thesis using assms Inr none
    by (auto simp: replication_run_def replicationStatus_def evaluate_verdict column_row
        split: sum.splits option.splits)
qed

theorem replication_verdict_witness:
  "rs_Status (fst (replication_run (Some \<lparr>sq_Ping = (\<lambda>w. (None, w)), sq_QueryRow = (\<lambda>q w. (NoRows, w)),
      sq_Query = (\<lambda>q w. (Inr \<lparr>sr_Columns = Inr [''Slave_IO_Running'', ''Slave_SQL_Running''],
        sr_First = Some (Inr [Some ''Connecting'', Some ''YES'']), sr_Err = None\<rparr>, w))\<rparr>) ''replica-status'' ())) = StatusCritical"
proof -
  let ?rows = "\<lparr>sr_Columns = Inr [''Slave_IO_Running'', ''Slave_SQL_Running''],
        sr_First = Some (Inr [Some ''Connecting'', Some ''YES'']), sr_Err = None\<rparr>"
  let ?db = "\<lparr>sq_Ping = (\<lambda>w. (None, w)), sq_QueryRow = (\<lambda>q w. (NoRows, w)), sq_Query = (\<lambda>q w. (Inr ?rows, w))\<rparr>"
  have "sq_Query ?db ''SHOW SLAVE STATUS'' () = (Inr ?rows, ())" by simp
  moreover have "fold_case ''YES'' = ''yes''" by code_simp
  ultimately show ?thesis using replication_verdict [of ?db "()" "Inr ?rows" "()" "''replica-status''"]
    by (simp add: cell_def colSQLRunning_def colIORunning_def thread_verdict_def)
qed

end
