(* ===== verification/Dns.thy ===== *)
theory Dns
  imports Probe
begin

text \<open>
  internal/probe/dns.go: the lookup and the DNSSEC probe. github.com/miekg/dns is the parameter
  \<open>dns_client\<close>: the canonical form of a name, the text of a response code, and one exchange over
  "udp" or "tcp". Of a reply the probes read the response code, two flags and the answers, an
  address record as \<open>Some\<close> of its text and any other record as \<open>None\<close>.
\<close>

datatype qtype = TypeA | TypeSOA

record dns_query =
  qy_Name :: string
  qy_Type :: qtype
  qy_RecursionDesired :: bool
  qy_Edns :: "(nat \<times> bool) option"

record dns_reply =
  dr_Rcode :: int
  dr_Truncated :: bool
  dr_AuthenticatedData :: bool
  dr_Answer :: "string option list"

record 'w dns_client =
  dn_Fqdn :: "string \<Rightarrow> string"
  dn_RcodeToString :: "int \<Rightarrow> string"
  dn_Exchange :: "string \<Rightarrow> dns_query \<Rightarrow> string \<Rightarrow> 'w \<Rightarrow> dns_reply res \<times> 'w"

definition DNSPort :: int where
  "DNSPort = 53"

definition dns_exchange :: "'w dns_client \<Rightarrow> dns_query \<Rightarrow> string \<Rightarrow> int \<Rightarrow> 'w \<Rightarrow> dns_reply res \<times> 'w" where
  "dns_exchange c msg server port w =
     (let addr = join_host_port server (itoa port) in
      case dn_Exchange c ''udp'' msg addr w of
        (Inl err, w') \<Rightarrow> (Inl err, w')
      | (Inr reply, w') \<Rightarrow>
          (if \<not> dr_Truncated reply then (Inr reply, w')
           else case dn_Exchange c ''tcp'' msg addr w' of
             (Inl err, w'') \<Rightarrow> (Inl (''retrying truncated answer over TCP: '' @ err), w'')
           | (Inr reply, w'') \<Rightarrow> (Inr reply, w'')))"

section \<open>DNS\<close>

record 'w dns =
  ds_name :: string
  ds_resolver :: "'w addr"
  ds_port :: int
  ds_query :: string

definition new_dns :: "'w dns_client \<Rightarrow> string \<Rightarrow> 'w addr \<Rightarrow> int \<Rightarrow> string \<Rightarrow> 'w dns" where
  "new_dns c name resolver port query =
     \<lparr>ds_name = name, ds_resolver = resolver, ds_port = port, ds_query = dn_Fqdn c query\<rparr>"

definition addresses_in :: "dns_reply \<Rightarrow> string list" where
  "addresses_in reply = List.map_filter id (dr_Answer reply)"

text \<open>\<open>seconds d\<close> is the \<open>%.3f\<close> text of a duration in seconds.\<close>

definition dns_run :: "(int \<Rightarrow> string) \<Rightarrow> ('w \<Rightarrow> int) \<Rightarrow> 'w dns_client \<Rightarrow> 'w dns \<Rightarrow> 'w \<Rightarrow> result \<times> 'w" where
  "dns_run seconds now c p w =
     (let name = ds_name p; query = ds_query p in
      case resolve (ds_resolver p) name w of
        (Inl bad, w') \<Rightarrow> (bad, w')
      | (Inr server, w') \<Rightarrow>
          (case dns_exchange c \<lparr>qy_Name = query, qy_Type = TypeA, qy_RecursionDesired = True, qy_Edns = None\<rparr>
               server (ds_port p) w' of
             (Inl err, w'') \<Rightarrow> (Critical (name @ '': '' @ query @ '' was not answered by '' @ server @ '': '' @ err), w'')
           | (Inr reply, w'') \<Rightarrow>
               (if dr_Rcode reply \<noteq> 0
                then (Critical (name @ '': '' @ query @ '' was answered by '' @ server @ '' with ''
                       @ dn_RcodeToString c (dr_Rcode reply)), w'')
                else if addresses_in reply = []
                then (Critical (name @ '': '' @ query @ '' returned no address from '' @ server), w'')
                else (OK (name @ '': '' @ seconds (now w'' - now w') @ '' seconds response time, '' @ query @ '' returns ''
                       @ join '','' (addresses_in reply)), w''))))"

section \<open>DNSSEC\<close>

record 'w dnssec =
  dx_name :: string
  dx_resolver :: "'w addr"
  dx_port :: int
  dx_zone :: string

definition new_dnssec :: "'w dns_client \<Rightarrow> string \<Rightarrow> 'w addr \<Rightarrow> int \<Rightarrow> string \<Rightarrow> 'w dnssec" where
  "new_dnssec c name resolver port zone =
     \<lparr>dx_name = name, dx_resolver = resolver, dx_port = port, dx_zone = dn_Fqdn c zone\<rparr>"

definition dnssec_run :: "'w dns_client \<Rightarrow> 'w dnssec \<Rightarrow> 'w \<Rightarrow> result \<times> 'w" where
  "dnssec_run c p w =
     (let name = dx_name p; zone = dx_zone p in
      case resolve (dx_resolver p) name w of
        (Inl bad, w') \<Rightarrow> (bad, w')
      | (Inr server, w') \<Rightarrow>
          (case dns_exchange c \<lparr>qy_Name = zone, qy_Type = TypeSOA, qy_RecursionDesired = True, qy_Edns = Some (4096, True)\<rparr>
               server (dx_port p) w' of
             (Inl err, w'') \<Rightarrow> (Critical (name @ '': DNSSEC query for '' @ zone @ '' failed: '' @ err), w'')
           | (Inr reply, w'') \<Rightarrow>
               (if \<not> dr_AuthenticatedData reply
                then (Critical (name @ '': '' @ server @ '' answered '' @ zone @ '' without the authenticated-data flag''), w'')
                else (OK (name @ '': '' @ server @ '' validated '' @ zone), w''))))"

section \<open>Lemmas\<close>

lemma graded_dns_run [simp]: "graded (fst (dns_run seconds now c p w))"
  by (auto simp: dns_run_def Let_def dest!: resolve_bad split: prod.splits sum.splits)

lemma graded_dnssec_run [simp]: "graded (fst (dnssec_run c p w))"
  by (auto simp: dnssec_run_def Let_def dest!: resolve_bad split: prod.splits sum.splits)

interpretation dns: probe_contract "\<lambda>(seconds, now, c, p, w). fst (dns_run seconds now c p w)"
  by unfold_locales (simp split: prod.splits)

interpretation dnssec: probe_contract "\<lambda>(c, p, w). fst (dnssec_run c p w)"
  by unfold_locales (simp split: prod.splits)

lemma addresses_in_empty: "addresses_in reply = [] \<longleftrightarrow> (\<forall>a \<in> set (dr_Answer reply). a = None)"
  by (auto simp: addresses_in_def map_filter_def filter_empty_conv)

text \<open>C27. The resolver is judged by a complete answer only: an answer over UDP that says it is truncated
  is asked for again over TCP and never graded; with the answer that is left, the lookup is OK
  exactly when it succeeded and holds an address record, the DNSSEC probe exactly when the resolver
  set the authenticated-data flag, whatever the response code; everything else is CRITICAL.\<close>

theorem dns_judged_by_complete_answer:
  assumes "resolve (ds_resolver p) (ds_name p) w = (Inr server, w1)"
    and "resolve (dx_resolver q) (dx_name q) w = (Inr server', w1')"
  shows "(rs_Status (fst (dns_run seconds now c p w)) = StatusOK \<longleftrightarrow>
      (\<exists>u w2 r w3. dn_Exchange c ''udp'' \<lparr>qy_Name = ds_query p, qy_Type = TypeA, qy_RecursionDesired = True, qy_Edns = None\<rparr>
           (join_host_port server (itoa (ds_port p))) w1 = (Inr u, w2) \<and>
         (if dr_Truncated u
          then dn_Exchange c ''tcp'' \<lparr>qy_Name = ds_query p, qy_Type = TypeA, qy_RecursionDesired = True, qy_Edns = None\<rparr>
             (join_host_port server (itoa (ds_port p))) w2 = (Inr r, w3) else r = u) \<and>
         dr_Rcode r = 0 \<and> (\<exists>a. Some a \<in> set (dr_Answer r)))) \<and>
    rs_Status (fst (dns_run seconds now c p w)) \<in> {StatusOK, StatusCritical} \<and>
    (rs_Status (fst (dnssec_run c q w)) = StatusOK \<longleftrightarrow>
      (\<exists>u w2 r w3. dn_Exchange c ''udp'' \<lparr>qy_Name = dx_zone q, qy_Type = TypeSOA, qy_RecursionDesired = True,
           qy_Edns = Some (4096, True)\<rparr> (join_host_port server' (itoa (dx_port q))) w1' = (Inr u, w2) \<and>
         (if dr_Truncated u
          then dn_Exchange c ''tcp'' \<lparr>qy_Name = dx_zone q, qy_Type = TypeSOA, qy_RecursionDesired = True,
             qy_Edns = Some (4096, True)\<rparr> (join_host_port server' (itoa (dx_port q))) w2 = (Inr r, w3) else r = u) \<and>
         dr_AuthenticatedData r)) \<and>
    rs_Status (fst (dnssec_run c q w)) \<in> {StatusOK, StatusCritical}"
proof -
  have lookup: "(\<exists>r w3. dns_exchange c m s k v = (Inr r, w3) \<and> P r) \<longleftrightarrow>
     (\<exists>u w2 r w3. dn_Exchange c ''udp'' m (join_host_port s (itoa k)) v = (Inr u, w2) \<and>
        (if dr_Truncated u then dn_Exchange c ''tcp'' m (join_host_port s (itoa k)) w2 = (Inr r, w3) else r = u) \<and> P r)"
    for m s k v P
    by (auto simp: dns_exchange_def Let_def split: prod.splits sum.splits if_splits)
  have "rs_Status (fst (dns_run seconds now c p w)) = StatusOK \<longleftrightarrow>
    (\<exists>r w3. dns_exchange c \<lparr>qy_Name = ds_query p, qy_Type = TypeA, qy_RecursionDesired = True, qy_Edns = None\<rparr> server
       (ds_port p) w1 = (Inr r, w3) \<and> (dr_Rcode r = 0 \<and> (\<exists>a. Some a \<in> set (dr_Answer r))))"
    using assms(1) by (auto simp: dns_run_def Let_def addresses_in_empty split: prod.splits sum.splits)
  moreover have "rs_Status (fst (dnssec_run c q w)) = StatusOK \<longleftrightarrow>
    (\<exists>r w3. dns_exchange c \<lparr>qy_Name = dx_zone q, qy_Type = TypeSOA, qy_RecursionDesired = True, qy_Edns = Some (4096, True)\<rparr>
       server' (dx_port q) w1' = (Inr r, w3) \<and> dr_AuthenticatedData r)"
    using assms(2) by (auto simp: dnssec_run_def Let_def split: prod.splits sum.splits)
  moreover have "rs_Status (fst (dns_run seconds now c p w)) \<in> {StatusOK, StatusCritical}"
    using assms(1) by (auto simp: dns_run_def Let_def split: prod.splits sum.splits)
  moreover have "rs_Status (fst (dnssec_run c q w)) \<in> {StatusOK, StatusCritical}"
    using assms(2) by (auto simp: dnssec_run_def Let_def split: prod.splits sum.splits)
  ultimately show ?thesis unfolding lookup by blast
qed

text \<open>A resolver whose answers are too long for UDP.\<close>

definition long_answers :: "unit dns_client" where
  "long_answers = \<lparr>dn_Fqdn = (\<lambda>n. n @ ''.''), dn_RcodeToString = (\<lambda>r. ''SERVFAIL''),
     dn_Exchange = (\<lambda>proto q a w. (Inr \<lparr>dr_Rcode = 0, dr_Truncated = (proto = ''udp''), dr_AuthenticatedData = (proto = ''tcp''),
       dr_Answer = (if proto = ''tcp'' then [None, Some ''192.0.2.1''] else [])\<rparr>, w))\<rparr>"

theorem dns_judged_by_complete_answer_witness:
  "rs_Status (fst (dns_run (\<lambda>d. []) (\<lambda>w. 0) long_answers
      (new_dns long_answers ''lookup'' (Static ''unbound'') DNSPort ''stackoverflow.com'') ())) = StatusOK \<and>
   rs_Status (fst (dnssec_run long_answers (new_dnssec long_answers ''dnssec'' (Static ''unbound'') DNSPort ''com'') ())) = StatusOK"
  using dns_judged_by_complete_answer
    [of "new_dns long_answers ''lookup'' (Static ''unbound'') DNSPort ''stackoverflow.com''" "()" "''unbound''" "()"
        "new_dnssec long_answers ''dnssec'' (Static ''unbound'') DNSPort ''com''" "''unbound''" "()" "\<lambda>d. []" "\<lambda>w. 0" long_answers]
  by (simp add: new_dns_def new_dnssec_def resolve_def Static_def) (simp add: long_answers_def)

end
