(* ===== verification/Registry.thy ===== *)
theory Registry
  imports Runner Config Redis_Probes Smtp_Probe Imap Mailq Mysql Dns
begin

text \<open>
  internal/check/registry.go and resolver.go: which checks run, with which probes and which sleep
  windows. The probes that remember what they saw are objects of the Go program; here their records
  are part of the world, in \<open>watch\<close>, beside the environment everything else happens in, and a probe
  on the environment is lifted to that world, so that nothing outside reaches a probe's memory.
\<close>

section \<open>Windows\<close>

definition originalInterval :: int where "originalInterval = 20 * second"
definition standardJitter :: int where "standardJitter = 59 * second"
definition clamdJitter :: int where "clamdJitter = 119 * second"
definition originalExternal :: int where "originalExternal = 30 * minute"
definition externalJitter :: int where "externalJitter = 19 * second"
definition originalCert :: int where "originalCert = 5 * minute"

record windows =
  wi_Standard :: interval
  wi_Clamd :: interval
  wi_External :: interval
  wi_Cert :: interval

definition Intervals :: "int \<Rightarrow> windows" where
  "Intervals base =
     (let base = (if base \<le> 0 then originalInterval else base) in
      \<lparr>wi_Standard = \<lparr>iv_Min = base, iv_Max = wrap64 (base + standardJitter)\<rparr>,
       wi_Clamd = \<lparr>iv_Min = base, iv_Max = wrap64 (base + clamdJitter)\<rparr>,
       wi_External = \<lparr>iv_Min = max base originalExternal, iv_Max = wrap64 (max base originalExternal + externalJitter)\<rparr>,
       wi_Cert = interval_fixed (max base originalCert)\<rparr>)"

section \<open>Resolvers\<close>

definition DNSResolver_Addr :: "string \<Rightarrow> 'w addr" where
  "DNSResolver_Addr service = Static service"

definition APIResolver_Addr :: "(container list \<Rightarrow> container list) \<Rightarrow> 'w docker_client \<Rightarrow> string \<Rightarrow> 'w addr" where
  "APIResolver_Addr shuffle client service = docker_IP shuffle client service"

section \<open>Probes in the world\<close>

record 'e watch =
  wo_change :: redis_change
  wo_limit :: ratelimit
  wo_bans :: fail2ban
  wo_v4 :: external
  wo_v6 :: external
  wo_env :: 'e

definition on_env :: "('e \<Rightarrow> 'a \<times> 'e) \<Rightarrow> 'e watch \<Rightarrow> 'a \<times> 'e watch" where
  "on_env f w = (case f (wo_env w) of (a, e) \<Rightarrow> (a, w\<lparr>wo_env := e\<rparr>))"

definition env_probe :: "string \<Rightarrow> ('e \<Rightarrow> result \<times> 'e) \<Rightarrow> 'e watch probe" where
  "env_probe name run =
     \<lparr>pb_Name = name, pb_Run = (\<lambda>w. case on_env run w of (r, w') \<Rightarrow> (Inr r, w'))\<rparr>"

text \<open>A probe with a memory: read, run, and written back.\<close>

definition memory_probe ::
  "string \<Rightarrow> ('e watch \<Rightarrow> 'p) \<Rightarrow> ('p \<Rightarrow> 'e watch \<Rightarrow> 'e watch) \<Rightarrow> ('p \<Rightarrow> 'e \<Rightarrow> result \<times> 'p \<times> 'e) \<Rightarrow> 'e watch probe" where
  "memory_probe name get put run =
     \<lparr>pb_Name = name, pb_Run = (\<lambda>w. case run (get w) (wo_env w) of (r, p, e) \<Rightarrow> (Inr r, put p (w\<lparr>wo_env := e\<rparr>)))\<rparr>"

section \<open>Deps\<close>

text \<open>The libraries and servers the probes meet: the network, HTTP over IPv4 and IPv6 and over
  rspamd's socket, DNS, the spool, the decoders of encoding/json, clocks and formats.\<close>

record 'e outside =
  os_net :: "'e net"
  os_http :: "'e http"
  os_http4 :: "'e http"
  os_http6 :: "'e http"
  os_rspamd :: "'e http"
  os_dns :: "'e dns_client"
  os_now :: "'e \<Rightarrow> int"
  os_rfc3339 :: "int \<Rightarrow> string"
  os_duration :: "int \<Rightarrow> string"
  os_seconds :: "int \<Rightarrow> string"
  os_live :: "'e \<Rightarrow> nat \<Rightarrow> error option"
  os_stat :: "string \<Rightarrow> 'e \<Rightarrow> stat"
  os_spool :: "string \<Rightarrow> 'e \<Rightarrow> spool option"
  os_relay_json :: "string \<Rightarrow> (string \<times> string) option"
  os_score_json :: "string \<Rightarrow> rat res"
  os_qid_json :: "string \<Rightarrow> string option"
  os_indent_json :: "string \<Rightarrow> string option"

record 'e check_deps =
  cd_Config :: "config option"
  cd_Resolver :: "(string \<Rightarrow> 'e addr) option"
  cd_Store :: "'e reader"
  cd_StorePing :: "'e \<Rightarrow> error option \<times> 'e"
  cd_LocalStore :: "('e \<Rightarrow> error option \<times> 'e) option"
  cd_AppDB :: "'e sqldb option"
  cd_RootDB :: "'e sqldb option"
  cd_outside :: "'e outside"

section \<open>The service names\<close>

definition svcNginx :: string where "svcNginx = ''nginx-mailcow''"
definition svcUnbound :: string where "svcUnbound = ''unbound-mailcow''"
definition svcRedis :: string where "svcRedis = ''redis-mailcow''"
definition svcMySQL :: string where "svcMySQL = ''mysql-mailcow''"
definition svcSOGo :: string where "svcSOGo = ''sogo-mailcow''"
definition svcPostfix :: string where "svcPostfix = ''postfix-mailcow''"
definition svcPostfixTLSPol :: string where "svcPostfixTLSPol = ''postfix-tlspol-mailcow''"
definition svcClamd :: string where "svcClamd = ''clamd-mailcow''"
definition svcDovecot :: string where "svcDovecot = ''dovecot-mailcow''"
definition svcPHPFPM :: string where "svcPHPFPM = ''php-fpm-mailcow''"
definition svcRspamd :: string where "svcRspamd = ''rspamd-mailcow''"
definition svcOlefy :: string where "svcOlefy = ''olefy-mailcow''"

definition rspamdSocket :: string where "rspamdSocket = ''/var/lib/rspamd/rspamd.sock''"
definition tableCountQuery :: string where "tableCountQuery = ''SELECT COUNT(*) FROM information_schema.tables''"

section \<open>The probes Build constructs\<close>

definition tcp_probe :: "'e outside \<Rightarrow> 'e tcp \<Rightarrow> 'e watch probe" where
  "tcp_probe os p = env_probe (tc_name p) (tcp_run (os_net os) p)"

definition smtp_probe :: "'e outside \<Rightarrow> 'e smtp \<Rightarrow> 'e watch probe" where
  "smtp_probe os p = env_probe (sm_name p) (smtp_run (os_rfc3339 os) (os_now os) (os_net os) p)"

definition imap_probe :: "'e outside \<Rightarrow> 'e imap \<Rightarrow> 'e watch probe" where
  "imap_probe os p = env_probe (im_name p) (imap_run (os_rfc3339 os) (os_now os) (os_net os) p)"

definition http_probe_of :: "'e outside \<Rightarrow> 'e http_probe \<Rightarrow> 'e watch probe" where
  "http_probe_of os p = env_probe (hp_name p) (http_run (os_http os) p)"

definition mailq_probe :: "'e outside \<Rightarrow> mailq \<Rightarrow> 'e watch probe" where
  "mailq_probe os p =
     env_probe (mq_name p) (\<lambda>e. (mailq_run (os_live os e) (os_stat os (mq_dir p) e) (os_spool os (mq_dir p) e) p, e))"

text \<open>guidFunc.\<close>

definition guidFunc :: "'e sqldb option \<Rightarrow> 'e \<Rightarrow> string res \<times> 'e" where
  "guidFunc db e = (case db of None \<Rightarrow> (Inl ''no database handle configured'', e) | Some db \<Rightarrow> GUID db e)"

definition joinNonEmpty :: "string \<Rightarrow> string list \<Rightarrow> string" where
  "joinNonEmpty sep parts =
     (case filter (\<lambda>part. part \<noteq> []) parts of
        [] \<Rightarrow> []
      | first # rest \<Rightarrow> foldl (\<lambda>out part. out @ sep @ part) first rest)"

section \<open>Build\<close>

definition make_check ::
  "string \<Rightarrow> string \<Rightarrow> string \<Rightarrow> int \<Rightarrow> interval \<Rightarrow> int \<Rightarrow> 'w probe list \<Rightarrow> 'w live_check" where
  "make_check name service event threshold window dead probes =
     \<lparr>ck_Name = name, ck_Service = service, ck_Event = event, ck_Threshold = threshold, ck_Interval = window,
      ck_DeadDelay = dead, ck_transcript = [], lc_Probes = probes, lc_Bans = None, lc_details = None\<rparr>"

definition localRedis :: "'e check_deps \<Rightarrow> 'e \<Rightarrow> error option \<times> 'e" where
  "localRedis d = (case cd_LocalStore d of None \<Rightarrow> cd_StorePing d | Some ping \<Rightarrow> ping)"

text \<open>The twenty checks, in the order the shell started them: the infrastructure, the mail services, and
  the rest.\<close>

definition infrastructure_checks :: "'e check_deps \<Rightarrow> config \<Rightarrow> (string \<Rightarrow> 'e addr) \<Rightarrow> 'e watch live_check list" where
  "infrastructure_checks d cfg addr_at =
     (let os = cd_outside d; window = Intervals (cf_CheckInterval cfg) in
     [make_check ''nginx'' ''Nginx'' svcNginx (sp_Threshold (cc_Nginx (cf_Checks cfg))) (wi_Standard window) second
        [http_probe_of os (new_http ''http-8081'' (addr_at svcNginx) 8081 ''/'')],
      make_check ''external'' ''External checks'' ''external_checks'' (sp_Threshold (cc_External (cf_Checks cfg))) (wi_External window) minute
        [],
      make_check ''mysql-repl'' ''MySQL/MariaDB replication'' ''mysql_repl_checks'' (sp_Threshold (cc_MySQLRepl (cf_Checks cfg))) (wi_Standard window) minute
        [env_probe ''replica-status'' (replication_run (cd_RootDB d) ''replica-status'')],
      make_check ''mysql'' ''MySQL/MariaDB'' svcMySQL (sp_Threshold (cc_MySQL (cf_Checks cfg))) (wi_Standard window) second
        [env_probe ''connect'' (mysql_run (cd_AppDB d) (new_mysql_ping ''connect'')),
         env_probe ''table-count'' (mysql_run (cd_AppDB d) (new_mysql_query ''table-count'' tableCountQuery))],
      make_check ''redis'' ''Redis'' svcRedis (sp_Threshold (cc_Redis (cf_Checks cfg))) (wi_Standard window) second
        [env_probe ''ping'' (redis_ping_run (localRedis d) ''ping'')],
      make_check ''php-fpm'' ''PHP-FPM'' svcPHPFPM (sp_Threshold (cc_PHPFPM (cf_Checks cfg))) (wi_Standard window) second
        [tcp_probe os (new_tcp ''fpm-9001'' (addr_at svcPHPFPM) 9001 no_options),
         tcp_probe os (new_tcp ''fpm-9002'' (addr_at svcPHPFPM) 9002 no_options)],
      make_check ''sogo'' ''SOGo'' svcSOGo (sp_Threshold (cc_SOGo (cf_Checks cfg))) (wi_Standard window) second
        [http_probe_of os (new_http ''http-20000'' (addr_at svcSOGo) 20000 ''/SOGo.index/'')],
      make_check ''unbound'' ''Unbound'' svcUnbound (sp_Threshold (cc_Unbound (cf_Checks cfg))) (wi_Standard window) second
        [env_probe ''lookup'' (dns_run (os_seconds os) (os_now os) (os_dns os)
           (new_dns (os_dns os) ''lookup'' (addr_at svcUnbound) DNSPort ''stackoverflow.com'')),
         Cost 1 (env_probe ''dnssec'' (dnssec_run (os_dns os)
           (new_dnssec (os_dns os) ''dnssec'' (addr_at svcUnbound) DNSPort ''com'')))],
      make_check ''clamd'' ''Clamd'' svcClamd (sp_Threshold (cc_Clamd (cf_Checks cfg))) (wi_Clamd window) second
        [tcp_probe os (new_clamd ''ping'' (addr_at svcClamd))]])"

definition mail_checks :: "'e check_deps \<Rightarrow> config \<Rightarrow> (string \<Rightarrow> 'e addr) \<Rightarrow> 'e watch live_check list" where
  "mail_checks d cfg addr_at =
     (let os = cd_outside d; window = Intervals (cf_CheckInterval cfg); hostname = mc_Hostname (cf_Mailcow cfg) in
     [make_check ''postfix'' ''Postfix'' svcPostfix (sp_Threshold (cc_Postfix (cf_Checks cfg))) (wi_Standard window) second
        [smtp_probe os (new_smtp_probe ''transaction'' (addr_at svcPostfix) 589 (plain_smtp\<lparr>so_HELO := hostname,
           so_From := ''watchdog@invalid'', so_Commands := [\<lparr>cm_Send = ''RCPT TO:watchdog@localhost'', cm_Expect = ''250''\<rparr>,
             \<lparr>cm_Send = ''DATA'', cm_Expect = []\<rparr>, \<lparr>cm_Send = ''.'', cm_Expect = []\<rparr>]\<rparr>)),
         smtp_probe os (new_smtp_probe ''starttls'' (addr_at svcPostfix) 589
           (plain_smtp\<lparr>so_HELO := hostname, so_StartTLS := True\<rparr>))],
      make_check ''mailq'' ''Mail queue'' ''mail_queue_status'' (sp_Threshold (cc_Mailq (cf_Checks cfg))) (wi_Standard window) minute
        [Cost 1 (mailq_probe os (new_mailq ''deferred'' (cf_MailqDir cfg) (cc_MailqCritical (cf_Checks cfg))))],
      make_check ''postfix-tlspol'' ''Postfix TLS Policy companion'' svcPostfixTLSPol (sp_Threshold (cc_PostfixTLSPo (cf_Checks cfg))) (wi_Standard window) second
        [tcp_probe os (new_tcp ''tlspol-8642'' (addr_at svcPostfixTLSPol) 8642 no_options)],
      make_check ''dovecot'' ''Dovecot'' svcDovecot (sp_Threshold (cc_Dovecot (cf_Checks cfg))) (wi_Standard window) second
        [smtp_probe os (new_smtp_probe ''lmtp-24'' (addr_at svcDovecot) 24 (plain_smtp\<lparr>so_LMTP := True, so_HELO := hostname,
           so_From := ''watchdog@invalid'',
           so_Commands := [\<lparr>cm_Send = ''RCPT TO:<watchdog@invalid>'', cm_Expect = ''User doesn'' @ CHR 0x27 # ''t exist''\<rparr>]\<rparr>)),
         imap_probe os (new_imap ''imaps-993'' (addr_at svcDovecot) 993 (plain_imap\<lparr>io_TLS := True, io_Expect := ''OK ''\<rparr>)),
         imap_probe os (new_imap ''imap-143'' (addr_at svcDovecot) 143 (plain_imap\<lparr>io_Expect := ''OK ''\<rparr>)),
         tcp_probe os (new_tcp ''replication-10001'' (addr_at svcDovecot) 10001 (no_options\<lparr>to_Expect := ''VERSION''\<rparr>)),
         tcp_probe os (new_tcp ''managesieve-4190'' (addr_at svcDovecot) 4190 (no_options\<lparr>to_Expect := ''Dovecot ready''\<rparr>))]])"

definition remaining_checks :: "'e check_deps \<Rightarrow> config \<Rightarrow> (string \<Rightarrow> 'e addr) \<Rightarrow> 'e watch live_check list" where
  "remaining_checks d cfg addr_at =
     (let os = cd_outside d; window = Intervals (cf_CheckInterval cfg); hostname = mc_Hostname (cf_Mailcow cfg) in
     [make_check ''dovecot-repl'' ''Dovecot replication'' ''dovecot_repl_checks'' (sp_Threshold (cc_DovecotRepl (cf_Checks cfg))) (wi_Standard window) minute
        [Cost 1 (env_probe ''repl-health'' (redis_flag_run (cd_Store d)
           (new_redis_flag ''repl-health'' ''DOVECOT_REPL_HEALTH'' ''1'')))],
      make_check ''rspamd'' ''Rspamd'' svcRspamd (sp_Threshold (cc_Rspamd (cf_Checks cfg))) (wi_Standard window) second
        [Cost 1 (env_probe ''settings'' (rspamd_run (os_score_json os) (os_rspamd os)
           (new_rspamd ''settings'' rspamdSocket))),
         Cost 1 (env_probe ''milter'' (milter_run (os_net os) (os_duration os)
           (new_milter ''milter'' (addr_at svcRspamd) 9900 DefaultTimeout)))],
      make_check ''ratelimit'' ''Ratelimit'' ''ratelimit'' (sp_Threshold (cc_Ratelimit (cf_Checks cfg))) (wi_Standard window) second
        [],
      make_check ''fail2ban'' ''Fail2ban'' ''fail2ban'' (sp_Threshold (cc_Fail2ban (cf_Checks cfg))) (wi_Standard window) second
        [],
      make_check ''cert'' ''Primary certificate expiry check'' ''certcheck'' CertThreshold (wi_Cert window) (5 * minute)
        [smtp_probe os (new_smtp_probe ''postfix-cert'' (addr_at svcPostfix) 589 (plain_smtp\<lparr>so_HELO := hostname, so_StartTLS := True,
           so_MinCertDays := CertThreshold\<rparr>)),
         imap_probe os (new_imap ''dovecot-cert'' (addr_at svcDovecot) 993
           (plain_imap\<lparr>io_TLS := True, io_MinCertDays := CertThreshold\<rparr>))],
      make_check ''olefy'' ''Olefy'' svcOlefy (sp_Threshold (cc_Olefy (cf_Checks cfg))) (wi_Standard window) second
        [tcp_probe os (new_tcp ''olefy-10055'' (addr_at svcOlefy) 10055 (no_options\<lparr>to_Send := ''PING'' @ [CHR 0x0A]\<rparr>))],
      make_check ''acme'' ''ACME'' ''acme-mailcow'' (sp_Threshold (cc_ACME (cf_Checks cfg))) (wi_Standard window) second
        [Cost 1 (memory_probe ''fail-time'' wo_change (\<lambda>p. wo_change_update (\<lambda>_. p)) (redis_change_run (cd_Store d)))]])"

definition described_checks :: "'e check_deps \<Rightarrow> config \<Rightarrow> (string \<Rightarrow> 'e addr) \<Rightarrow> 'e watch live_check list" where
  "described_checks d cfg addr_at =
     infrastructure_checks d cfg addr_at @ mail_checks d cfg addr_at @ remaining_checks d cfg addr_at"

definition attach :: "'e check_deps \<Rightarrow> 'e watch live_check \<Rightarrow> 'e watch live_check" where
  "attach d c =
     (let os = cd_outside d; guid = guidFunc (cd_AppDB d) in
      if ck_Name c = ''ratelimit''
      then c\<lparr>lc_Probes := [Cost 1 (memory_probe ''rl-log'' wo_limit (\<lambda>p. wo_limit_update (\<lambda>_. p))
               (ratelimit_run (os_qid_json os) (cd_Store d)))],
             lc_details := Some (on_env (ratelimit_details (os_indent_json os) (cd_Store d)))\<rparr>
      else if ck_Name c = ''external''
      then c\<lparr>lc_Probes :=
               [Cost 1 (memory_probe ''relay-ipv4'' wo_v4 (\<lambda>p. wo_v4_update (\<lambda>_. p))
                  (external_run (os_relay_json os) (os_http4 os) guid)),
                Cost 1 (memory_probe ''relay-ipv6'' wo_v6 (\<lambda>p. wo_v6_update (\<lambda>_. p))
                  (external_run (os_relay_json os) (os_http6 os) guid))],
             lc_details := Some (\<lambda>w. (joinNonEmpty [CHR 0x0A, CHR 0x0A]
               [external_Details (wo_v4 w), external_Details (wo_v6 w)], w))\<rparr>
      else if ck_Name c = ''fail2ban''
      then c\<lparr>lc_Probes := [Cost 1 (memory_probe ''active-bans'' wo_bans (\<lambda>p. wo_bans_update (\<lambda>_. p))
               (fail2ban_run (cd_Store d)))],
             lc_Bans := Some (\<lambda>w. fail2ban_Fresh (wo_bans w))\<rparr>
      else c)"

text \<open>attachStatefulProbes, and what its probes remember at the start.\<close>

definition attachStatefulProbes :: "'e check_deps \<Rightarrow> 'e watch live_check list \<Rightarrow> 'e watch live_check list" where
  "attachStatefulProbes d all = map (attach d) all"

definition initial_watch :: "'e \<Rightarrow> 'e watch" where
  "initial_watch e =
     \<lparr>wo_change = redis_change_new ''fail-time'' ''ACME_FAIL_TIME'', wo_limit = ratelimit_new ''rl-log'',
      wo_bans = fail2ban_new ''active-bans'', wo_v4 = new_external ''relay-ipv4'' ''tcp4'' ExternalEndpoint,
      wo_v6 = new_external ''relay-ipv6'' ''tcp6'' ExternalEndpoint, wo_env = e\<rparr>"

fun select_enabled :: "(string \<times> check_spec) list \<Rightarrow> 'w live_check list \<Rightarrow> 'w live_check list res" where
  "select_enabled enabled [] = Inr []"
| "select_enabled enabled (c # cs) =
     (case map_of enabled (ck_Name c) of
        None \<Rightarrow> Inl (''check '' @ quote (ck_Name c) @ '' has no configuration entry'')
      | Some spec \<Rightarrow>
          (if \<not> sp_Enabled spec then select_enabled enabled cs
           else if lc_Probes c = [] then Inl (''check '' @ quote (ck_Name c) @ '' is enabled but has no probes'')
           else map_res (\<lambda>live. c # live) (select_enabled enabled cs)))"

definition Build :: "'e check_deps \<Rightarrow> 'e watch live_check list res" where
  "Build d =
     (case cd_Config d of
        None \<Rightarrow> Inl ''no configuration supplied''
      | Some cfg \<Rightarrow>
          (case cd_Resolver d of
             None \<Rightarrow> Inl ''no resolver supplied''
           | Some addr_at \<Rightarrow>
               select_enabled (checks_all (cf_Checks cfg)) (attachStatefulProbes d (described_checks d cfg addr_at))))"

section \<open>Every probe is priced\<close>

lemma priced_env_probe: "(\<And>e. graded (fst (run e))) \<Longrightarrow> priced (env_probe n run) 3"
proof -
  assume g: "\<And>e. graded (fst (run e))"
  have "0 \<le> rs_Points r \<and> rs_Points r \<le> 3 \<and> (rs_Points r = 0 \<longleftrightarrow> rs_Status r = StatusOK)" if "graded r" for r
    using that graded_cases [OF that] by (auto simp: graded_def)
  then show ?thesis using g by (auto simp: priced_def env_probe_def on_env_def split: prod.splits) (metis fst_conv)+
qed

lemma priced_memory_probe: "(\<And>p e. graded (fst (run p e))) \<Longrightarrow> priced (memory_probe n get put run) 3"
proof -
  assume g: "\<And>p e. graded (fst (run p e))"
  have "0 \<le> rs_Points r \<and> rs_Points r \<le> 3 \<and> (rs_Points r = 0 \<longleftrightarrow> rs_Status r = StatusOK)" if "graded r" for r
    using that graded_cases [OF that] by (auto simp: graded_def)
  then show ?thesis using g by (auto simp: priced_def memory_probe_def split: prod.splits) (metis fst_conv)+
qed

lemma priced_cost_one: "priced p 3 \<Longrightarrow> priced (Cost 1 p) 3"
  by (rule priced_Cost) simp_all

lemma priced_probes [simp]:
  "priced (tcp_probe os tp) 3" "priced (smtp_probe os sp) 3" "priced (imap_probe os ip) 3" "priced (http_probe_of os hp) 3"
  "priced (Cost 1 (mailq_probe os mp)) 3" "priced (env_probe n (replication_run db rn)) 3" "priced (env_probe n (mysql_run db q)) 3"
  "priced (env_probe n (redis_ping_run ping pn)) 3" "priced (env_probe n (dns_run sec now c dp)) 3"
  "priced (Cost 1 (env_probe n (dnssec_run c xp))) 3" "priced (Cost 1 (env_probe n (redis_flag_run rd fp))) 3"
  "priced (Cost 1 (env_probe n (rspamd_run dec ht rp))) 3" "priced (Cost 1 (env_probe n (milter_run net dur lp))) 3"
  by (simp_all add: tcp_probe_def smtp_probe_def imap_probe_def http_probe_of_def mailq_probe_def priced_env_probe priced_cost_one)

lemma priced_memory_probes [simp]:
  "priced (Cost 1 (memory_probe n gc pc (redis_change_run rd))) 3"
  "priced (Cost 1 (memory_probe n gl pl (ratelimit_run qid rd))) 3"
  "priced (Cost 1 (memory_probe n gf pf (fail2ban_run rd))) 3"
  "priced (Cost 1 (memory_probe n gx px (external_run dec http guid))) 3"
  by (simp_all add: priced_memory_probe priced_cost_one)

section \<open>The twenty checks\<close>

definition check_names :: "string list" where
  "check_names =
     [''nginx'', ''external'', ''mysql-repl'', ''mysql'', ''redis'', ''php-fpm'', ''sogo'', ''unbound'', ''clamd'', ''postfix'',
      ''mailq'', ''postfix-tlspol'', ''dovecot'', ''dovecot-repl'', ''rspamd'', ''ratelimit'', ''fail2ban'', ''cert'', ''olefy'',
      ''acme'']"

definition notify_events :: "string list" where
  "notify_events =
     [''ratelimit'', ''mail_queue_status'', ''external_checks'', ''mysql_repl_checks'', ''dovecot_repl_checks'', ''certcheck'',
      ''acme-mailcow'', ''fail2ban'']"

text \<open>What Build relies on in each description, and what the supervisor relies on in each check.\<close>

definition described_ok :: "config \<Rightarrow> 'w live_check \<Rightarrow> bool" where
  "described_ok cfg c \<longleftrightarrow>
     lc_Probes c \<noteq> [] \<and> length (lc_Probes c) \<le> 5 \<and> list_all (\<lambda>p. priced p 3) (lc_Probes c) \<and> ck_transcript c = [] \<and>
     (restarts_container c \<or> ck_Event c \<in> set notify_events) \<and>
     (ck_DeadDelay c \<in> {second, minute, 5 * minute}) \<and>
     (ck_Interval c \<in> {wi_Standard (Intervals (cf_CheckInterval cfg)), wi_Clamd (Intervals (cf_CheckInterval cfg)),
        wi_External (Intervals (cf_CheckInterval cfg)), wi_Cert (Intervals (cf_CheckInterval cfg))}) \<and>
     (case map_of (checks_all (cf_Checks cfg)) (ck_Name c) of None \<Rightarrow> False
      | Some spec \<Rightarrow> ck_Threshold c = (if ck_Name c = ''cert'' then CertThreshold else sp_Threshold spec))"

lemma make_check_simps [simp]:
  "ck_Name (make_check n s e t i dd ps) = n" "ck_Event (make_check n s e t i dd ps) = e"
  "ck_Threshold (make_check n s e t i dd ps) = t" "ck_Interval (make_check n s e t i dd ps) = i"
  "ck_DeadDelay (make_check n s e t i dd ps) = dd" "ck_transcript (make_check n s e t i dd ps) = []"
  "lc_Probes (make_check n s e t i dd ps) = ps"
  by (simp_all add: make_check_def)

lemma attach_fields [simp]:
  "ck_Name (attach d c) = ck_Name c" "ck_Event (attach d c) = ck_Event c" "ck_Threshold (attach d c) = ck_Threshold c"
  "ck_Interval (attach d c) = ck_Interval c" "ck_DeadDelay (attach d c) = ck_DeadDelay c" "ck_transcript (attach d c) = ck_transcript c"
  by (simp_all add: attach_def Let_def)

lemma attach_probes:
  "lc_Probes (attach d c) = (if ck_Name c \<in> {''ratelimit'', ''external'', ''fail2ban''} then lc_Probes (attach d c) else lc_Probes c)"
  "ck_Name c \<in> {''ratelimit'', ''external'', ''fail2ban''} \<Longrightarrow>
     lc_Probes (attach d c) \<noteq> [] \<and> length (lc_Probes (attach d c)) \<le> 5 \<and> list_all (\<lambda>p. priced p 3) (lc_Probes (attach d c))"
  by (auto simp: attach_def Let_def)

lemma restarts_container_suffix: "restarts_container c \<longleftrightarrow> has_suffix (ck_Event c) ''-mailcow'' \<and> ck_Event c \<noteq> ''acme-mailcow''"
  by (simp add: restarts_container_def)

lemmas service_names = svcNginx_def svcUnbound_def svcRedis_def svcMySQL_def svcSOGo_def svcPostfix_def svcPostfixTLSPol_def
  svcClamd_def svcDovecot_def svcPHPFPM_def svcRspamd_def svcOlefy_def

lemmas described_defs = described_checks_def infrastructure_checks_def mail_checks_def remaining_checks_def

lemma described_names: "map ck_Name (described_checks d cfg addr_at) = check_names"
  by (simp add: described_defs check_names_def Let_def)

lemma distinct_check_names: "distinct check_names"
  by (simp add: check_names_def)

lemma described_okI:
  assumes "ck_Name c \<in> {''ratelimit'', ''external'', ''fail2ban''} \<or>
      lc_Probes c \<noteq> [] \<and> length (lc_Probes c) \<le> 5 \<and> list_all (\<lambda>p. priced p 3) (lc_Probes c)"
    and "has_suffix (ck_Event c) ''-mailcow'' \<and> ck_Event c \<noteq> ''acme-mailcow'' \<or> ck_Event c \<in> set notify_events"
    and "ck_transcript c = []" "ck_DeadDelay c \<in> {second, minute, 5 * minute}"
    and "ck_Interval c \<in> {wi_Standard (Intervals (cf_CheckInterval cfg)), wi_Clamd (Intervals (cf_CheckInterval cfg)),
        wi_External (Intervals (cf_CheckInterval cfg)), wi_Cert (Intervals (cf_CheckInterval cfg))}"
    and "case map_of (checks_all (cf_Checks cfg)) (ck_Name c) of None \<Rightarrow> False
      | Some spec \<Rightarrow> ck_Threshold c = (if ck_Name c = ''cert'' then CertThreshold else sp_Threshold spec)"
  shows "described_ok cfg (attach d c)"
  using assms attach_probes [where d = d and c = c] unfolding described_ok_def restarts_container_suffix attach_fields
  by (cases "ck_Name c \<in> {''ratelimit'', ''external'', ''fail2ban''}") simp_all

lemma service_suffix [simp]:
  "has_suffix svcNginx ''-mailcow''" "has_suffix svcUnbound ''-mailcow''" "has_suffix svcRedis ''-mailcow''"
  "has_suffix svcMySQL ''-mailcow''" "has_suffix svcSOGo ''-mailcow''" "has_suffix svcPostfix ''-mailcow''"
  "has_suffix svcPostfixTLSPol ''-mailcow''" "has_suffix svcClamd ''-mailcow''" "has_suffix svcDovecot ''-mailcow''"
  "has_suffix svcPHPFPM ''-mailcow''" "has_suffix svcRspamd ''-mailcow''" "has_suffix svcOlefy ''-mailcow''"
  by (simp_all add: service_names has_suffix_def has_prefix_def)

lemma service_not_acme [simp]:
  "svcNginx \<noteq> ''acme-mailcow''" "svcUnbound \<noteq> ''acme-mailcow''" "svcRedis \<noteq> ''acme-mailcow''"
  "svcMySQL \<noteq> ''acme-mailcow''" "svcSOGo \<noteq> ''acme-mailcow''" "svcPostfix \<noteq> ''acme-mailcow''"
  "svcPostfixTLSPol \<noteq> ''acme-mailcow''" "svcClamd \<noteq> ''acme-mailcow''" "svcDovecot \<noteq> ''acme-mailcow''"
  "svcPHPFPM \<noteq> ''acme-mailcow''" "svcRspamd \<noteq> ''acme-mailcow''" "svcOlefy \<noteq> ''acme-mailcow''"
  by (simp_all add: service_names)

lemma described_all_ok: "list_all (\<lambda>c. described_ok cfg (attach d c)) (described_checks d cfg addr_at)"
  unfolding described_defs Let_def append.simps list.pred_inject
  by (intro conjI, (rule described_okI; simp add: checks_all_def notify_events_def del: second_def minute_def)+) simp

lemma select_enabled_ok:
  assumes "list_all (\<lambda>c. map_of enabled (ck_Name c) \<noteq> None \<and> lc_Probes c \<noteq> []) cs"
  shows "select_enabled enabled cs = Inr (filter (\<lambda>c. sp_Enabled (the (map_of enabled (ck_Name c)))) cs)"
  using assms by (induction cs) (auto simp: map_res_def)

lemma Build_eq:
  assumes "cd_Config d = Some cfg" "cd_Resolver d = Some addr"
  shows "Build d = Inr (filter (\<lambda>c. sp_Enabled (the (map_of (checks_all (cf_Checks cfg)) (ck_Name c))))
    (map (attach d) (described_checks d cfg addr)))"
proof -
  have "list_all (\<lambda>c. map_of (checks_all (cf_Checks cfg)) (ck_Name c) \<noteq> None \<and> lc_Probes c \<noteq> [])
      (map (attach d) (described_checks d cfg addr))"
    using described_all_ok [of cfg d addr]
    by (auto simp: list_all_iff described_ok_def split: option.splits)
  from select_enabled_ok [OF this] show ?thesis
    using assms by (simp add: Build_def attachStatefulProbes_def)
qed

lemma Build_described_ok:
  assumes "cd_Config d = Some cfg" "Build d = Inr checks"
  shows "list_all (described_ok cfg) checks"
proof -
  obtain addr where a: "cd_Resolver d = Some addr" using assms by (auto simp: Build_def split: option.splits)
  from Build_eq [OF assms(1) a] assms(2) described_all_ok [of cfg d addr] show ?thesis
    by (auto simp: list_all_iff)
qed

lemma Build_names:
  assumes "cd_Config d = Some cfg" "Build d = Inr checks"
  shows "map ck_Name checks = filter (\<lambda>n. sp_Enabled (the (map_of (checks_all (cf_Checks cfg)) n))) check_names"
proof -
  obtain addr where a: "cd_Resolver d = Some addr" using assms by (auto simp: Build_def split: option.splits)
  have "map ck_Name (filter (\<lambda>c. P (ck_Name c)) (map (attach d) cs)) = filter P (map ck_Name cs)" for P cs
    by (induction cs) auto
  from this [of "\<lambda>n. sp_Enabled (the (map_of (checks_all (cf_Checks cfg)) n))" "described_checks d cfg addr"]
  show ?thesis
    using Build_eq [OF assms(1) a] assms(2) by (simp add: described_names [of d cfg addr, symmetric])
qed

section \<open>Windows\<close>

lemma pick_from_base:
  assumes "\<And>n. 0 < n \<Longrightarrow> 0 \<le> rnd n \<and> rnd n < n" "0 < b" "b \<le> max_int64" "0 \<le> j" "j \<le> clamdJitter"
  shows "\<exists>t. interval_pick rnd \<lparr>iv_Min = b, iv_Max = wrap64 (b + j)\<rparr> = Some t \<and> b \<le> t \<and> t \<le> b + j"
proof (cases "b + j \<le> max_int64")
  case True
  then show ?thesis using pick_in_window [OF assms(1), of "\<lparr>iv_Min = b, iv_Max = wrap64 (b + j)\<rparr>"] assms(2-5)
    by (simp add: in64_def clamdJitter_def)
next
  case False
  then have "wrap64 (b + j) = b + j - 2 ^ 64" using assms by (intro wrap64_over) (simp_all add: clamdJitter_def)
  then have "wrap64 (b + j) \<le> b" using assms by (simp add: clamdJitter_def)
  then show ?thesis using assms(4) by (simp add: interval_pick_def)
qed

section \<open>Properties\<close>

text \<open>C14. Build cannot fail on a check: with a configuration and a resolver it returns exactly the enabled
  checks, in the fixed order of the twenty and without a name twice, each with probes that cost
  between zero and three points, zero exactly on OK, with its configured threshold (the
  certificates' own of seven), an empty transcript, and an event that is either a container to
  restart or one of the eight notifications.\<close>

theorem build_selects_enabled_checks:
  assumes "cd_Config d = Some cfg" "cd_Resolver d = Some addr"
  shows "\<exists>checks. Build d = Inr checks \<and>
    map ck_Name checks = filter (\<lambda>n. sp_Enabled (the (map_of (checks_all (cf_Checks cfg)) n))) check_names \<and>
    distinct (map ck_Name checks) \<and>
    list_all (\<lambda>c. lc_Probes c \<noteq> [] \<and> list_all (\<lambda>p. priced p 3) (lc_Probes c) \<and> ck_transcript c = [] \<and>
      ck_Threshold c = (if ck_Name c = ''cert'' then CertThreshold
        else sp_Threshold (the (map_of (checks_all (cf_Checks cfg)) (ck_Name c)))) \<and>
      (restarts_container c \<or> ck_Event c \<in> set notify_events)) checks"
proof -
  obtain checks where b: "Build d = Inr checks" using Build_eq [OF assms] by blast
  from Build_described_ok [OF assms(1) b] have "list_all (\<lambda>c. lc_Probes c \<noteq> [] \<and> list_all (\<lambda>p. priced p 3) (lc_Probes c) \<and>
      ck_transcript c = [] \<and>
      ck_Threshold c = (if ck_Name c = ''cert'' then CertThreshold
        else sp_Threshold (the (map_of (checks_all (cf_Checks cfg)) (ck_Name c)))) \<and>
      (restarts_container c \<or> ck_Event c \<in> set notify_events)) checks"
    by (auto simp: list_all_iff described_ok_def split: option.splits)
  with b Build_names [OF assms(1) b] distinct_check_names show ?thesis by auto
qed

text \<open>An outside that answers nothing, for the examples.\<close>

definition mute_http :: "'w http" where
  "mute_http = \<lparr>ht_request_error = (\<lambda>u. None), ht_Do = (\<lambda>q w. (Inl ''no route to host'', w))\<rparr>"

definition mute_outside :: "'w outside" where
  "mute_outside =
     \<lparr>os_net = \<lparr>ne_dial = (\<lambda>a w. (Some ''no route to host'', w)), ne_handshake = (\<lambda>n w. (Inl ''EOF'', w)),
         ne_write = (\<lambda>s w. (Some ''EOF'', w)), ne_reads = (\<lambda>w. ([], EOF)), ne_lines = (\<lambda>w. ([], ''EOF'')),
         ne_take = (\<lambda>n w. w), ne_close = id\<rparr>,
      os_http = mute_http, os_http4 = mute_http, os_http6 = mute_http, os_rspamd = mute_http,
      os_dns = \<lparr>dn_Fqdn = (\<lambda>n. n @ ''.''), dn_RcodeToString = itoa, dn_Exchange = (\<lambda>p q a w. (Inl ''i/o timeout'', w))\<rparr>,
      os_now = (\<lambda>w. 0), os_rfc3339 = itoa, os_duration = itoa, os_seconds = itoa, os_live = (\<lambda>w k. None),
      os_stat = (\<lambda>p w. NotExist ''no such file''), os_spool = (\<lambda>p w. None), os_relay_json = (\<lambda>b. None),
      os_score_json = (\<lambda>b. Inl ''EOF''), os_qid_json = (\<lambda>b. None), os_indent_json = (\<lambda>b. None)\<rparr>"

definition mute_check_deps :: "config \<Rightarrow> unit check_deps" where
  "mute_check_deps cfg =
     \<lparr>cd_Config = Some cfg, cd_Resolver = Some DNSResolver_Addr,
      cd_Store = \<lparr>rd_Get = (\<lambda>k w. (Inr ([], False), w)), rd_HKeys = (\<lambda>k w. (Inr [], w)), rd_LRange = (\<lambda>k i j w. (Inr [], w))\<rparr>,
      cd_StorePing = (\<lambda>w. (None, w)), cd_LocalStore = None, cd_AppDB = None, cd_RootDB = None, cd_outside = mute_outside\<rparr>"

theorem build_selects_enabled_checks_witness:
  "\<exists>checks. Build (mute_check_deps (fst (load_config plain_golib minimal_env))) = Inr checks \<and> distinct (map ck_Name checks)"
  using build_selects_enabled_checks [of "mute_check_deps (fst (load_config plain_golib minimal_env))"]
  by (auto simp: mute_check_deps_def)

lemma windows_pick:
  assumes "\<And>n. 0 < n \<Longrightarrow> 0 \<le> rnd n \<and> rnd n < n" "in64 base" "b = (if base \<le> 0 then originalInterval else base)"
  shows "(\<exists>t. interval_pick rnd (wi_Standard (Intervals base)) = Some t \<and> b \<le> t \<and> t \<le> b + standardJitter) \<and>
    (\<exists>t. interval_pick rnd (wi_Clamd (Intervals base)) = Some t \<and> b \<le> t \<and> t \<le> b + clamdJitter) \<and>
    (\<exists>t. interval_pick rnd (wi_External (Intervals base)) = Some t \<and> max b originalExternal \<le> t \<and>
       t \<le> max b originalExternal + externalJitter) \<and>
    interval_pick rnd (wi_Cert (Intervals base)) = Some (max b originalCert)"
proof -
  have b: "0 < b" "b \<le> max_int64" using assms(2,3) by (auto simp: originalInterval_def in64_def)
  moreover have "0 < max b originalExternal" "max b originalExternal \<le> max_int64"
    using b by (simp_all add: originalExternal_def max_def)
  ultimately show ?thesis
    using pick_from_base [OF assms(1), of b standardJitter] pick_from_base [OF assms(1), of b clamdJitter]
      pick_from_base [OF assms(1), of "max b originalExternal" externalJitter]
    unfolding Intervals_def Let_def assms(3) [symmetric]
    by (simp add: interval_fixed_def interval_pick_def standardJitter_def clamdJitter_def externalJitter_def)
qed

text \<open>C31. No setting makes the checks spin or panic: for every value of WATCHDOG_CHECK_INTERVAL, those
  near the end of int64 included where the upper bound of a window wraps around, a draw from each
  window succeeds and is at least the configured bound (twenty seconds if it is not positive), half
  an hour for the external checks and five minutes for the certificates, and at most the window's
  jitter above that.\<close>

theorem windows_respect_base:
  assumes "\<And>n. 0 < n \<Longrightarrow> 0 \<le> rnd n \<and> rnd n < n" "in64 base" "b = (if base \<le> 0 then originalInterval else base)"
  shows "(\<exists>t. interval_pick rnd (wi_Standard (Intervals base)) = Some t \<and> b \<le> t \<and> t \<le> b + standardJitter) \<and>
    (\<exists>t. interval_pick rnd (wi_Clamd (Intervals base)) = Some t \<and> b \<le> t \<and> t \<le> b + clamdJitter) \<and>
    (\<exists>t. interval_pick rnd (wi_External (Intervals base)) = Some t \<and> max b originalExternal \<le> t \<and>
       t \<le> max b originalExternal + externalJitter) \<and>
    interval_pick rnd (wi_Cert (Intervals base)) = Some (max b originalCert)"
  by (rule windows_pick [OF assms])

theorem windows_respect_base_witness:
  "\<exists>t. interval_pick (\<lambda>n. n - 1) (wi_Standard (Intervals max_int64)) = Some t \<and> max_int64 \<le> t"
  using windows_respect_base [of "\<lambda>n. n - 1" max_int64 max_int64] by (auto simp: in64_def)

end
