(* ===== verification/Ipv6.thy ===== *)
theory Ipv6
  imports Http_Probes "HOL-Library.Word"
begin

text \<open>
  internal/probe/ipv6.go: the public IPv6 address, asked from a reflector, and whether an interface
  carries an address of the configured network. net.ParseIP and net.ParseCIDR are parameters; what
  is done with their results is here, on 32- and 128-bit words.
\<close>

unbundle bit_operations_syntax

section \<open>Package net\<close>

datatype ip = IP4 "32 word" | IP16 "128 word"

text \<open>To4: an address of four bytes, or the last four of an IPv4-mapped one.\<close>

definition to4 :: "ip \<Rightarrow> 32 word option" where
  "to4 a = (case a of IP4 x \<Rightarrow> Some x | IP16 x \<Rightarrow> if drop_bit 32 x = 0xFFFF then Some (ucast x) else None)"

text \<open>An IPNet as ParseCIDR returns it: the masked address and the length of the mask, which is of the
  address's own size.\<close>

record ipnet =
  in_IP :: ip
  in_Len :: nat

definition mask32 :: "nat \<Rightarrow> 32 word" where
  "mask32 n = push_bit (32 - n) (- 1)"

definition mask128 :: "nat \<Rightarrow> 128 word" where
  "mask128 n = push_bit (128 - n) (- 1)"

text \<open>IPNet.Contains: an IPv4-mapped address or network counts as IPv4, and the two must be of the same
  size; a 128-bit mask on an IPv4-mapped network is used by its last four bytes.\<close>

definition net_contains :: "ipnet \<Rightarrow> ip \<Rightarrow> bool" where
  "net_contains n a =
     (case to4 (in_IP n) of
        Some x \<Rightarrow>
          (case to4 a of
             None \<Rightarrow> False
           | Some y \<Rightarrow>
               (let m = (case in_IP n of IP4 _ \<Rightarrow> mask32 (in_Len n) | IP16 _ \<Rightarrow> ucast (mask128 (in_Len n)))
                in x AND m = y AND m))
      | None \<Rightarrow>
          (case (to4 a, in_IP n, a) of
             (None, IP16 x, IP16 y) \<Rightarrow> x AND mask128 (in_Len n) = y AND mask128 (in_Len n)
           | _ \<Rightarrow> False))"

datatype net_addr = IPNetAddr "ip option" | IPAddrOnly "ip option" | OtherAddr

primrec addrIP :: "net_addr \<Rightarrow> ip option" where
  "addrIP (IPNetAddr a) = a"
| "addrIP (IPAddrOnly a) = a"
| "addrIP OtherAddr = None"

section \<open>IPv6Configured\<close>

definition IPv6Configured ::
  "(string \<Rightarrow> ipnet res) \<Rightarrow> string \<Rightarrow> ('w \<Rightarrow> net_addr list res \<times> 'w) \<Rightarrow> 'w \<Rightarrow> bool res \<times> 'w" where
  "IPv6Configured parse_cidr network addrs w =
     (if trim_space network = [] then (Inr False, w)
      else case parse_cidr (trim_space network) of
        Inl err \<Rightarrow> (Inl (''IPV6_NETWORK '' @ quote network @ '' is not a network in CIDR form: '' @ err), w)
      | Inr subnet \<Rightarrow>
          (case addrs w of
             (Inl err, w') \<Rightarrow> (Inl (''reading the local interface addresses: '' @ err), w')
           | (Inr local, w') \<Rightarrow>
               (Inr (list_ex (\<lambda>addr. case addrIP addr of None \<Rightarrow> False
                  | Some ip \<Rightarrow> to4 ip = None \<and> net_contains subnet ip) local), w')))"

section \<open>IPv6Link\<close>

definition IPv6Sources :: "string list" where
  "IPv6Sources = [''https://ip6.mailcow.email'', ''https://ip6.nevondo.com'']"

definition ipv6Attempts :: nat where "ipv6Attempts = 10"
definition ipv6RetryDelay :: int where "ipv6RetryDelay = 1000000000"

record 'w ipv6_link =
  il_sources :: "string list"
  il_http :: "'w http"
  il_sleep :: "int \<Rightarrow> 'w \<Rightarrow> error option \<times> 'w"
  il_rand :: "'w \<Rightarrow> nat \<Rightarrow> nat"
  il_ParseIP :: "string \<Rightarrow> ip option"

definition new_ipv6_link ::
  "string list \<Rightarrow> 'w http \<Rightarrow> (int \<Rightarrow> 'w \<Rightarrow> error option \<times> 'w) \<Rightarrow> ('w \<Rightarrow> nat \<Rightarrow> nat) \<Rightarrow> (string \<Rightarrow> ip option) \<Rightarrow> 'w ipv6_link" where
  "new_ipv6_link sources http sleep rnd parse =
     \<lparr>il_sources = (if sources = [] then IPv6Sources else sources), il_http = http, il_sleep = sleep, il_rand = rnd,
      il_ParseIP = parse\<rparr>"

definition ask_source :: "'w ipv6_link \<Rightarrow> string \<Rightarrow> 'w \<Rightarrow> string \<times> 'w" where
  "ask_source p source w =
     (if ht_request_error (il_http p) source \<noteq> None then ([], w)
      else case ht_Do (il_http p) \<lparr>rq_Method = ''GET'', rq_URL = source, rq_Header = [], rq_Body = []\<rparr> w of
        (Inl err, w') \<Rightarrow> ([], w')
      | (Inr resp, w') \<Rightarrow>
          (case read_limited 1024 (rp_Body resp) of
             Inl err \<Rightarrow> ([], w')
           | Inr body \<Rightarrow>
               (let candidate = trim_space body in
                case il_ParseIP p candidate of
                  None \<Rightarrow> ([], w')
                | Some ip \<Rightarrow> (if to4 ip = None then candidate else [], w'))))"

text \<open>The attempts that are left, the first one without a pause before it.\<close>

fun address_loop :: "'w ipv6_link \<Rightarrow> bool \<Rightarrow> nat \<Rightarrow> 'w \<Rightarrow> string \<times> 'w" where
  "address_loop p first 0 w = ([], w)"
| "address_loop p first (Suc n) w =
     (case (if first then (None, w) else il_sleep p ipv6RetryDelay w) of
        (Some err, w') \<Rightarrow> ([], w')
      | (None, w') \<Rightarrow>
          (let source = il_sources p ! il_rand p w' (length (il_sources p)) in
           case ask_source p source w' of
             (addr, w'') \<Rightarrow> if addr \<noteq> [] then (addr, w'') else address_loop p False n w''))"

definition Address :: "'w ipv6_link \<Rightarrow> 'w \<Rightarrow> string \<times> 'w" where
  "Address p = address_loop p True ipv6Attempts"

section \<open>Lemmas\<close>

lemma and_mask_eq_iff:
  "(x :: 128 word) AND mask128 n = y AND mask128 n \<longleftrightarrow> uint x div 2 ^ (128 - n) = uint y div 2 ^ (128 - n)"
proof -
  have "x AND mask128 n = push_bit (128 - n) (drop_bit (128 - n) x)" for x :: "128 word"
    by (rule bit_word_eqI) (auto simp: mask128_def bit_simps)
  moreover have "push_bit (128 - n) (drop_bit (128 - n) x) = push_bit (128 - n) (drop_bit (128 - n) y) \<longleftrightarrow>
      drop_bit (128 - n) x = drop_bit (128 - n) y"
  proof -
    have "drop_bit k (push_bit k (drop_bit k z)) = drop_bit k z" for z :: "128 word" and k
      by (rule bit_word_eqI) (auto simp: bit_simps dest: bit_imp_le_length)
    then show ?thesis by metis
  qed
  moreover have "drop_bit (128 - n) x = drop_bit (128 - n) y \<longleftrightarrow> uint x div 2 ^ (128 - n) = uint y div 2 ^ (128 - n)"
  proof -
    have "uint (drop_bit k z) = uint z div 2 ^ k" for z :: "128 word" and k
      by (simp add: unsigned_drop_bit_eq bintr_uint flip: drop_bit_eq_div)
    then show ?thesis by (simp only: word_uint_eq_iff)
  qed
  ultimately show ?thesis by simp
qed

lemma in_block_iff:
  fixes a b :: int and k :: nat
  assumes "a mod 2 ^ k = 0"
  shows "a div 2 ^ k = b div 2 ^ k \<longleftrightarrow> a \<le> b \<and> b < a + 2 ^ k"
proof -
  have a: "a = 2 ^ k * (a div 2 ^ k)" using assms mult_div_mod_eq [of "2 ^ k" a] by simp
  show ?thesis
  proof
    assume "a div 2 ^ k = b div 2 ^ k"
    then have b: "b = a + b mod 2 ^ k" using a mult_div_mod_eq [of "2 ^ k" b] by simp
    have "0 \<le> b mod 2 ^ k" "b mod 2 ^ k < 2 ^ k" by simp_all
    with b show "a \<le> b \<and> b < a + 2 ^ k" by linarith
  next
    assume "a \<le> b \<and> b < a + 2 ^ k"
    then show "a div 2 ^ k = b div 2 ^ k"
      using a int_div_pos_eq [of b "2 ^ k" "a div 2 ^ k" "b - a"] by simp
  qed
qed

lemma ask_source_v6:
  "ask_source p source w = (addr, w') \<Longrightarrow> addr \<noteq> [] \<Longrightarrow> \<exists>ip. il_ParseIP p addr = Some ip \<and> to4 ip = None"
  by (auto simp: ask_source_def Let_def split: if_splits prod.splits sum.splits option.splits)

section \<open>Properties\<close>

text \<open>C30. An installation counts as having IPv6 exactly when one of its interfaces carries an address of
  the network itself: for a network of 128-bit addresses that starts at its masked address, those
  are the addresses from it up to, and not including, the next block of its size, IPv4 addresses
  in either form excluded.\<close>

theorem ipv6_configured_iff_in_block:
  assumes "trim_space network \<noteq> []" "parse_cidr (trim_space network) = Inr \<lparr>in_IP = IP16 x, in_Len = n\<rparr>"
    and "to4 (IP16 x) = None" "uint x mod 2 ^ (128 - n) = 0" "addrs w = (Inr local, w')"
  shows "fst (IPv6Configured parse_cidr network addrs w) =
    Inr (list_ex (\<lambda>a. case addrIP a of
        Some (IP16 y) \<Rightarrow> to4 (IP16 y) = None \<and> uint x \<le> uint y \<and> uint y < uint x + 2 ^ (128 - n)
      | _ \<Rightarrow> False) local)"
proof -
  have "(case addrIP a of None \<Rightarrow> False | Some ip \<Rightarrow> to4 ip = None \<and> net_contains \<lparr>in_IP = IP16 x, in_Len = n\<rparr> ip) \<longleftrightarrow>
     (case addrIP a of Some (IP16 y) \<Rightarrow> to4 (IP16 y) = None \<and> uint x \<le> uint y \<and> uint y < uint x + 2 ^ (128 - n) | _ \<Rightarrow> False)"
    for a
    using assms(3) in_block_iff [OF assms(4)]
    by (auto simp: net_contains_def and_mask_eq_iff to4_def [of "IP4 _"] split: option.splits ip.splits)
  then show ?thesis using assms by (simp add: IPv6Configured_def)
qed

theorem ipv6_configured_iff_in_block_witness:
  "fst (IPv6Configured (\<lambda>s. Inr \<lparr>in_IP = IP16 (0xfd4d6169 * 2 ^ 96), in_Len = 64\<rparr>) ''fd4d:6169::/64''
     (\<lambda>w. (Inr [IPNetAddr (Some (IP4 0x7f000001)), IPNetAddr (Some (IP16 (0xfd4d6169 * 2 ^ 96 + 5)))], w)) ()) = Inr True"
proof -
  have "trim_space ''fd4d:6169::/64'' \<noteq> []" by code_simp
  moreover have "to4 (IP16 (0xfd4d6169 * 2 ^ 96)) = None" "to4 (IP16 (0xfd4d6169 * 2 ^ 96 + 5)) = None"
    by (simp_all add: to4_def drop_bit_eq_div)
  ultimately show ?thesis
    using ipv6_configured_iff_in_block [of "''fd4d:6169::/64''" "\<lambda>s. Inr \<lparr>in_IP = IP16 (0xfd4d6169 * 2 ^ 96), in_Len = 64\<rparr>"
      "0xfd4d6169 * 2 ^ 96" 64 "\<lambda>w. (Inr [IPNetAddr (Some (IP4 0x7f000001)), IPNetAddr (Some (IP16 (0xfd4d6169 * 2 ^ 96 + 5)))], w)" "()"]
    by simp
qed

text \<open>What Address returns is empty or an IPv6 address, an answer that net.ParseIP reads as an
  address without an IPv4 form.\<close>

theorem address_is_ipv6:
  "fst (Address p w) = [] \<or> (\<exists>ip. il_ParseIP p (fst (Address p w)) = Some ip \<and> to4 ip = None)"
proof -
  have "fst (address_loop p first n w) \<noteq> [] \<Longrightarrow>
      \<exists>ip. il_ParseIP p (fst (address_loop p first n w)) = Some ip \<and> to4 ip = None" for first n
  proof (induction n arbitrary: first w)
    case (Suc n)
    then show ?case
      by (auto simp: Let_def split: prod.splits option.splits if_splits dest: ask_source_v6)
  qed simp
  then show ?thesis unfolding Address_def by blast
qed

end
