(* ===== verification/Whois.thy ===== *)
theory Whois
  imports Smtp_Probe
begin

text \<open>
  internal/whois/whois.go: the lookup of a banned address, at IANA's server and at the registry it
  refers to. The connection is that of the network probes.
\<close>

section \<open>bufio and io\<close>

text \<open>io.ReadAll of an io.LimitReader: what could be read and the error that ended it, if the limit
  did not.\<close>

definition read_all :: "nat \<Rightarrow> string list \<times> read_error \<Rightarrow> string \<times> error option" where
  "read_all limit inbox =
     (let bytes = concat (fst inbox) in
      if limit \<le> length bytes then (take limit bytes, None)
      else (bytes, if snd inbox = EOF then None else Some (read_error_text (snd inbox))))"

text \<open>bufio.Scanner with ScanLines: the lines without their ends; an unfinished last line counts unless
  it is empty, and a line that fills the buffer ends the scan.\<close>

definition drop_cr :: "string \<Rightarrow> string" where
  "drop_cr line = (if line \<noteq> [] \<and> last line = CHR 0x0D then butlast line else line)"

definition maxScanTokenSize :: nat where
  "maxScanTokenSize = 65536"

definition scan_lines :: "string \<Rightarrow> string list" where
  "scan_lines s =
     (let parts = split_at (CHR 0x0A) s;
          parts = (if last parts = [] then butlast parts else parts)
      in map drop_cr (takeWhile (\<lambda>l. length l < maxScanTokenSize) parts))"

section \<open>The client\<close>

definition whois_Port :: string where "whois_Port = ''43''"
definition RootServer :: string where "RootServer = ''whois.iana.org''"
definition whois_DefaultTimeout :: int where "whois_DefaultTimeout = 2 * 1000000000"

record whois =
  wh_root :: string
  wh_timeout :: int

text \<open>New; the dialer is the network's, and the timeout reaches it as failures.\<close>

definition new_whois :: "string \<Rightarrow> int \<Rightarrow> whois" where
  "new_whois root timeout =
     \<lparr>wh_root = (if root = [] then RootServer else root),
      wh_timeout = (if timeout \<le> 0 then whois_DefaultTimeout else timeout)\<rparr>"

definition whois_ask :: "'w net \<Rightarrow> string \<Rightarrow> string \<Rightarrow> 'w \<Rightarrow> string res \<times> 'w" where
  "whois_ask net server query w =
     (case ne_dial net (join_host_port server whois_Port) w of
        (Some err, w') \<Rightarrow> (Inl err, w')
      | (None, w') \<Rightarrow>
          (case ne_write net (query @ CRLF_end) w' of
             (Some err, w'') \<Rightarrow> (Inl (''sending the query: '' @ err), ne_close net w'')
           | (None, w'') \<Rightarrow>
               (let (body, err) = read_all 65536 (ne_reads net w'');
                    w''' = ne_close net (ne_take net (length (fst (ne_reads net w''))) w'')
                in case err of
                  Some e \<Rightarrow> if body = [] then (Inl (''reading the answer: '' @ e), w''') else (Inr body, w''')
                | None \<Rightarrow> (Inr body, w'''))))"

text \<open>The server named by a line, empty when it names none.\<close>

definition refer_value :: "string \<Rightarrow> string" where
  "refer_value line =
     (let line = trim_space line in
      if has_prefix (to_lower line) ''refer:'' then trim_space (drop 6 line) else [])"

definition referral :: "string \<Rightarrow> string" where
  "referral answer = (case find (\<lambda>l. refer_value l \<noteq> []) (scan_lines answer) of None \<Rightarrow> [] | Some l \<Rightarrow> refer_value l)"

definition whois_Lookup :: "'w net \<Rightarrow> whois \<Rightarrow> string \<Rightarrow> 'w \<Rightarrow> string res \<times> 'w" where
  "whois_Lookup net c query w =
     (case whois_ask net (wh_root c) query w of
        (Inl err, w') \<Rightarrow> (Inl (''querying '' @ wh_root c @ '': '' @ err), w')
      | (Inr root, w') \<Rightarrow>
          (let server = referral root in
           if server = [] \<or> server = wh_root c then (Inr root, w')
           else case whois_ask net server query w' of
             (Inl err, w'') \<Rightarrow> (Inr root, w'')
           | (Inr detailed, w'') \<Rightarrow> (Inr detailed, w'')))"

section \<open>Lemmas\<close>

context recorded_net begin

lemma ask_query_sends:
  "whois_ask net server query w = (r, w') \<Longrightarrow>
     \<exists>ls. sends w ls w' \<and> set ls \<subseteq> {query} \<and> length ls \<le> 1 \<and> (\<forall>body. r = Inr body \<longrightarrow> ls = [query] \<and> length body \<le> 65536)"
proof -
  assume ask: "whois_ask net server query w = (r, w')"
  obtain e w1 where d: "ne_dial net (join_host_port server whois_Port) w = (e, w1)"
    by (cases "ne_dial net (join_host_port server whois_Port) w")
  have s1: "sent w1 = sent w" using dial_quiet [of "join_host_port server whois_Port" w] d by simp
  obtain e' w2 where wr: "ne_write net (query @ CRLF_end) w1 = (e', w2)"
    by (cases "ne_write net (query @ CRLF_end) w1")
  have s2: "sent w2 = sent w @ [query @ CRLF_end]" using write_sends [of "query @ CRLF_end" w1] wr s1 by simp
  consider "\<exists>x. r = Inl x" "w' = w1" | "\<exists>x. r = Inl x" "sent w' = sent w2"
    | body where "r = Inr body" "sent w' = sent w2" "length body \<le> 65536"
    using ask d wr by (auto simp: whois_ask_def read_all_def Let_def close_quiet take_quiet split: option.splits if_splits prod.splits)
  then show ?thesis
    using s1 s2 by cases (auto simp: sends_def intro: exI [of _ "[]"] exI [of _ "[query]"])
qed

lemma lookup_sends:
  assumes "whois_Lookup net c query w = (r, w')"
  shows "\<exists>ls. sends w ls w' \<and> set ls \<subseteq> {query} \<and> length ls \<le> 2 \<and> (\<forall>body. r = Inr body \<longrightarrow> length body \<le> 65536)"
proof -
  obtain a w1 where a: "whois_ask net (wh_root c) query w = (a, w1)" by (cases "whois_ask net (wh_root c) query w")
  from ask_query_sends [OF a] obtain ls where ls: "sends w ls w1" "set ls \<subseteq> {query}" "length ls \<le> 1"
    "\<forall>body. a = Inr body \<longrightarrow> length body \<le> 65536" by blast
  show ?thesis
  proof (cases "\<exists>body. a = Inr body \<and> referral body \<noteq> [] \<and> referral body \<noteq> wh_root c")
    case False
    with assms a have "w' = w1" "\<forall>body. r = Inr body \<longrightarrow> a = Inr body"
      by (auto simp: whois_Lookup_def Let_def split: sum.splits if_splits)
    with ls show ?thesis by (intro exI [of _ ls]) auto
  next
    case True
    then obtain body where b: "a = Inr body" "referral body \<noteq> []" "referral body \<noteq> wh_root c" by blast
    obtain d w2 where d: "whois_ask net (referral body) query w1 = (d, w2)" by (cases "whois_ask net (referral body) query w1")
    from ask_query_sends [OF d] obtain ms where ms: "sends w1 ms w2" "set ms \<subseteq> {query}" "length ms \<le> 1"
      "\<forall>body. d = Inr body \<longrightarrow> length body \<le> 65536" by blast
    from assms a b d have r: "w' = w2" "r = (case d of Inl _ \<Rightarrow> Inr body | Inr x \<Rightarrow> Inr x)"
      by (auto simp: whois_Lookup_def Let_def split: sum.splits)
    from sends_trans [OF ls(1) ms(1)] ls ms r b(1) show ?thesis
      by (intro exI [of _ "ls @ ms"]) (auto split: sum.splits)
  qed
qed

end

lemma split_at_lines:
  "list_all (\<lambda>l. d \<notin> set l) ls \<Longrightarrow> split_at d (concat (map (\<lambda>l. l @ [d]) ls)) = ls @ [[]]"
proof (induction ls)
  case (Cons l ls)
  have "split_at d (l @ d # s) = l # split_at d s" if "d \<notin> set l" for l s
    using that by (induction l) auto
  with Cons show ?case by simp
qed simp

lemma scan_lines_of_lines:
  "list_all (\<lambda>l. CHR 0x0A \<notin> set l \<and> length l < maxScanTokenSize) ls \<Longrightarrow>
     scan_lines (concat (map (\<lambda>l. l @ [CHR 0x0A]) ls)) = map drop_cr ls"
  by (simp add: scan_lines_def Let_def split_at_lines list_all_iff takeWhile_eq_all_conv [THEN iffD2])

section \<open>Properties\<close>

text \<open>A lookup asks at most two servers, sends each of them the query's line and nothing else, and
  returns at most 64 KiB; once the first server has answered it cannot fail any more, whatever the
  registry it refers to does.\<close>

theorem whois_lookup_bounded:
  "\<exists>ls. snd (snd (whois_Lookup (recording net) c query w)) = snd w @ map (\<lambda>l. l @ CRLF_end) ls \<and>
     list_all (\<lambda>l. l = query) ls \<and> length ls \<le> 2 \<and>
     (case fst (whois_Lookup (recording net) c query w) of
        Inl _ \<Rightarrow> isl (fst (whois_ask (recording net) (wh_root c) query w))
      | Inr body \<Rightarrow> \<not> isl (fst (whois_ask (recording net) (wh_root c) query w)) \<and> length body \<le> 65536)"
proof -
  obtain r w' where l: "whois_Lookup (recording net) c query w = (r, w')"
    by (cases "whois_Lookup (recording net) c query w")
  have "isl r \<longleftrightarrow> isl (fst (whois_ask (recording net) (wh_root c) query w))"
    using l by (auto simp: whois_Lookup_def Let_def split: prod.splits sum.splits if_splits)
  with rec_net.lookup_sends [OF l] show ?thesis
    by (auto simp: l rec_net.sends_def list_all_iff split: sum.splits intro!: exI)
qed

text \<open>The referral is the first line that names a server, in any case of the key and with any blanks
  around it, wherever it stands in the answer and whether its lines end in LF or CRLF; an answer
  without such a line has none.\<close>

theorem referral_is_first_named:
  assumes "list_all (\<lambda>l. CHR 0x0A \<notin> set l \<and> length l < maxScanTokenSize) ls"
  shows "referral (concat (map (\<lambda>l. l @ [CHR 0x0A]) ls)) =
    (case filter (\<lambda>v. v \<noteq> []) (map (\<lambda>l. refer_value (drop_cr l)) ls) of [] \<Rightarrow> [] | v # _ \<Rightarrow> v)"
proof -
  have "(case find (\<lambda>l. f l \<noteq> []) xs of None \<Rightarrow> [] | Some l \<Rightarrow> f l) = (case filter (\<lambda>v. v \<noteq> []) (map f xs) of [] \<Rightarrow> [] | v # _ \<Rightarrow> v)"
    for f :: "string \<Rightarrow> string" and xs
    by (induction xs) auto
  from this [of refer_value "map drop_cr ls"] show ?thesis
    by (simp add: referral_def scan_lines_of_lines [OF assms] comp_def)
qed

theorem referral_is_first_named_witness:
  "referral (concat (map (\<lambda>l. l @ [CHR 0x0A]) [''% IANA'', ''refer:'' @ [CHR 0x0D], ''Refer:   whois.ripe.net '' @ [CHR 0x0D]]))
     = ''whois.ripe.net''"
proof -
  have "refer_value (drop_cr ''% IANA'') = []" "refer_value (drop_cr (''refer:'' @ [CHR 0x0D])) = []"
    "refer_value (drop_cr (''Refer:   whois.ripe.net '' @ [CHR 0x0D])) = ''whois.ripe.net''"
    by code_simp+
  then show ?thesis
    using referral_is_first_named [of "[''% IANA'', ''refer:'' @ [CHR 0x0D], ''Refer:   whois.ripe.net '' @ [CHR 0x0D]]"]
    by (simp add: maxScanTokenSize_def)
qed

end
