(* ===== verification/Logging.thy ===== *)
theory Logging
  imports Config
begin

text \<open>
  internal/logging/logging.go: the level a name stands for and the handler New builds. log/slog is a
  library: a handler is known by its format and its lowest level, and it emits a record whose level
  is not below it.
\<close>

section \<open>Levels\<close>

definition LevelDebug :: int where "LevelDebug = - 4"
definition LevelInfo :: int where "LevelInfo = 0"
definition LevelWarn :: int where "LevelWarn = 4"
definition LevelError :: int where "LevelError = 8"

definition Level :: "string \<Rightarrow> int" where
  "Level name =
     (if name = ''debug'' then LevelDebug else if name = ''warn'' then LevelWarn
      else if name = ''error'' then LevelError else LevelInfo)"

section \<open>New\<close>

datatype log_handler = TextHandler int | JSONHandler int

definition new_logger :: "log_conf \<Rightarrow> log_handler" where
  "new_logger opts =
     (if lg_Format opts = ''text'' then TextHandler (Level (lg_Level opts)) else JSONHandler (Level (lg_Level opts)))"

primrec min_level :: "log_handler \<Rightarrow> int" where
  "min_level (TextHandler l) = l"
| "min_level (JSONHandler l) = l"

definition emits :: "log_handler \<Rightarrow> int \<Rightarrow> bool" where
  "emits h level \<longleftrightarrow> min_level h \<le> level"

section \<open>Property\<close>

text \<open>A configuration that loads never meets the logger's fallbacks: the handler writes the format
  it names, lets through the records of its level and drops those of the level below, and an error is
  never dropped.\<close>

theorem loaded_log_settings_are_honoured:
  assumes "Load gl look = Inr cfg" "h = new_logger (cf_Log cfg)"
  shows "(h = TextHandler (min_level h) \<longleftrightarrow> lg_Format (cf_Log cfg) = ''text'') \<and>
    (h = JSONHandler (min_level h) \<longleftrightarrow> lg_Format (cf_Log cfg) = ''json'') \<and>
    (emits h LevelDebug \<longleftrightarrow> lg_Level (cf_Log cfg) = ''debug'') \<and>
    (emits h LevelInfo \<longleftrightarrow> lg_Level (cf_Log cfg) \<in> {''debug'', ''info''}) \<and>
    (emits h LevelWarn \<longleftrightarrow> lg_Level (cf_Log cfg) \<noteq> ''error'') \<and> emits h LevelError"
proof -
  have "validate gl cfg = None" using assms(1) by (auto simp: Load_def Let_def split: prod.splits option.splits)
  then have "list_all (\<lambda>e. \<not> fst e) (validate_errors gl cfg)" by (simp add: validate_None_iff)
  then have "lg_Level (cf_Log cfg) \<in> {''debug'', ''info'', ''warn'', ''error''}" "lg_Format (cf_Log cfg) \<in> {''json'', ''text''}"
    by (simp_all add: validate_errors_def Let_def)
  then show ?thesis
    using assms(2) by (auto simp: new_logger_def emits_def Level_def LevelDebug_def LevelInfo_def LevelWarn_def LevelError_def)
qed

theorem loaded_log_settings_are_honoured_witness:
  "emits (new_logger (cf_Log (fst (load_config plain_golib minimal_env)))) LevelError"
  using loaded_log_settings_are_honoured [OF minimal_env_loads] by blast

end
