(* ===== verification/Obs.thy ===== *)
theory Obs
  imports Go_Prelude
begin

text \<open>
  internal/obs/obs.go: the endpoints and the server that carries them. The readiness flag is the one
  piece of state they share with startup. net/http is modelled where the source relies on it: the
  mux, whose patterns name a method and an exact path, takes a GET pattern for HEAD as well, answers
  405 when only the method differs and 404 for any other path. The metrics handler is promhttp's, a
  parameter; listening, serving and shutting down are parameters too.
\<close>

section \<open>Readiness\<close>

record readiness =
  re_ready :: bool

definition fresh_readiness :: readiness where
  "fresh_readiness = \<lparr>re_ready = False\<rparr>"

definition SetReady :: "bool \<Rightarrow> readiness \<Rightarrow> readiness" where
  "SetReady ready r = r\<lparr>re_ready := ready\<rparr>"

definition Ready :: "readiness \<Rightarrow> bool" where
  "Ready r = re_ready r"

section \<open>The handlers\<close>

record page =
  pg_ContentType :: string
  pg_Status :: int
  pg_Body :: string

definition writePlain :: "int \<Rightarrow> string \<Rightarrow> page" where
  "writePlain status body =
     \<lparr>pg_ContentType = ''text/plain; charset=utf-8'', pg_Status = status, pg_Body = body @ [CHR 0x0A]\<rparr>"

definition healthz :: "readiness \<Rightarrow> page" where
  "healthz r = writePlain 200 ''ok''"

definition readyz :: "readiness \<Rightarrow> page" where
  "readyz r = (if \<not> Ready r then writePlain 503 ''starting up'' else writePlain 200 ''ready'')"

section \<open>The server\<close>

type_synonym 'r route = "string \<times> string \<times> ('r \<Rightarrow> page)"

record server =
  sv_Addr :: string
  sv_routes :: "readiness route list"

text \<open>New: \<open>gatherer\<close> is the metrics page when there is a registry. No listen address, no server.\<close>

definition obs_new :: "string \<Rightarrow> (readiness \<Rightarrow> page) option \<Rightarrow> server option" where
  "obs_new listen gatherer =
     (if listen = [] then None
      else Some \<lparr>sv_Addr = listen,
        sv_routes = (case gatherer of None \<Rightarrow> [] | Some metrics \<Rightarrow> [(''GET'', ''/metrics'', metrics)])
          @ [(''GET'', ''/healthz'', healthz), (''GET'', ''/readyz'', readyz)]\<rparr>)"

definition route_methods :: "string \<Rightarrow> string set" where
  "route_methods m = (if m = ''GET'' then {''GET'', ''HEAD''} else {m})"

definition serve :: "server \<Rightarrow> string \<Rightarrow> string \<Rightarrow> readiness \<Rightarrow> page" where
  "serve sv verb path r =
     (case find (\<lambda>(m, p, h). p = path \<and> verb \<in> route_methods m) (sv_routes sv) of
        Some (m, p, h) \<Rightarrow> h r
      | None \<Rightarrow>
          (if list_ex (\<lambda>(m, p, h). p = path) (sv_routes sv) then writePlain 405 ''Method Not Allowed''
           else writePlain 404 ''404 page not found''))"

definition server_Addr :: "server option \<Rightarrow> string" where
  "server_Addr s = (case s of None \<Rightarrow> [] | Some sv \<Rightarrow> sv_Addr sv)"

section \<open>Run\<close>

text \<open>Which arm of Run's select fires: Serve has returned, or the context is done.\<close>

datatype serving = ServerClosed | ServeFailed error | ContextDone

record 'w obs_net =
  ob_listen :: "string \<Rightarrow> 'w \<Rightarrow> error option \<times> 'w"
  ob_serving :: "'w \<Rightarrow> serving \<times> 'w"
  ob_shutdown :: "'w \<Rightarrow> error option \<times> 'w"

definition obs_run :: "'w obs_net \<Rightarrow> server option \<Rightarrow> 'w \<Rightarrow> error option \<times> 'w" where
  "obs_run net s w =
     (case s of
        None \<Rightarrow> (None, w)
      | Some sv \<Rightarrow>
          (case ob_listen net (sv_Addr sv) w of
             (Some err, w') \<Rightarrow> (Some (''serving metrics on '' @ sv_Addr sv @ '': '' @ err), w')
           | (None, w') \<Rightarrow>
               (case ob_serving net w' of
                  (ServerClosed, w'') \<Rightarrow> (None, w'')
                | (ServeFailed err, w'') \<Rightarrow> (Some (''serving metrics on '' @ sv_Addr sv @ '': '' @ err), w'')
                | (ContextDone, w'') \<Rightarrow> (None, snd (ob_shutdown net w'')))))"

section \<open>Property\<close>

text \<open>Liveness does not depend on startup and readiness on nothing else: GET and HEAD of /healthz are
  answered 200 in every state, those of /readyz 503 until SetReady(true) and 200 from then on, any
  other method of the two gets 405, and no other path is served besides /metrics, which exists exactly
  when there is a registry.\<close>

theorem endpoints_tell_liveness_from_readiness:
  assumes "obs_new listen gatherer = Some sv" "verb \<in> {''GET'', ''HEAD''}"
  shows "pg_Status (serve sv verb ''/healthz'' r) = 200 \<and>
    (pg_Status (serve sv verb ''/readyz'' r) = (if Ready r then 200 else 503)) \<and>
    pg_Status (serve sv verb ''/readyz'' fresh_readiness) = 503 \<and>
    pg_Status (serve sv verb ''/readyz'' (SetReady ready r)) = (if ready then 200 else 503) \<and>
    (other \<notin> {''GET'', ''HEAD''} \<longrightarrow> pg_Status (serve sv other ''/healthz'' r) = 405 \<and>
       pg_Status (serve sv other ''/readyz'' r) = 405) \<and>
    serve sv verb ''/metrics'' r = (case gatherer of None \<Rightarrow> writePlain 404 ''404 page not found'' | Some page \<Rightarrow> page r) \<and>
    (path \<notin> {''/metrics'', ''/healthz'', ''/readyz''} \<longrightarrow> pg_Status (serve sv m path r) = 404)"
proof -
  have sv: "sv_routes sv = (case gatherer of None \<Rightarrow> [] | Some metrics \<Rightarrow> [(''GET'', ''/metrics'', metrics)])
      @ [(''GET'', ''/healthz'', healthz), (''GET'', ''/readyz'', readyz)]"
    using assms(1) by (auto simp: obs_new_def split: if_splits)
  show ?thesis
    using assms(2) unfolding serve_def sv
    by (cases gatherer; cases "Ready r"; cases ready)
      (auto simp: route_methods_def healthz_def readyz_def writePlain_def Ready_def SetReady_def fresh_readiness_def)
qed

theorem endpoints_tell_liveness_from_readiness_witness:
  "\<exists>sv. obs_new '':9393'' None = Some sv \<and> pg_Status (serve sv ''GET'' ''/readyz'' fresh_readiness) = 503 \<and>
     pg_Status (serve sv ''POST'' ''/healthz'' fresh_readiness) = 405"
proof -
  obtain sv where sv: "obs_new '':9393'' None = Some sv" by (simp add: obs_new_def)
  from endpoints_tell_liveness_from_readiness [OF sv, of "''GET''" fresh_readiness True "''POST''"] sv
  show ?thesis by (simp add: Ready_def fresh_readiness_def)
qed

end
