(* ===== verification/Startup.thy ===== *)
theory Startup
  imports System Webhook Mail Registry Ipv6 Whois Logging Obs
begin

text \<open>
  cmd/watchdog/main.go: from the environment to the running supervisor. A \<open>platform\<close> is what main
  gets from outside the repository: the environment, the drivers it opens connections with, the
  clocks, the resolver and the signal context; \<open>'e\<close> is the state they act on. The supervisor runs on
  \<open>'e watch\<close>, which adds what the stateful probes remember. Log lines are not modelled. Cancelling
  the context shows in \<open>pf_ctx\<close> and ends a pause early; \<open>pf_within\<close> runs something under a deadline.
\<close>

section \<open>The platform\<close>

text \<open>A handle names one open connection, for its Close; opening returns it beside the client.\<close>

type_synonym handle = nat

record 'e platform =
  pf_golib :: golib
  pf_environment :: lookup
  pf_outside :: "'e outside"
  pf_open_db :: "string \<Rightarrow> 'e \<Rightarrow> ('e sqldb \<times> handle) res \<times> 'e"
  pf_redis :: "string \<Rightarrow> string \<Rightarrow> 'e \<Rightarrow> ('e redis_client \<times> handle) \<times> 'e"
  pf_close :: "handle \<Rightarrow> 'e \<Rightarrow> 'e"
  pf_parse_url :: "string \<Rightarrow> url res"
  pf_docker :: "target \<Rightarrow> 'e docker_client"
  pf_dialer :: "'e docker_dialer"
  pf_shuffle :: "container list \<Rightarrow> container list"
  pf_LookupMX :: "string \<Rightarrow> 'e \<Rightarrow> mx list res \<times> 'e"
  pf_transport :: "'e transport"
  pf_request_error :: "string \<Rightarrow> error option"
  pf_post :: "string \<Rightarrow> string \<Rightarrow> 'e \<Rightarrow> (int \<times> string) res \<times> 'e"
  pf_clock :: "'e \<Rightarrow> gotime"
  pf_ctx :: "'e \<Rightarrow> error option"
  pf_pause :: "int \<Rightarrow> 'e \<Rightarrow> error option \<times> 'e"
  pf_within :: "int \<Rightarrow> ('e \<Rightarrow> error option \<times> 'e) \<Rightarrow> 'e \<Rightarrow> error option \<times> 'e"
  pf_rand :: "'e \<Rightarrow> int \<Rightarrow> int"
  pf_randn :: "'e \<Rightarrow> nat \<Rightarrow> nat"
  pf_parse_time :: "string \<Rightarrow> gotime res"
  pf_parse_cidr :: "string \<Rightarrow> ipnet res"
  pf_parse_ip :: "string \<Rightarrow> ip option"
  pf_local_addrs :: "'e \<Rightarrow> net_addr list res \<times> 'e"
  pf_http6 :: "'e http"
  pf_obs_done :: "int \<Rightarrow> 'e \<Rightarrow> error option option \<times> 'e"

definition dependencyPoll :: int where "dependencyPoll = 2 * second"
definition obsShutdownTimeout :: int where "obsShutdownTimeout = 10 * second"

section \<open>Waiting\<close>

definition settle :: "'e platform \<Rightarrow> int \<Rightarrow> 'e \<Rightarrow> error option \<times> 'e" where
  "settle pf delay e = (if delay \<le> 0 then (None, e) else pf_pause pf delay e)"

text \<open>The loop of waitFor may never end; then its value is None.\<close>

partial_function (option) waitFor ::
  "'e platform \<Rightarrow> ('e \<Rightarrow> error option \<times> 'e) \<Rightarrow> 'e \<Rightarrow> (error option \<times> 'e) option" where
  "waitFor pf ping e =
     (case pf_within pf dependencyPoll ping e of
        (None, e1) \<Rightarrow> Some (None, e1)
      | (Some err, e1) \<Rightarrow>
          (case pf_ctx pf e1 of
             Some c \<Rightarrow> Some (Some c, e1)
           | None \<Rightarrow>
               (case pf_pause pf dependencyPoll e1 of
                  (Some c, e2) \<Rightarrow> Some (Some c, e2)
                | (None, e2) \<Rightarrow> waitFor pf ping e2)))"

definition waitForObs :: "'e platform \<Rightarrow> 'e \<Rightarrow> error option \<times> 'e" where
  "waitForObs pf e =
     (case pf_obs_done pf obsShutdownTimeout e of
        (Some err, e') \<Rightarrow> (err, e')
      | (None, e') \<Rightarrow> (Some ''the observability server did not shut down'', e'))"

section \<open>connect\<close>

record 'e dependencies =
  dy_store :: "'e redis_client"
  dy_localStore :: "'e redis_client"
  dy_appDB :: "'e sqldb"
  dy_rootDB :: "'e sqldb option"
  dy_docker :: "'e docker_client"
  dy_dispatcher :: "'e dispatcher option"

definition rootDB_needed :: "config \<Rightarrow> bool" where
  "rootDB_needed cfg \<longleftrightarrow> sp_Enabled (cc_MySQLRepl (cf_Checks cfg))"

text \<open>closers is the Go slice, appended to after each connection that was opened.\<close>

definition cleanup :: "'e platform \<Rightarrow> handle list \<Rightarrow> 'e \<Rightarrow> 'e" where
  "cleanup pf closers e = fold (pf_close pf) (rev closers) e"

definition open_root :: "'e platform \<Rightarrow> config \<Rightarrow> handle list \<Rightarrow> 'e \<Rightarrow> 'e sqldb option res \<times> handle list \<times> 'e" where
  "open_root pf cfg closers e =
     (if rootDB_needed cfg
      then case pf_open_db pf (RootDSN (cf_DB cfg)) e of
             (Inl err, e') \<Rightarrow> (Inl (''opening the database as root: '' @ err), closers, e')
           | (Inr (rootDB, h), e') \<Rightarrow> (Inr (Some rootDB), closers @ [h], e')
      else (Inr None, closers, e))"

text \<open>Redis and, under REDIS_SLAVEOF, the local instance beside the primary.\<close>

definition replicated :: "config \<Rightarrow> bool" where
  "replicated cfg \<longleftrightarrow> rd_Addr (cf_Redis cfg) \<noteq> rd_LocalAddr (cf_Redis cfg)"

definition open_redis ::
  "'e platform \<Rightarrow> config \<Rightarrow> handle list \<Rightarrow> 'e \<Rightarrow> ('e redis_client \<times> 'e redis_client) \<times> handle list \<times> 'e" where
  "open_redis pf cfg closers e =
     (case pf_redis pf (rd_Addr (cf_Redis cfg)) (rd_Password (cf_Redis cfg)) e of
        ((redis, h), e1) \<Rightarrow>
          (let closers = closers @ [h] in
           if replicated cfg
           then case pf_redis pf (rd_LocalAddr (cf_Redis cfg)) (rd_Password (cf_Redis cfg)) e1 of
                  ((local, h'), e2) \<Rightarrow> ((redis, local), closers @ [h'], e2)
           else ((redis, redis), closers, e1)))"

definition open_docker :: "'e platform \<Rightarrow> config \<Rightarrow> 'e docker_client res" where
  "open_docker pf cfg =
     (case ParseDialect (dk_Dialect (cf_Docker cfg)) of
        (_, Some err) \<Rightarrow> Inl (''DOCKER_API_DIALECT: '' @ err)
      | (dialect, None) \<Rightarrow>
          map_res (\<lambda>s. (pf_docker pf (du_target s))\<lparr>dc_baseURL := du_baseURL s, dc_dialect := du_dialect s,
              dc_project := du_project s, dc_ipv4Network := du_ipv4Network s,
              dc_reach := target_reach (pf_dialer pf) (du_target s)\<rparr>)
            (docker_new (pf_parse_url pf) (dk_BaseURL (cf_Docker cfg)) (mc_ComposeProject (cf_Mailcow cfg))
               (mc_IPv4Network (cf_Mailcow cfg)) dialect))"

definition channels :: "'e platform \<Rightarrow> notify_conf \<Rightarrow> 'e notifier list" where
  "channels pf n =
     new_multi
       ((case new_smtp (nt_From n) (nt_HELO n) (nt_Emails n) 0 (DefaultMXLookup (pf_LookupMX pf)) (pf_clock pf) of
           None \<Rightarrow> [] | Some mail \<Rightarrow> [Some (smtp_send mail (pf_transport pf))])
        @ (case new_webhook (nt_Webhook n) (nt_WebhookBody n) (pf_request_error pf) (pf_post pf) of
             None \<Rightarrow> [] | Some hook \<Rightarrow> [Some (webhook_send hook)]))"

definition open_dispatcher :: "'e platform \<Rightarrow> config \<Rightarrow> 'e redis_client \<Rightarrow> 'e dispatcher option" where
  "open_dispatcher pf cfg redis =
     (let ch = channels pf (cf_Notify cfg) in
      if multi_enabled ch
      then Some (dispatcher_new (Some (multi_send ch)) (Some (redis_reserve redis)) (nt_Subject (cf_Notify cfg)) (pf_clock pf))
      else None)"

text \<open>The result, what is to be closed, and the state; None when a wait never ends.\<close>

definition connect :: "'e platform \<Rightarrow> config \<Rightarrow> 'e \<Rightarrow> ('e dependencies res \<times> handle list \<times> 'e) option" where
  "connect pf cfg e =
     (case pf_open_db pf (AppDSN (cf_DB cfg)) e of
        (Inl err, e1) \<Rightarrow> Some (Inl (''opening the mailcow database: '' @ err), [], e1)
      | (Inr (appDB, h), e1) \<Rightarrow>
          (case open_root pf cfg [h] e1 of
             (Inl err, closers, e2) \<Rightarrow> Some (Inl err, closers, e2)
           | (Inr rootDB, closers, e2) \<Rightarrow>
               (case open_redis pf cfg closers e2 of
                  ((redis, local), closers, e3) \<Rightarrow>
                    (case waitFor pf (sq_Ping appDB) e3 of
                       None \<Rightarrow> None
                     | Some (Some err, e4) \<Rightarrow> Some (Inl err, closers, e4)
                     | Some (None, e4) \<Rightarrow>
                         (case waitFor pf (redis_ping redis) e4 of
                            None \<Rightarrow> None
                          | Some (Some err, e5) \<Rightarrow> Some (Inl err, closers, e5)
                          | Some (None, e5) \<Rightarrow>
                              Some (map_res (\<lambda>docker. \<lparr>dy_store = redis, dy_localStore = local, dy_appDB = appDB,
                                  dy_rootDB = rootDB, dy_docker = docker, dy_dispatcher = open_dispatcher pf cfg redis\<rparr>)
                                (open_docker pf cfg), closers, e5))))))"

section \<open>build\<close>

definition checks_from :: "'e platform \<Rightarrow> config \<Rightarrow> 'e dependencies \<Rightarrow> 'e check_deps" where
  "checks_from pf cfg deps =
     \<lparr>cd_Config = Some cfg,
      cd_Resolver = Some (if dk_UseAPI (cf_Docker cfg) then APIResolver_Addr (pf_shuffle pf) (dy_docker deps) else DNSResolver_Addr),
      cd_Store = redis_reader (dy_store deps), cd_StorePing = redis_ping (dy_store deps),
      cd_LocalStore = Some (redis_ping (dy_localStore deps)), cd_AppDB = Some (dy_appDB deps), cd_RootDB = dy_rootDB deps,
      cd_outside = pf_outside pf\<rparr>"

text \<open>The collaborators, acting on the outside part of the supervisor's world.\<close>

definition watch_docker :: "'e docker_api \<Rightarrow> 'e watch docker_api" where
  "watch_docker a = \<lparr>da_Find = (\<lambda>s. on_env (da_Find a s)), da_Restart = (\<lambda>c. on_env (da_Restart a c)),
     da_Running = (\<lambda>c p. on_env (da_Running a c p)), da_Reachable = on_env (da_Reachable a)\<rparr>"

definition watch_store :: "'e log_store \<Rightarrow> 'e watch log_store" where
  "watch_store s = \<lparr>ls_LogMessage = (\<lambda>m. on_env (ls_LogMessage s m)), ls_LogProgress = (\<lambda>p. on_env (ls_LogProgress s p))\<rparr>"

definition watch_dispatcher :: "'e dispatcher \<Rightarrow> 'e watch dispatcher" where
  "watch_dispatcher dp =
     dispatcher_new (map_option (\<lambda>send msg. on_env (send msg)) (dp_notifier dp))
       (map_option (\<lambda>reserve k ttl. on_env (reserve k ttl)) (dp_reserver dp)) (dp_subjectPrefix dp) (dp_now dp \<circ> wo_env)"

definition watch_deps :: "'e platform \<Rightarrow> config \<Rightarrow> 'e dependencies \<Rightarrow> 'e watch deps" where
  "watch_deps pf cfg deps =
     \<lparr>de_docker = Some (watch_docker (client_api (dy_docker deps))),
      de_store = watch_store (redis_log_store (dy_store deps)),
      de_dispatcher = map_option watch_dispatcher (dy_dispatcher deps),
      de_whois = Some (\<lambda>q. on_env (whois_Lookup (os_net (pf_outside pf)) (new_whois [] 0) q)),
      de_now = os_now (pf_outside pf) \<circ> wo_env, de_sleep = (\<lambda>t. on_env (pf_pause pf t)), de_ctx = pf_ctx pf \<circ> wo_env,
      de_rand = pf_rand pf \<circ> wo_env, de_parse_time = pf_parse_time pf, de_notifyBans = nt_OnBan (cf_Notify cfg)\<rparr>"

definition build_watchdog :: "'e platform \<Rightarrow> config \<Rightarrow> 'e dependencies \<Rightarrow> metrics \<Rightarrow> 'e \<Rightarrow> 'e watch sup res option" where
  "build_watchdog pf cfg deps m e =
     (case Build (checks_from pf cfg deps) of
        Inl err \<Rightarrow> Some (Inl (''building the checks: '' @ err))
      | Inr checks \<Rightarrow> supervisor_new checks (Some m) (Some (de_store (watch_deps pf cfg deps))) (initial_watch e))"

section \<open>Before the checks start\<close>

definition ipv6_message :: string where
  "ipv6_message = ''enable_ipv6 is true in docker-compose.yml, but an IPv6 link '' @
     ''could not be established. Please verify your IPv6 connection.''"

definition checkIPv6 :: "'e platform \<Rightarrow> config \<Rightarrow> 'e dispatcher option \<Rightarrow> 'e \<Rightarrow> 'e" where
  "checkIPv6 pf cfg disp e =
     (case IPv6Configured (pf_parse_cidr pf) (mc_IPv6Network (cf_Mailcow cfg)) (pf_local_addrs pf) e of
        (Inl err, e1) \<Rightarrow> e1
      | (Inr configured, e1) \<Rightarrow>
          (if \<not> configured then e1
           else case Address (new_ipv6_link [] (pf_http6 pf) (pf_pause pf) (pf_randn pf) (pf_parse_ip pf)) e1 of
             (address, e2) \<Rightarrow>
               (if address \<noteq> [] \<or> pf_ctx pf e2 \<noteq> None then e2
                else case disp of
                  None \<Rightarrow> e2
                | Some dp \<Rightarrow> snd (dispatch dp \<lparr>al_Service = ''ipv6-config'', al_Message = ipv6_message, al_Details = [],
                    al_Throttle = 0\<rparr> e2))))"

definition announceStart :: "'e dispatcher option \<Rightarrow> 'e \<Rightarrow> string \<times> 'e" where
  "announceStart disp e =
     (case disp of
        None \<Rightarrow> (''disabled'', e)
      | Some dp \<Rightarrow>
          (case dispatch dp \<lparr>al_Service = ''watchdog-mailcow'', al_Message = ''Watchdog started monitoring mailcow.'',
               al_Details = [], al_Throttle = 0\<rparr> e of
             (Some err, e') \<Rightarrow> (''failed'', e')
           | (None, e') \<Rightarrow> (''sent'', e')))"

section \<open>run\<close>

text \<open>How far run gets: it has returned, it idles until the context is done (USE_WATCHDOG=n), or it
  supervises, with the connections it will close on the way out.\<close>

datatype 'e outcome =
    Returned "error option" readiness 'e
  | Idling readiness 'e
  | Supervising "'e watch deps" "'e watch sup" "handle list" readiness

definition on_world :: "('e \<Rightarrow> 'e) \<Rightarrow> 'e watch sup \<Rightarrow> 'e watch sup" where
  "on_world f st = set_world ((su_world st)\<lparr>wo_env := f (wo_env (su_world st))\<rparr>) st"

definition announce :: "'e dispatcher option \<Rightarrow> 'e watch sup \<Rightarrow> 'e watch sup" where
  "announce disp st =
     (case announceStart disp (wo_env (su_world st)) of
        (result, e) \<Rightarrow> upd_metrics (observe_notification result) (on_world (\<lambda>_. e) st))"

definition start_up :: "'e platform \<Rightarrow> config \<Rightarrow> string \<Rightarrow> string \<Rightarrow> readiness \<Rightarrow> 'e \<Rightarrow> 'e outcome option" where
  "start_up pf cfg version date r e =
     (case connect pf cfg e of
        None \<Rightarrow> None
      | Some (Inl err, closers, e1) \<Rightarrow> Some (Returned (Some err) r e1)
      | Some (Inr deps, closers, e1) \<Rightarrow>
          map_option (\<lambda>built. case built of
              Inl err \<Rightarrow> Returned (Some err) r (cleanup pf closers e1)
            | Inr st \<Rightarrow>
                (let st = on_world (checkIPv6 pf cfg (dy_dispatcher deps)) st;
                     st = (if nt_OnStart (cf_Notify cfg) then announce (dy_dispatcher deps) st else st)
                 in Supervising (watch_deps pf cfg deps) st closers (SetReady True r)))
            (build_watchdog pf cfg deps (metrics_new version date) e1))"

definition run_watchdog :: "'e platform \<Rightarrow> string \<Rightarrow> string \<Rightarrow> 'e \<Rightarrow> 'e outcome option" where
  "run_watchdog pf version date e =
     (case Load (pf_golib pf) (pf_environment pf) of
        Inl err \<Rightarrow> Some (Returned (Some err) fresh_readiness e)
      | Inr cfg \<Rightarrow>
          (if \<not> cf_Enabled cfg then Some (Idling (SetReady True fresh_readiness) e)
           else case settle pf (cf_SettleDelay cfg) e of
             (Some c, e1) \<Rightarrow> (case waitForObs pf e1 of (err, e2) \<Rightarrow> Some (Returned err fresh_readiness e2))
           | (None, e1) \<Rightarrow> start_up pf cfg version date fresh_readiness e1))"

text \<open>The way out once the context is ok: the supervisor's Run returns no error.\<close>

definition wind_down :: "'e platform \<Rightarrow> handle list \<Rightarrow> 'e \<Rightarrow> error option \<times> 'e" where
  "wind_down pf closers e = (case waitForObs pf e of (err, e') \<Rightarrow> (err, cleanup pf closers e'))"

definition exit_code :: "error option \<Rightarrow> nat" where
  "exit_code err = (if err = None then 0 else 1)"

section \<open>Waiting for a dependency\<close>

text \<open>The state after \<open>n\<close> attempts that failed, each with the context alive and its pause slept out.\<close>

primrec retries :: "'e platform \<Rightarrow> ('e \<Rightarrow> error option \<times> 'e) \<Rightarrow> nat \<Rightarrow> 'e \<Rightarrow> 'e option" where
  "retries pf ping 0 e = Some e"
| "retries pf ping (Suc n) e =
     (case pf_within pf dependencyPoll ping e of
        (None, _) \<Rightarrow> None
      | (Some _, e1) \<Rightarrow>
          (if pf_ctx pf e1 \<noteq> None then None
           else case pf_pause pf dependencyPoll e1 of (None, e2) \<Rightarrow> retries pf ping n e2 | _ \<Rightarrow> None))"

text \<open>How an attempt that is the last one ends the wait: it succeeded, or the context was done by then
  or during the pause.\<close>

definition ends_wait :: "'e platform \<Rightarrow> ('e \<Rightarrow> error option \<times> 'e) \<Rightarrow> 'e \<Rightarrow> error option \<Rightarrow> 'e \<Rightarrow> bool" where
  "ends_wait pf ping e r e' \<longleftrightarrow>
     (let (err, e1) = pf_within pf dependencyPoll ping e in
      if err = None then r = None \<and> e' = e1
      else if pf_ctx pf e1 \<noteq> None then r = pf_ctx pf e1 \<and> e' = e1
      else r \<noteq> None \<and> pf_pause pf dependencyPoll e1 = (r, e'))"

lemma waitFor_last: "ends_wait pf ping e r e' \<Longrightarrow> waitFor pf ping e = Some (r, e')"
  by (subst waitFor.simps) (auto simp: ends_wait_def split: option.splits prod.splits if_splits)

lemma waitFor_retries: "retries pf ping n e = Some e1 \<Longrightarrow> waitFor pf ping e = waitFor pf ping e1"
proof (induction n arbitrary: e)
  case 0
  then show ?case by simp
next
  case (Suc n)
  then obtain err e2 e3 where e: "pf_within pf dependencyPoll ping e = (Some err, e2)" "pf_ctx pf e2 = None"
    "pf_pause pf dependencyPoll e2 = (None, e3)" "retries pf ping n e3 = Some e1"
    by (auto split: prod.splits option.splits if_splits)
  have "waitFor pf ping e = waitFor pf ping e3" by (subst waitFor.simps) (simp add: e)
  with Suc.IH [OF e(4)] show ?case by simp
qed

definition returned_by_attempt :: "'e platform \<Rightarrow> ('e \<Rightarrow> error option \<times> 'e) \<Rightarrow> 'e \<Rightarrow> error option \<times> 'e \<Rightarrow> bool" where
  "returned_by_attempt pf ping e y \<longleftrightarrow> (\<exists>n e1. retries pf ping n e = Some e1 \<and> ends_wait pf ping e1 (fst y) (snd y))"

lemma returned_now: "ends_wait pf ping e r e' \<Longrightarrow> returned_by_attempt pf ping e (r, e')"
  unfolding returned_by_attempt_def by (intro exI [of _ 0]) simp

lemma returned_later:
  assumes "returned_by_attempt pf ping e3 y" "pf_within pf dependencyPoll ping e = (Some err, e2)" "pf_ctx pf e2 = None"
    "pf_pause pf dependencyPoll e2 = (None, e3)"
  shows "returned_by_attempt pf ping e y"
proof -
  obtain n e1 where n: "retries pf ping n e3 = Some e1" "ends_wait pf ping e1 (fst y) (snd y)"
    using assms(1) unfolding returned_by_attempt_def by blast
  then have "retries pf ping (Suc n) e = Some e1" using assms(2-) by simp
  with n(2) show ?thesis unfolding returned_by_attempt_def by blast
qed

lemma waitFor_returned:
  assumes "waitFor pf ping e = Some y"
  shows "returned_by_attempt pf ping e y"
  using _ assms
proof (rule waitFor.raw_induct [where P = returned_by_attempt])
  fix wait pf ping e y
  assume IH: "\<And>pf ping e y. wait pf ping e = Some y \<Longrightarrow> returned_by_attempt pf ping e y"
    and body: "(case pf_within pf dependencyPoll ping e of
        (None, e1) \<Rightarrow> Some (None, e1)
      | (Some err, e1) \<Rightarrow>
          (case pf_ctx pf e1 of
             None \<Rightarrow> (case pf_pause pf dependencyPoll e1 of (None, e2) \<Rightarrow> wait pf ping e2 | (Some c, e2) \<Rightarrow> Some (Some c, e2))
           | Some c \<Rightarrow> Some (Some c, e1))) = Some y"
  obtain q e1 where q: "pf_within pf dependencyPoll ping e = (q, e1)" by (cases "pf_within pf dependencyPoll ping e")
  obtain p e2 where p: "pf_pause pf dependencyPoll e1 = (p, e2)" by (cases "pf_pause pf dependencyPoll e1")
  show "returned_by_attempt pf ping e y"
  proof (cases "\<exists>err. q = Some err \<and> pf_ctx pf e1 = None \<and> p = None")
    case True
    then obtain err where t: "q = Some err" "pf_ctx pf e1 = None" "p = None" by blast
    with body have "wait pf ping e2 = Some y" by (simp add: q p)
    from returned_later [OF IH [OF this]] t p q show ?thesis by simp
  next
    case False
    with body have "ends_wait pf ping e (fst y) (snd y)"
      by (auto simp: q p ends_wait_def split: option.splits)
    from returned_now [OF this] show ?thesis by simp
  qed
qed

lemma retries_step: "retries pf ping n e = Some e1 \<Longrightarrow> retries pf ping (Suc n) e = retries pf ping 1 e1"
proof (induction n arbitrary: e)
  case 0
  then show ?case by simp
next
  case (Suc n)
  then obtain err e2 e3 where "pf_within pf dependencyPoll ping e = (Some err, e2)" "pf_ctx pf e2 = None"
    "pf_pause pf dependencyPoll e2 = (None, e3)" "retries pf ping n e3 = Some e1"
    by (auto split: prod.splits option.splits if_splits)
  with Suc.IH [of e3] show ?case by simp
qed

lemma ends_wait_iff: "(\<exists>r e'. ends_wait pf ping e r e') \<longleftrightarrow> retries pf ping 1 e = None"
  by (auto simp: ends_wait_def split: prod.splits option.splits)

lemma retries_stop:
  "(\<forall>n. retries pf ping n e \<noteq> None) \<longleftrightarrow> (\<forall>n e1 r e'. retries pf ping n e = Some e1 \<longrightarrow> \<not> ends_wait pf ping e1 r e')"
proof
  assume all: "\<forall>n. retries pf ping n e \<noteq> None"
  show "\<forall>n e1 r e'. retries pf ping n e = Some e1 \<longrightarrow> \<not> ends_wait pf ping e1 r e'"
    using all retries_step ends_wait_iff by metis
next
  assume on: "\<forall>n e1 r e'. retries pf ping n e = Some e1 \<longrightarrow> \<not> ends_wait pf ping e1 r e'"
  have "retries pf ping n e \<noteq> None" for n
  proof (induction n)
    case 0
    show ?case by simp
  next
    case (Suc n)
    then obtain e1 where "retries pf ping n e = Some e1" by blast
    with on retries_step ends_wait_iff show ?case by metis
  qed
  then show "\<forall>n. retries pf ping n e \<noteq> None" ..
qed

text \<open>C15. Startup waits as long as a dependency is down and no longer: waitFor returns exactly when, after
  finitely many attempts that failed and were slept out, there is one that succeeds or finds the
  context done; the result is that attempt's, without an error only if it succeeded; and when every
  attempt fails with the context alive it goes on for ever.\<close>

theorem waitFor_returns_iff:
  "(waitFor pf ping e = Some (r, e') \<longleftrightarrow> (\<exists>n e1. retries pf ping n e = Some e1 \<and> ends_wait pf ping e1 r e')) \<and>
   (waitFor pf ping e = None \<longleftrightarrow> (\<forall>n. retries pf ping n e \<noteq> None))"
proof
  have returns: "waitFor pf ping e = Some (r, e') \<longleftrightarrow> (\<exists>n e1. retries pf ping n e = Some e1 \<and> ends_wait pf ping e1 r e')" for r e'
    using waitFor_returned [of pf ping e "(r, e')"] waitFor_retries waitFor_last
    by (fastforce simp: returned_by_attempt_def)
  then show "waitFor pf ping e = Some (r, e') \<longleftrightarrow> (\<exists>n e1. retries pf ping n e = Some e1 \<and> ends_wait pf ping e1 r e')" .
  with returns show "waitFor pf ping e = None \<longleftrightarrow> (\<forall>n. retries pf ping n e \<noteq> None)"
    unfolding retries_stop by (metis not_None_eq option.distinct(1) surj_pair)
qed

section \<open>From the environment to the running system\<close>

lemma priced_more: "priced p 3 \<Longrightarrow> priced p 1000"
  by (fastforce simp: priced_def split: sum.splits prod.splits)

lemma Build_check_ok:
  assumes "cd_Config d = Some cfg" "Build d = Inr checks"
    and "list_all (\<lambda>(name, spec). sp_Threshold spec \<le> max_int64 - 1000000) (checks_all (cf_Checks cfg))"
  shows "list_all check_ok checks"
proof -
  have "check_ok c" if "described_ok cfg c" for c :: "'a watch live_check"
  proof -
    from that obtain spec where spec: "map_of (checks_all (cf_Checks cfg)) (ck_Name c) = Some spec"
      "ck_Threshold c = (if ck_Name c = ''cert'' then CertThreshold else sp_Threshold spec)"
      by (auto simp: described_ok_def split: option.splits)
    have "sp_Threshold spec \<le> max_int64 - 1000000"
      using map_of_SomeD [OF spec(1)] assms(3) by (auto simp: list_all_iff)
    then have "ck_Threshold c \<le> max_int64 - 1000000" using spec(2) by (simp add: CertThreshold_def)
    with that show ?thesis by (auto simp: described_ok_def check_ok_def list_all_iff priced_more)
  qed
  with Build_described_ok [OF assms(1,2)] show ?thesis by (auto simp: list_all_iff)
qed

lemma on_world_outside [simp]: "only_outside st (on_world f st)"
  by (rule outsideI [where m = "[]"]) (simp_all add: on_world_def set_world_def)

lemma announce_outside [simp]: "only_outside st (announce disp st)"
proof -
  have "announce disp st = st\<lparr>su_world := su_world (announce disp st),
      su_metrics := su_metrics st @ [Inc ''notifications_total'' [fst (announceStart disp (wo_env (su_world st)))]]\<rparr>"
    by (simp add: announce_def on_world_def set_world_def upd_metrics_def observe_notification_def case_prod_beta)
  then show ?thesis by (rule outsideI) (simp add: exhaustions_def)
qed

lemma system_start_outside:
  "only_outside st st' \<Longrightarrow> system_ok (system_start d st) \<Longrightarrow> counted n (system_start d st) \<Longrightarrow>
     system_ok (system_start d st') \<and> counted n (system_start d st') \<and> statics st' = statics st"
  by (auto simp: only_outside_def system_ok_def sup_ok_def system_start_def runner_tracker_def gate_owned_def counted_def
      raised_def phases_with_def statics_def)

text \<open>What a start that got as far as supervising did before.\<close>

lemma start_up_supervises:
  assumes "start_up pf cfg version date r e = Some (Supervising d st closers r')"
  shows "\<exists>deps checks st0 e1. connect pf cfg e = Some (Inr deps, closers, e1) \<and> d = watch_deps pf cfg deps \<and>
    Build (checks_from pf cfg deps) = Inr checks \<and>
    supervisor_new checks (Some (metrics_new version date)) (Some (de_store d)) (initial_watch e1) = Some (Inr st0) \<and>
    only_outside st0 st \<and> r' = SetReady True r"
proof -
  obtain res cl e1 where out: "connect pf cfg e = Some (res, cl, e1)"
    using assms by (cases "connect pf cfg e") (auto simp: start_up_def)
  obtain deps where deps: "res = Inr deps" using assms by (cases res) (simp_all add: start_up_def out)
  obtain built where built: "build_watchdog pf cfg deps (metrics_new version date) e1 = Some built"
    using assms by (cases "build_watchdog pf cfg deps (metrics_new version date) e1") (simp_all add: start_up_def out deps)
  obtain st0 where st0: "built = Inr st0" using assms by (cases built) (simp_all add: start_up_def out deps built)
  have c: "connect pf cfg e = Some (Inr deps, closers, e1)"
    and b: "build_watchdog pf cfg deps (metrics_new version date) e1 = Some (Inr st0)"
    and rest: "d = watch_deps pf cfg deps" "r' = SetReady True r"
      "st = (let st = on_world (checkIPv6 pf cfg (dy_dispatcher deps)) st0
            in if nt_OnStart (cf_Notify cfg) then announce (dy_dispatcher deps) st else st)"
    using assms out deps built st0 by (simp_all add: start_up_def Let_def)
  from b obtain checks where "Build (checks_from pf cfg deps) = Inr checks"
      "supervisor_new checks (Some (metrics_new version date)) (Some (de_store d)) (initial_watch e1) = Some (Inr st0)"
    by (auto simp: build_watchdog_def rest(1) split: sum.splits)
  moreover have "only_outside st0 st"
    unfolding rest(3) Let_def by (simp add: outside_trans [OF on_world_outside announce_outside])
  ultimately show ?thesis using c rest(1,2) by blast
qed

lemma run_supervises:
  assumes "run_watchdog pf version date e = Some (Supervising d st closers r)"
  shows "\<exists>cfg e1. Load (pf_golib pf) (pf_environment pf) = Inr cfg \<and> cf_Enabled cfg \<and>
    settle pf (cf_SettleDelay cfg) e = (None, e1) \<and>
    start_up pf cfg version date fresh_readiness e1 = Some (Supervising d st closers r)"
  using assms by (auto simp: run_watchdog_def split: sum.splits if_splits prod.splits option.splits)

text \<open>The runners of a started watchdog are those of the checks Build returned for the loaded configuration.\<close>

lemma started_checks:
  assumes "run_watchdog pf version date e = Some (Supervising d st closers r)"
    and "Load (pf_golib pf) (pf_environment pf) = Inr cfg"
  shows "\<exists>checks deps st0 e2. Build (checks_from pf cfg deps) = Inr checks \<and>
    supervisor_new checks (Some (metrics_new version date)) (Some (de_store d)) (initial_watch e2) = Some (Inr st0) \<and>
    only_outside st0 st \<and> r = SetReady True fresh_readiness \<and> su_runners st = map new_runner checks \<and>
    d = watch_deps pf cfg deps"
proof -
  obtain e1 where run: "start_up pf cfg version date fresh_readiness e1 = Some (Supervising d st closers r)"
    using run_supervises [OF assms(1)] assms(2) by auto
  obtain deps checks st0 e2 where built: "d = watch_deps pf cfg deps" "Build (checks_from pf cfg deps) = Inr checks"
      "supervisor_new checks (Some (metrics_new version date)) (Some (de_store d)) (initial_watch e2) = Some (Inr st0)"
      "only_outside st0 st" "r = SetReady True fresh_readiness"
    using start_up_supervises [OF run] by blast
  then have "su_runners st = map new_runner checks"
    by (auto simp: supervisor_new_def only_outside_def split: if_splits)
  with built show ?thesis by blast
qed

text \<open>A draw from an interval that Pick can draw from.\<close>

lemma pick_interval_ok:
  assumes "\<And>n. 0 < n \<Longrightarrow> 0 \<le> rnd n \<and> rnd n < n" "interval_ok i"
  shows "\<exists>t. interval_pick rnd i = Some t \<and>
    (if iv_Max i \<le> iv_Min i then t = iv_Min i else iv_Min i \<le> t \<and> t \<le> iv_Max i)"
proof (cases "iv_Max i \<le> iv_Min i")
  case True
  then show ?thesis by (simp add: interval_pick_def)
next
  case False
  then show ?thesis using pick_in_window [OF assms(1), of i] assms(2) by (auto simp: interval_ok_def in64_def)
qed

text \<open>The windows of the registry are such intervals, for every base.\<close>

lemma window_ok:
  assumes "0 < b" "b \<le> max_int64" "0 \<le> j" "j \<le> clamdJitter"
  shows "interval_ok \<lparr>iv_Min = b, iv_Max = wrap64 (b + j)\<rparr>"
proof (cases "b + j \<le> max_int64")
  case True
  then show ?thesis using assms by (simp add: interval_ok_def in64_def clamdJitter_def)
next
  case False
  then have "wrap64 (b + j) = b + j - 2 ^ 64" using assms by (intro wrap64_over) (simp_all add: clamdJitter_def)
  then show ?thesis using assms False by (simp add: interval_ok_def in64_def clamdJitter_def)
qed

lemma windows_ok:
  assumes "in64 base" "iv \<in> {wi_Standard (Intervals base), wi_Clamd (Intervals base), wi_External (Intervals base), wi_Cert (Intervals base)}"
  shows "interval_ok iv \<and> base \<le> iv_Min iv \<and> 0 < iv_Min iv"
proof -
  define b where "b = (if base \<le> 0 then originalInterval else base)"
  have b: "0 < b" "b \<le> max_int64" "base \<le> b" using assms(1) by (auto simp: b_def originalInterval_def in64_def)
  have more: "max b originalExternal \<le> max_int64" "max b originalCert \<le> max_int64"
    using b by (simp_all add: originalExternal_def originalCert_def)
  have j: "0 \<le> standardJitter" "standardJitter \<le> clamdJitter" "0 \<le> clamdJitter" "0 \<le> externalJitter" "externalJitter \<le> clamdJitter"
    by (simp_all add: standardJitter_def clamdJitter_def externalJitter_def)
  have "Intervals base =
      \<lparr>wi_Standard = \<lparr>iv_Min = b, iv_Max = wrap64 (b + standardJitter)\<rparr>, wi_Clamd = \<lparr>iv_Min = b, iv_Max = wrap64 (b + clamdJitter)\<rparr>,
       wi_External = \<lparr>iv_Min = max b originalExternal, iv_Max = wrap64 (max b originalExternal + externalJitter)\<rparr>,
       wi_Cert = interval_fixed (max b originalCert)\<rparr>"
    by (simp add: Intervals_def b_def Let_def)
  moreover have "interval_ok (interval_fixed (max b originalCert))"
    using b more by (simp add: interval_fixed_def interval_ok_def in64_def max_def)
  moreover have "0 < max b originalExternal" using b by simp
  ultimately show ?thesis
    using assms(2) b more window_ok [OF b(1,2) j(1,2)] window_ok [OF b(1,2) j(3) order_refl]
      window_ok [OF _ more(1) j(4,5)] by (auto simp: interval_fixed_def)
qed

text \<open>The alerts' channel exists exactly when the configuration asks for one.\<close>

lemma channels_empty:
  "channels pf n = [] \<longleftrightarrow> nt_Emails n = [] \<and> (nt_Webhook n = [] \<or> nt_WebhookBody n = [])"
  by (simp add: channels_def new_multi_def new_smtp_def new_webhook_def)

lemma open_dispatcher_configured:
  assumes "Load gl look = Inr cfg"
  shows "open_dispatcher pf cfg redis = None \<longleftrightarrow> \<not> notify_enabled (cf_Notify cfg)"
proof -
  let ?n = "cf_Notify cfg"
  have "validate gl cfg = None" using assms by (auto simp: Load_def Let_def split: prod.splits option.splits)
  then have "list_all (\<lambda>e. \<not> fst e) (validate_errors gl cfg)" by (simp add: validate_None_iff)
  then have "nt_Webhook ?n \<noteq> [] \<longrightarrow> nt_WebhookBody ?n \<noteq> []" by (auto simp: validate_errors_def Let_def)
  then show ?thesis
    by (auto simp: open_dispatcher_def multi_enabled_def notify_enabled_def Let_def channels_empty)
qed

text \<open>Keeping count of the connections: \<open>live\<close> reads the open ones off the state. Opening adds a handle that
  was not open, closing removes the one it is given, and a ping, a pause and a deadline do neither.\<close>

definition leaves_open :: "('e \<Rightarrow> handle set) \<Rightarrow> ('e \<Rightarrow> 'a \<times> 'e) \<Rightarrow> bool" where
  "leaves_open live f \<longleftrightarrow> (\<forall>e. live (snd (f e)) = live e)"

definition tracks_connections :: "'e platform \<Rightarrow> ('e \<Rightarrow> handle set) \<Rightarrow> bool" where
  "tracks_connections pf live \<longleftrightarrow>
     (\<forall>dsn e. case pf_open_db pf dsn e of
        (Inl err, e') \<Rightarrow> live e' = live e
      | (Inr (db, h), e') \<Rightarrow> h \<notin> live e \<and> live e' = insert h (live e) \<and> leaves_open live (sq_Ping db)) \<and>
     (\<forall>a p e. case pf_redis pf a p e of
        ((client, h), e') \<Rightarrow> h \<notin> live e \<and> live e' = insert h (live e) \<and> leaves_open live (redis_ping client)) \<and>
     (\<forall>h e. live (pf_close pf h e) = live e - {h}) \<and>
     (\<forall>t. leaves_open live (pf_pause pf t)) \<and>
     (\<forall>t f. leaves_open live f \<longrightarrow> leaves_open live (pf_within pf t f))"

text \<open>The connections on the list, each once, are those opened since a state.\<close>

definition opened_since :: "('e \<Rightarrow> handle set) \<Rightarrow> 'e \<Rightarrow> handle list \<Rightarrow> 'e \<Rightarrow> bool" where
  "opened_since live e closers e' \<longleftrightarrow> live e' = live e \<union> set closers \<and> set closers \<inter> live e = {} \<and> distinct closers"

lemma retries_live:
  assumes "tracks_connections pf live" "leaves_open live ping" "retries pf ping n e = Some e'"
  shows "live e' = live e"
  using assms(3)
proof (induction n arbitrary: e)
  case (Suc n)
  then obtain err e1 e2 where e: "pf_within pf dependencyPoll ping e = (Some err, e1)"
    "pf_pause pf dependencyPoll e1 = (None, e2)" "retries pf ping n e2 = Some e'"
    by (auto split: prod.splits option.splits if_splits)
  have "leaves_open live (pf_within pf dependencyPoll ping)" "leaves_open live (pf_pause pf dependencyPoll)"
    using assms(1,2) by (auto simp: tracks_connections_def)
  then have "live e1 = live e" "live e2 = live e1"
    using e(1,2) by (metis leaves_open_def snd_conv)+
  with Suc.IH [OF e(3)] show ?case by simp
qed simp

lemma waitFor_live:
  assumes "tracks_connections pf live" "leaves_open live ping" "waitFor pf ping e = Some (r, e')"
  shows "live e' = live e"
proof -
  obtain n e1 where n: "retries pf ping n e = Some e1" "ends_wait pf ping e1 r e'"
    using waitFor_returned [OF assms(3)] unfolding returned_by_attempt_def by auto
  have "leaves_open live (pf_within pf dependencyPoll ping)" "leaves_open live (pf_pause pf dependencyPoll)"
    using assms(1,2) by (auto simp: tracks_connections_def)
  then have "live e' = live e1"
    using n(2) unfolding ends_wait_def leaves_open_def Let_def case_prod_beta by (metis snd_conv)
  with retries_live [OF assms(1,2) n(1)] show ?thesis by simp
qed

lemma tracked_open:
  assumes "tracks_connections pf live"
  shows "pf_open_db pf dsn e = (Inl err, e') \<Longrightarrow> live e' = live e"
    "pf_open_db pf dsn e = (Inr (db, h), e') \<Longrightarrow> h \<notin> live e \<and> live e' = insert h (live e) \<and> leaves_open live (sq_Ping db)"
    "pf_redis pf a p e = ((client, h), e') \<Longrightarrow> h \<notin> live e \<and> live e' = insert h (live e) \<and> leaves_open live (redis_ping client)"
    "live (pf_close pf h e) = live e - {h}"
proof -
  have db: "\<forall>dsn e. case pf_open_db pf dsn e of
        (Inl err, e') \<Rightarrow> live e' = live e
      | (Inr (db, h), e') \<Rightarrow> h \<notin> live e \<and> live e' = insert h (live e) \<and> leaves_open live (sq_Ping db)"
    using assms unfolding tracks_connections_def by (elim conjE)
  have redis: "\<forall>a p e. case pf_redis pf a p e of
        ((client, h), e') \<Rightarrow> h \<notin> live e \<and> live e' = insert h (live e) \<and> leaves_open live (redis_ping client)"
    using assms unfolding tracks_connections_def by (elim conjE)
  have close: "\<forall>h e. live (pf_close pf h e) = live e - {h}"
    using assms unfolding tracks_connections_def by (elim conjE)
  show "pf_open_db pf dsn e = (Inl err, e') \<Longrightarrow> live e' = live e"
    using spec [OF spec [OF db, of dsn], of e] by simp
  show "pf_open_db pf dsn e = (Inr (db, h), e') \<Longrightarrow> h \<notin> live e \<and> live e' = insert h (live e) \<and> leaves_open live (sq_Ping db)"
    using spec [OF spec [OF db, of dsn], of e] by simp
  show "pf_redis pf a p e = ((client, h), e') \<Longrightarrow> h \<notin> live e \<and> live e' = insert h (live e) \<and> leaves_open live (redis_ping client)"
    using spec [OF spec [OF spec [OF redis, of a], of p], of e] by simp
  show "live (pf_close pf h e) = live e - {h}" using close by blast
qed

lemma cleanup_live:
  assumes "tracks_connections pf live"
  shows "live (cleanup pf closers e) = live e - set closers"
proof -
  have "live (fold (pf_close pf) cs e) = live e - set cs" for cs
    by (induction cs arbitrary: e) (auto simp: tracked_open(4) [OF assms])
  from this [of "rev closers"] show ?thesis by (simp add: cleanup_def)
qed

lemma opened_more:
  "opened_since live e0 closers e \<Longrightarrow> h \<notin> live e \<Longrightarrow> live e' = insert h (live e) \<Longrightarrow> opened_since live e0 (closers @ [h]) e'"
  by (auto simp: opened_since_def)

lemma open_root_since:
  assumes "tracks_connections pf live" "opened_since live e0 closers e" "open_root pf cfg closers e = (res, closers', e')"
  shows "opened_since live e0 closers' e'"
    and "res = Inr db \<Longrightarrow> (db = None \<longleftrightarrow> \<not> rootDB_needed cfg) \<and> length closers' = length closers + (if rootDB_needed cfg then 1 else 0)"
proof -
  obtain r e1 where r: "pf_open_db pf (RootDSN (cf_DB cfg)) e = (r, e1)" by (cases "pf_open_db pf (RootDSN (cf_DB cfg)) e")
  have "opened_since live e0 closers' e' \<and> (\<forall>db. res = Inr db \<longrightarrow>
      (db = None \<longleftrightarrow> \<not> rootDB_needed cfg) \<and> length closers' = length closers + (if rootDB_needed cfg then 1 else 0))"
  proof (cases r)
    case (Inl err)
    with tracked_open(1) [OF assms(1)] r have "live e1 = live e" by blast
    with assms(2,3) r Inl show ?thesis by (auto simp: open_root_def opened_since_def split: if_splits)
  next
    case (Inr dbh)
    obtain a h where dbh: "dbh = (a, h)" by (cases dbh)
    with tracked_open(2) [OF assms(1)] r Inr have "opened_since live e0 (closers @ [h]) e1"
      by (intro opened_more [OF assms(2)]) blast+
    with assms(2,3) r Inr dbh show ?thesis by (auto simp: open_root_def split: if_splits)
  qed
  then show "opened_since live e0 closers' e'"
    "res = Inr db \<Longrightarrow> (db = None \<longleftrightarrow> \<not> rootDB_needed cfg) \<and> length closers' = length closers + (if rootDB_needed cfg then 1 else 0)"
    by blast+
qed

lemma open_redis_since:
  assumes "tracks_connections pf live" "opened_since live e0 closers e"
    and "open_redis pf cfg closers e = ((redis, local), closers', e')"
  shows "opened_since live e0 closers' e'" "leaves_open live (redis_ping redis)"
    "\<not> replicated cfg \<Longrightarrow> local = redis" "length closers' = length closers + (if replicated cfg then 2 else 1)"
proof -
  obtain client h e1 where r: "pf_redis pf (rd_Addr (cf_Redis cfg)) (rd_Password (cf_Redis cfg)) e = ((client, h), e1)"
    by (metis prod.exhaust)
  obtain client' h' e2 where r': "pf_redis pf (rd_LocalAddr (cf_Redis cfg)) (rd_Password (cf_Redis cfg)) e1 = ((client', h'), e2)"
    by (metis prod.exhaust)
  note one = tracked_open(3) [OF assms(1) r] and two = tracked_open(3) [OF assms(1) r']
  have first: "opened_since live e0 (closers @ [h]) e1" using one by (intro opened_more [OF assms(2)]) blast+
  have "opened_since live e0 ((closers @ [h]) @ [h']) e2" using two by (intro opened_more [OF first]) blast+
  with first show "opened_since live e0 closers' e'"
    using assms(3) r r' by (auto simp: open_redis_def Let_def split: if_splits)
  show "leaves_open live (redis_ping redis)" using one assms(3) r r' by (auto simp: open_redis_def Let_def split: if_splits)
  show "\<not> replicated cfg \<Longrightarrow> local = redis" "length closers' = length closers + (if replicated cfg then 2 else 1)"
    using assms(3) r r' by (auto simp: open_redis_def Let_def split: if_splits)
qed

text \<open>The ways connect can go.\<close>

lemma connect_cases:
  assumes "connect pf cfg e = Some (res, closers, e')"
  obtains (no_db) err err' where "pf_open_db pf (AppDSN (cf_DB cfg)) e = (Inl err, e')" "closers = []" "res = Inl err'"
  | (no_root) app h e1 err where "pf_open_db pf (AppDSN (cf_DB cfg)) e = (Inr (app, h), e1)"
      "open_root pf cfg [h] e1 = (Inl err, closers, e')" "res = Inl err"
  | (opened) app h e1 rdb cs e2 redis local e3 r e4 where "pf_open_db pf (AppDSN (cf_DB cfg)) e = (Inr (app, h), e1)"
      "open_root pf cfg [h] e1 = (Inr rdb, cs, e2)" "open_redis pf cfg cs e2 = ((redis, local), closers, e3)"
      "waitFor pf (sq_Ping app) e3 = Some (r, e4)"
      "r = None \<Longrightarrow> \<exists>r'. waitFor pf (redis_ping redis) e4 = Some (r', e') \<and> (r' \<noteq> None \<longrightarrow> res = Inl (the r'))"
      "r \<noteq> None \<Longrightarrow> e' = e4 \<and> res = Inl (the r)"
      "\<And>deps. res = Inr deps \<Longrightarrow> r = None \<and> waitFor pf (redis_ping redis) e4 = Some (None, e') \<and>
         (\<exists>docker. deps = \<lparr>dy_store = redis, dy_localStore = local, dy_appDB = app, dy_rootDB = rdb, dy_docker = docker,
           dy_dispatcher = open_dispatcher pf cfg redis\<rparr>)"
proof -
  obtain q e1 where q: "pf_open_db pf (AppDSN (cf_DB cfg)) e = (q, e1)" by (cases "pf_open_db pf (AppDSN (cf_DB cfg)) e")
  show thesis
  proof (cases q)
    case (Inl err)
    have "e1 = e'" "closers = []" "\<exists>err'. res = Inl err'" using assms q Inl by (auto simp: connect_def)
    with q Inl no_db show thesis by blast
  next
    case (Inr ah)
    obtain app h where ah: "ah = (app, h)" by (cases ah)
    obtain rt cs e2 where rt: "open_root pf cfg [h] e1 = (rt, cs, e2)" by (cases "open_root pf cfg [h] e1") auto
    show thesis
    proof (cases rt)
      case (Inl err)
      with assms q Inr ah rt show thesis by (intro no_root [of app h e1 err]) (auto simp: connect_def)
    next
      case root: (Inr rdb)
      obtain redis local cs' e3 where rd: "open_redis pf cfg cs e2 = ((redis, local), cs', e3)" by (metis prod.exhaust)
      obtain r e4 where w: "waitFor pf (sq_Ping app) e3 = Some (r, e4)"
        using assms q Inr ah rt root rd by (cases "waitFor pf (sq_Ping app) e3") (auto simp: connect_def)
      have c: "(case r of
          Some err \<Rightarrow> Some (Inl err, cs', e4)
        | None \<Rightarrow>
            (case waitFor pf (redis_ping redis) e4 of
               None \<Rightarrow> None
             | Some (Some err, e5) \<Rightarrow> Some (Inl err, cs', e5)
             | Some (None, e5) \<Rightarrow>
                 Some (map_res (\<lambda>docker. \<lparr>dy_store = redis, dy_localStore = local, dy_appDB = app,
                     dy_rootDB = rdb, dy_docker = docker, dy_dispatcher = open_dispatcher pf cfg redis\<rparr>)
                   (open_docker pf cfg), cs', e5))) = Some (res, closers, e')"
        using assms q Inr ah rt root rd w by (simp add: connect_def split: option.splits)
      show thesis
      proof (cases r)
        case None
        then obtain r' e5 where w': "waitFor pf (redis_ping redis) e4 = Some (r', e5)"
          using c by (cases "waitFor pf (redis_ping redis) e4") auto
        show thesis
          by (rule opened [of app h e1 rdb cs e2 redis local e3 r e4])
            (use q Inr ah rt root rd w w' None c in \<open>auto simp: map_res_def split: option.splits sum.splits\<close>)
      next
        case (Some x)
        show thesis
          by (rule opened [of app h e1 rdb cs e2 redis local e3 r e4]) (use q Inr ah rt root rd w Some c in auto)
      qed
    qed
  qed
qed

lemma connect_opened:
  assumes "connect pf cfg e = Some (res, closers, e')" "tracks_connections pf live"
  shows "opened_since live e closers e'" (is "?since")
    and "\<forall>deps. res = Inr deps \<longrightarrow>
      length closers = 2 + (if rootDB_needed cfg then 1 else 0) + (if replicated cfg then 1 else 0) \<and>
      (\<exists>e0 e2. live e0 = live e \<union> set closers \<and> waitFor pf (sq_Ping (dy_appDB deps)) e0 = Some (None, e2) \<and>
        waitFor pf (redis_ping (dy_store deps)) e2 = Some (None, e')) \<and>
      (dy_rootDB deps = None \<longleftrightarrow> \<not> rootDB_needed cfg) \<and> (dy_dispatcher deps = open_dispatcher pf cfg (dy_store deps)) \<and>
      (\<not> replicated cfg \<longrightarrow> dy_localStore deps = dy_store deps)" (is "?ready")
proof -
  have "?since \<and> ?ready"
    using assms(1)
  proof (cases rule: connect_cases)
    case (no_db err err')
    with tracked_open(1) [OF assms(2)] show ?thesis by (simp add: opened_since_def)
  next
    case (no_root app h e1 err)
    with tracked_open(2) [OF assms(2) no_root(1)] have "opened_since live e [h] e1" by (simp add: opened_since_def)
    from open_root_since(1) [OF assms(2) this no_root(2)] no_root(3) show ?thesis by simp
  next
    case (opened app h e1 rdb cs e2 redis local e3 r e4)
    with tracked_open(2) [OF assms(2) opened(1)] have one: "opened_since live e [h] e1" "leaves_open live (sq_Ping app)"
      by (simp_all add: opened_since_def)
    note rt = open_root_since [OF assms(2) one(1) opened(2)]
    note rd = open_redis_since [OF assms(2) rt(1) opened(3)]
    have e4: "live e4 = live e3" by (rule waitFor_live [OF assms(2) one(2) opened(4)])
    have "live e' = live e4"
    proof (cases r)
      case None
      with opened(5) show ?thesis using waitFor_live [OF assms(2) rd(2)] by blast
    next
      case (Some c)
      with opened(6) show ?thesis by simp
    qed
    have open3: "live e3 = live e \<union> set closers" using rd(1) by (simp add: opened_since_def)
    from \<open>live e' = live e4\<close> e4 rd(1) have "opened_since live e closers e'" by (simp add: opened_since_def)
    moreover have "?ready"
    proof (intro allI impI)
      fix deps
      assume "res = Inr deps"
      from opened(7) [OF this] obtain docker where ok: "r = None" "waitFor pf (redis_ping redis) e4 = Some (None, e')"
        "deps = \<lparr>dy_store = redis, dy_localStore = local, dy_appDB = app, dy_rootDB = rdb, dy_docker = docker,
           dy_dispatcher = open_dispatcher pf cfg redis\<rparr>" by blast
      show "length closers = 2 + (if rootDB_needed cfg then 1 else 0) + (if replicated cfg then 1 else 0) \<and>
      (\<exists>e0 e2. live e0 = live e \<union> set closers \<and> waitFor pf (sq_Ping (dy_appDB deps)) e0 = Some (None, e2) \<and>
        waitFor pf (redis_ping (dy_store deps)) e2 = Some (None, e')) \<and>
      (dy_rootDB deps = None \<longleftrightarrow> \<not> rootDB_needed cfg) \<and> (dy_dispatcher deps = open_dispatcher pf cfg (dy_store deps)) \<and>
      (\<not> replicated cfg \<longrightarrow> dy_localStore deps = dy_store deps)"
        unfolding ok(3) dependencies.simps
      proof (intro conjI)
        show "\<exists>e0 e2. live e0 = live e \<union> set closers \<and> waitFor pf (sq_Ping app) e0 = Some (None, e2) \<and>
            waitFor pf (redis_ping redis) e2 = Some (None, e')"
          using open3 opened(4) ok(1,2) by blast
      qed (use rt(2) [OF refl] rd(3,4) in simp_all)
    qed
    ultimately show ?thesis by blast
  qed
  then show "?since" "?ready" by blast+
qed

text \<open>C16. Nothing is supervised before its dependencies answered, and connect loses no connection: whatever
  it returns, the list it hands back holds exactly the connections opened since, each once, and
  closing them restores what was open before. When it succeeds they are the application's database
  and Redis, one more for root exactly when the replication check is enabled and one more for the
  local Redis under replication; after all were opened MariaDB and then Redis answered a ping within
  the poll's deadline; and there is a dispatcher exactly when a channel is configured. Of the
  platform it takes the bookkeeping of \<open>tracks_connections\<close>.\<close>

theorem connect_waits_for_dependencies:
  assumes "Load gl look = Inr cfg" "connect pf cfg e = Some (res, closers, e')" "tracks_connections pf live"
  shows "live e' = live e \<union> set closers \<and> set closers \<inter> live e = {} \<and> distinct closers \<and>
    live (cleanup pf closers e') = live e \<and>
    (\<forall>deps. res = Inr deps \<longrightarrow>
      length closers = 2 + (if sp_Enabled (cc_MySQLRepl (cf_Checks cfg)) then 1 else 0)
        + (if rd_Addr (cf_Redis cfg) \<noteq> rd_LocalAddr (cf_Redis cfg) then 1 else 0) \<and>
      (\<exists>n e0 e1 e2. live e0 = live e \<union> set closers \<and> retries pf (sq_Ping (dy_appDB deps)) n e0 = Some e1 \<and>
        pf_within pf dependencyPoll (sq_Ping (dy_appDB deps)) e1 = (None, e2) \<and>
        (\<exists>m e3. retries pf (redis_ping (dy_store deps)) m e2 = Some e3 \<and>
           pf_within pf dependencyPoll (redis_ping (dy_store deps)) e3 = (None, e'))) \<and>
      (dy_rootDB deps = None \<longleftrightarrow> \<not> sp_Enabled (cc_MySQLRepl (cf_Checks cfg))) \<and>
      (dy_dispatcher deps = None \<longleftrightarrow> \<not> notify_enabled (cf_Notify cfg)) \<and>
      (rd_Addr (cf_Redis cfg) = rd_LocalAddr (cf_Redis cfg) \<longrightarrow> dy_localStore deps = dy_store deps))"
proof -
  note since = connect_opened(1) [OF assms(2,3)] and ready = connect_opened(2) [OF assms(2,3)]
  have ends: "pf_within pf dependencyPoll ping a = (None, b)" if "ends_wait pf ping a None b" for ping a b
    using that by (auto simp: ends_wait_def split: prod.splits if_splits)
  have waits: "\<exists>n e0. retries pf ping n a = Some e0 \<and> pf_within pf dependencyPoll ping e0 = (None, b)"
    if "waitFor pf ping a = Some (None, b)" for ping a b
    using waitFor_returned [OF that] ends unfolding returned_by_attempt_def fst_conv snd_conv by blast
  have "live (cleanup pf closers e') = live e"
    using since cleanup_live [OF assms(3)] by (auto simp: opened_since_def)
  then show ?thesis
    using since ready waits open_dispatcher_configured [OF assms(1), of pf]
    unfolding opened_since_def rootDB_needed_def replicated_def by metis
qed

text \<open>A signal while the containers settle ends the program as the observability server does, without
  an error when that stops in time; a signal while a dependency is awaited instead makes run return
  the context's error, for which main exits with 1, and leaves every connection opened so far
  unclosed.\<close>

theorem interrupted_startup:
  assumes "Load (pf_golib pf) (pf_environment pf) = Inr cfg" "cf_Enabled cfg"
  shows "(settle pf (cf_SettleDelay cfg) e = (Some c, e1) \<longrightarrow>
      run_watchdog pf version date e = Some (Returned (fst (waitForObs pf e1)) fresh_readiness (snd (waitForObs pf e1)))) \<and>
    (settle pf (cf_SettleDelay cfg) e = (None, e1) \<and> connect pf cfg e1 = Some (Inl c, closers, e2) \<longrightarrow>
      run_watchdog pf version date e = Some (Returned (Some c) fresh_readiness e2) \<and> exit_code (Some c) = 1 \<and>
      (tracks_connections pf live \<longrightarrow> live e2 = live e1 \<union> set closers \<and> set closers \<inter> live e1 = {}))"
proof -
  have "live e2 = live e1 \<union> set closers \<and> set closers \<inter> live e1 = {}"
    if "connect pf cfg e1 = Some (Inl c, closers, e2)" "tracks_connections pf live"
    using connect_opened [OF that] by (simp add: opened_since_def)
  then show ?thesis
    using assms by (auto simp: run_watchdog_def start_up_def exit_code_def split: prod.splits)
qed

text \<open>C1. What main starts keeps the promises of the supervisor: when run gets as far as supervising with
  thresholds that leave room for one round, then it is ready, its checks are exactly those the loaded
  configuration enables, in the registry's order and without a name twice, and in every state the
  system can reach each queued event names one of them, carries an exhausted budget and is one the
  supervisor knows, a container to restart or one of the eight notifications; a closed gate has an
  owner; and the budgets exhausted since the start are the events raised, but for runners that were
  stopped in between.\<close>

theorem started_watchdog_keeps_its_promises:
  assumes "run_watchdog pf version date e = Some (Supervising d st closers r)"
    and "Load (pf_golib pf) (pf_environment pf) = Inr cfg"
    and "list_all (\<lambda>(name, spec). sp_Threshold spec \<le> max_int64 - 1000000) (checks_all (cf_Checks cfg))"
    and "reachable d st s"
  shows "Ready r \<and>
    map (\<lambda>q. ck_Name (rn_check q)) (su_runners st) =
      filter (\<lambda>n. sp_Enabled (the (map_of (checks_all (cf_Checks cfg)) n))) check_names \<and>
    distinct (map (\<lambda>q. ck_Name (rn_check q)) (su_runners st)) \<and>
    list_all (\<lambda>ev. ev_Check ev < length (su_runners st) \<and> snapshot_dead (ev_Snapshot ev) \<and>
        (restarts_container (runner_check (ev_Check ev) (sy_sup s)) \<or>
         ck_Event (runner_check (ev_Check ev) (sy_sup s)) \<in> set notify_events)) (su_events (sy_sup s)) \<and>
    (gate_paused (su_gate (sy_sup s)) \<longrightarrow> (\<exists>i. sy_handler s = Restarting i) \<or> sy_watch s = Watching True) \<and>
    raised s \<le> exhaustions (su_metrics (sy_sup s)) \<and>
    exhaustions (su_metrics (sy_sup s)) \<le> raised s + phases_with is_stopped s"
proof -
  obtain checks deps st0 e2 where built: "Build (checks_from pf cfg deps) = Inr checks"
      "supervisor_new checks (Some (metrics_new version date)) (Some (de_store d)) (initial_watch e2) = Some (Inr st0)"
      "only_outside st0 st" "r = SetReady True fresh_readiness" "su_runners st = map new_runner checks"
    using started_checks [OF assms(1,2)] by blast
  have cfg: "cd_Config (checks_from pf cfg deps) = Some cfg" by (simp add: checks_from_def)
  have ok: "list_all check_ok checks" by (rule Build_check_ok [OF cfg built(1) assms(3)])
  have zero: "exhaustions (metrics_new version date) = 0" by (simp add: exhaustions_def metrics_new_def)
  have start: "system_ok (system_start d st)" "counted 0 (system_start d st)" "statics st = statics st0"
    using supervisor_new_ok [OF built(2) ok, of d] system_start_outside [OF built(3), of d 0] zero by simp_all
  have s: "system_ok s" "statics (sy_sup s) = statics st" "counted 0 s"
    using reachable_invariant [OF assms(4) start(1), of 0] start(2) by simp_all
  note runners = built(5)
  have events: "ck_Event (runner_check i (sy_sup s)) = ck_Event (checks ! i)" if "i < length checks" for i
  proof -
    have "map (ck_Event \<circ> fst) (statics (sy_sup s)) = map ck_Event checks"
      using s(2) by (simp add: statics_def runners comp_def new_runner_def)
    then have "map (\<lambda>q. ck_Event (rn_check q)) (su_runners (sy_sup s)) = map ck_Event checks"
      by (simp add: statics_def comp_def)
    then show ?thesis using that by (metis length_map nth_map runner_check_def)
  qed
  have known: "restarts_container (checks ! i) \<or> ck_Event (checks ! i) \<in> set notify_events" if "i < length checks" for i
    using Build_described_ok [OF cfg built(1)] that by (auto simp: list_all_length described_ok_def)
  have n: "length (su_runners (sy_sup s)) = length checks"
    using s(2) runners by (metis length_map statics_def)
  have "list_all (event_ok (length checks)) (su_events (sy_sup s))" using s(1) n by (simp add: system_ok_def sup_ok_def)
  then have "list_all (\<lambda>ev. ev_Check ev < length (su_runners st) \<and> snapshot_dead (ev_Snapshot ev) \<and>
        (restarts_container (runner_check (ev_Check ev) (sy_sup s)) \<or>
         ck_Event (runner_check (ev_Check ev) (sy_sup s)) \<in> set notify_events)) (su_events (sy_sup s))"
    using events known by (fastforce simp: list_all_iff event_ok_def runners restarts_container_suffix)
  moreover note Build_names [OF cfg built(1)]
  moreover have "distinct (map ck_Name checks)"
    using Build_names [OF cfg built(1)] distinct_check_names by simp
  ultimately show ?thesis
    using s(1,3) built(4)
    by (auto simp: system_ok_def gate_owned_def counted_def runners comp_def new_runner_def Ready_def SetReady_def)
qed

text \<open>C20. A runner never panics drawing its pause, never spins, and sleeps as configured: whatever main
  started, whatever WATCHDOG_CHECK_INTERVAL was, as an int64, and in every reachable state, the pause
  of a sleeping runner exists; with a spent budget it is the check's dead delay, at least a second;
  otherwise it is never shorter than the configured interval and lies in the check's window, and is
  exactly the window's lower bound when the upper one is not above it, as when it wrapped around. Of
  the platform it takes that a draw lies in its range.\<close>

theorem started_runners_sleep_as_configured:
  assumes "run_watchdog pf version date e = Some (Supervising d st closers r)"
    and "Load (pf_golib pf) (pf_environment pf) = Inr cfg" "in64 (cf_CheckInterval cfg)"
    and "\<And>w n. 0 < n \<Longrightarrow> 0 \<le> pf_rand pf w n \<and> pf_rand pf w n < n"
    and "reachable d st s" "i < length (su_runners st)" "sy_phase s ! i = Sleeping snap"
    and "c = rn_check (su_runners st ! i)"
  shows "\<exists>delay. round_delay d i snap (sy_sup s) = Some delay \<and>
    (if snapshot_dead snap then delay = ck_DeadDelay c \<and> second \<le> delay
     else cf_CheckInterval cfg \<le> delay \<and> 0 < delay \<and>
       (if iv_Max (ck_Interval c) \<le> iv_Min (ck_Interval c) then delay = iv_Min (ck_Interval c)
        else iv_Min (ck_Interval c) \<le> delay \<and> delay \<le> iv_Max (ck_Interval c)))"
proof -
  obtain checks deps where built: "Build (checks_from pf cfg deps) = Inr checks" "su_runners st = map new_runner checks"
      "d = watch_deps pf cfg deps"
    using started_checks [OF assms(1,2)] by blast
  have cfg: "cd_Config (checks_from pf cfg deps) = Some cfg" by (simp add: checks_from_def)
  have i: "i < length checks" "c = checks ! i" using assms(6,8) built(2) by (simp_all add: new_runner_def)
  have c: "described_ok cfg c" using Build_described_ok [OF cfg built(1)] i by (simp add: list_all_length)
  have "statics st = map (\<lambda>c. (bare c, max 1 (ck_Threshold c))) checks"
    by (simp add: statics_def built(2) comp_def new_runner_def tracker_new_def)
  note stays = check_stays [OF this assms(5) i(1)]
  have rnd: "0 < n \<Longrightarrow> 0 \<le> de_rand d w n \<and> de_rand d w n < n" for w n
    using assms(4) by (simp add: built(3) watch_deps_def)
  have iv: "interval_ok (ck_Interval c)" "cf_CheckInterval cfg \<le> iv_Min (ck_Interval c)" "0 < iv_Min (ck_Interval c)"
    using windows_ok [OF assms(3)] c unfolding described_ok_def by blast+
  have dead: "second \<le> ck_DeadDelay c" using c by (auto simp: described_ok_def)
  obtain p where p: "interval_pick (de_rand d (su_world (sy_sup s))) (ck_Interval c) = Some p"
      "if iv_Max (ck_Interval c) \<le> iv_Min (ck_Interval c) then p = iv_Min (ck_Interval c)
       else iv_Min (ck_Interval c) \<le> p \<and> p \<le> iv_Max (ck_Interval c)"
    using pick_interval_ok [where rnd = "de_rand d (su_world (sy_sup s))", OF rnd iv(1)] by blast
  have "round_delay d i snap (sy_sup s) = Some (if snapshot_dead snap then ck_DeadDelay c else p)"
    using p(1) by (simp add: round_delay_def Let_def stays i(2))
  then show ?thesis using p(2) iv(2,3) dead by (auto split: if_splits)
qed

section \<open>A concrete platform\<close>

text \<open>Everything answers, and nobody is told anything; the context is done once the world is \<open>over\<close>, and
  \<open>down\<close> makes MariaDB refuse its pings and the context end during the first pause of its wait.\<close>

definition demo_db :: "bool \<Rightarrow> 'e sqldb" where
  "demo_db down = \<lparr>sq_Ping = (\<lambda>w. (if down then Some ''connection refused'' else None, w)),
     sq_QueryRow = (\<lambda>q w. (NoRows, w)), sq_Query = (\<lambda>q w. (Inl ''no such table'', w))\<rparr>"

definition demo_redis :: "'e redis_client" where
  "demo_redis = \<lparr>cl_ping = (\<lambda>w. (None, w)), cl_get = (\<lambda>k w. (RNil, w)), cl_set = (\<lambda>k v w. (None, w)),
     cl_hkeys = (\<lambda>k w. (RVal [], w)), cl_lrange = (\<lambda>k i j w. (RVal [], w)), cl_lpush = (\<lambda>k v w. (None, w)),
     cl_setnx = (\<lambda>k v t w. (Inr True, w)), cl_ttl = (\<lambda>k w. (Inr 0, w)), cl_now = (\<lambda>w. 0)\<rparr>"

definition demo_docker :: "'e docker_client" where
  "demo_docker = \<lparr>dc_baseURL = [], dc_dialect = DialectAuto, dc_project = [], dc_ipv4Network = [],
     dc_reach = (\<lambda>w. (True, w)), dc_exchange = (\<lambda>m p w. (Not_sent ''no route to host'', w)),
     dc_summaries = (\<lambda>b. Inr []), dc_inspects = (\<lambda>b. Inr []), dc_inspected = (\<lambda>b. Inl ''EOF''),
     dc_processes = (\<lambda>b. Inr []), dc_msg_processes = (\<lambda>b. Inr [])\<rparr>"

definition demo_platform :: "('e \<Rightarrow> bool) \<Rightarrow> bool \<Rightarrow> 'e platform" where
  "demo_platform over down =
     \<lparr>pf_golib = plain_golib, pf_environment = minimal_env, pf_outside = mute_outside, pf_open_db = (\<lambda>dsn w. (Inr (demo_db down, 0), w)),
      pf_redis = (\<lambda>a p w. ((demo_redis, 0), w)), pf_close = (\<lambda>r w. w),
      pf_parse_url = (\<lambda>u. Inr \<lparr>ur_Scheme = ''https'', ur_Host = ''dockerapi'', ur_Path = [], ur_Opaque = [], ur_Hostname = ''dockerapi'',
        ur_Port = []\<rparr>), pf_docker = (\<lambda>t. demo_docker), pf_dialer = \<lparr>dd_Dial = (\<lambda>n a w. (None, w)), dd_DialTLS = (\<lambda>n a w. (None, w)), dd_Close = id\<rparr>,
      pf_shuffle = id, pf_LookupMX = (\<lambda>d w. (Inr [], w)),
      pf_transport = \<lparr>tp_dial = (\<lambda>a w. (None, w)), tp_greet = (\<lambda>w. (None, w)), tp_hello = (\<lambda>h w. (None, w)),
        tp_has_starttls = (\<lambda>w. (False, w)), tp_starttls = (\<lambda>h w. (None, w)), tp_mail = (\<lambda>a w. (None, w)),
        tp_rcpt = (\<lambda>a w. (None, w)), tp_data = (\<lambda>w. (None, w)), tp_write = (\<lambda>b w. (None, w)), tp_finish = (\<lambda>w. (None, w)),
        tp_quit = (\<lambda>w. (None, w)), tp_close = (\<lambda>w. w)\<rparr>,
      pf_request_error = (\<lambda>u. None), pf_post = (\<lambda>u b w. (Inl ''no route to host'', w)),
      pf_clock = (\<lambda>w. \<lparr>tm_ns = 0, tm_offset = 0, tm_zone = ''UTC''\<rparr>), pf_ctx = (\<lambda>w. if over w then Some ''context canceled'' else None),
      pf_pause = (\<lambda>t w. (if over w \<or> down \<and> t = dependencyPoll then Some ''context canceled'' else None, w)), pf_within = (\<lambda>t f. f),
      pf_rand = (\<lambda>w n. 0), pf_randn = (\<lambda>w n. 0), pf_parse_time = (\<lambda>t. Inl ''no time''), pf_parse_cidr = (\<lambda>n. Inl ''no network''),
      pf_parse_ip = (\<lambda>t. None), pf_local_addrs = (\<lambda>w. (Inr [], w)), pf_http6 = mute_http, pf_obs_done = (\<lambda>t w. (Some None, w))\<rparr>"

lemma demo_platform_simps:
  "pf_golib (demo_platform over down) = plain_golib" "pf_environment (demo_platform over down) = minimal_env"
  "pf_open_db (demo_platform over down) dsn w = (Inr (demo_db down, 0), w)"
  "pf_redis (demo_platform over down) a p w = ((demo_redis, 0), w)"
  "pf_ctx (demo_platform over down) w = (if over w then Some ''context canceled'' else None)" "pf_within (demo_platform over down) t f = f"
  "pf_pause (demo_platform over down) t w = (if over w \<or> down \<and> t = dependencyPoll then Some ''context canceled'' else None, w)"
  "pf_obs_done (demo_platform over down) t w = (Some None, w)"
  by (simp_all add: demo_platform_def)

abbreviation demo_config :: config where
  "demo_config \<equiv> fst (load_config plain_golib minimal_env)"

lemma demo_config_facts:
  "cf_Enabled demo_config" "cf_SettleDelay demo_config = 30 * second" "\<not> rootDB_needed demo_config"
  "list_all (\<lambda>(name, spec). sp_Threshold spec \<le> max_int64 - 1000000) (checks_all (cf_Checks demo_config))"
  "filter (\<lambda>n. sp_Enabled (the (map_of (checks_all (cf_Checks demo_config)) n))) check_names \<noteq> []"
  "\<not> replicated demo_config" "in64 (cf_CheckInterval demo_config)"
  by code_simp+

lemma demo_Build:
  "\<exists>checks. Build (checks_from pf demo_config deps) = Inr checks \<and> checks \<noteq> []"
proof -
  have c: "cd_Config (checks_from pf demo_config deps) = Some demo_config" by (simp add: checks_from_def)
  obtain checks where b: "Build (checks_from pf demo_config deps) = Inr checks"
    using Build_eq [OF c] by (auto simp: checks_from_def)
  moreover have "checks \<noteq> []" using Build_names [OF c b] demo_config_facts(5) by auto
  ultimately show ?thesis by blast
qed

text \<open>A platform that differs from it only in the handles it gives out.\<close>

abbreviation with_handles :: "('e \<Rightarrow> handle) \<Rightarrow> (handle \<Rightarrow> 'e \<Rightarrow> 'e) \<Rightarrow> (handle \<Rightarrow> 'e \<Rightarrow> 'e) \<Rightarrow> 'e platform \<Rightarrow> 'e platform" where
  "with_handles fresh opens closes pf \<equiv>
     pf\<lparr>pf_open_db := (\<lambda>dsn w. (Inr (demo_db False, fresh w), opens (fresh w) w)),
        pf_redis := (\<lambda>a p w. ((demo_redis, fresh w), opens (fresh w) w)), pf_close := closes\<rparr>"

lemma demo_connects:
  "\<exists>deps closers e. connect (with_handles fresh opens closes (demo_platform over False)) demo_config e0 = Some (Inr deps, closers, e) \<and>
     closers = [fresh e0, fresh (opens (fresh e0) e0)]"
proof -
  let ?pf = "with_handles fresh opens closes (demo_platform over False)"
  have d: "dk_Dialect (cf_Docker demo_config) = ''auto''"
    using minimal_docker(2) by (simp add: load_config_parts minimal_strings)
  have "\<exists>c. open_docker ?pf demo_config = Inr c"
    unfolding open_docker_def d
    by (simp add: ParseDialect_def to_lower_def lower_char_def trim_space_def trim_with_def is_space_def map_res_def docker_new_def demo_platform_def Let_def)
  moreover have "waitFor ?pf (sq_Ping (demo_db False)) e = Some (None, e)" "waitFor ?pf (redis_ping demo_redis) e = Some (None, e)" for e
    by (subst waitFor.simps, simp add: demo_platform_simps demo_db_def demo_redis_def redis_ping_def)+
  ultimately show ?thesis
    using demo_config_facts(3,6) by (auto simp: connect_def open_root_def open_redis_def map_res_def Let_def)
qed

lemma demo_loads: "Load (pf_golib (demo_platform over down)) (pf_environment (demo_platform over down)) = Inr demo_config"
  by (simp add: demo_platform_simps minimal_env_loads)

lemma demo_settles: "\<not> over e \<Longrightarrow> settle (demo_platform over down) (cf_SettleDelay demo_config) e = (None, e)"
  by (simp add: settle_def demo_platform_simps demo_config_facts(2) dependencyPoll_def)

lemma demo_supervises:
  assumes "\<not> over e0"
  shows "\<exists>d st closers r. run_watchdog (demo_platform over False) ''dev'' ''unknown'' e0 = Some (Supervising d st closers r)"
proof -
  have same: "with_handles (\<lambda>_. 0) (\<lambda>_ w. w) (\<lambda>_ w. w) (demo_platform over False) = demo_platform over False"
    by (simp add: demo_platform_def)
  obtain deps closers e where c: "connect (demo_platform over False) demo_config e0 = Some (Inr deps, closers, e)"
    using demo_connects [where fresh = "\<lambda>_. 0" and opens = "\<lambda>_ w. w" and closes = "\<lambda>_ w. w" and over = over and ?e0.0 = e0] unfolding same by blast
  obtain checks where b: "Build (checks_from (demo_platform over False) demo_config deps) = Inr checks" "checks \<noteq> []"
    using demo_Build by blast
  have "\<exists>st. build_watchdog (demo_platform over False) demo_config deps m e = Some (Inr st)" for m
    using b by (simp add: build_watchdog_def supervisor_new_def)
  then obtain st where "build_watchdog (demo_platform over False) demo_config deps (metrics_new ''dev'' ''unknown'') e = Some (Inr st)"
    by blast
  then show ?thesis
    unfolding run_watchdog_def demo_loads sum.case demo_settles [of over e0, OF assms] prod.case option.case start_up_def c
    by (simp add: demo_config_facts(1) Let_def)
qed

text \<open>The same platform, its state the list of open handles; a fresh one is larger than their sum.\<close>

definition counting_platform :: "handle list platform" where
  "counting_platform = with_handles (\<lambda>open. Suc (sum_list open)) (#) removeAll (demo_platform (\<lambda>_. False) False)"

lemma fresh_handle: "Suc (sum_list hs) \<notin> set hs" for hs :: "nat list"
  using member_le_sum_list [of "Suc (sum_list hs)" hs] by auto

lemma counting_tracks: "tracks_connections counting_platform set"
  by (simp add: tracks_connections_def counting_platform_def leaves_open_def fresh_handle demo_platform_simps)
    (simp add: demo_db_def demo_redis_def redis_ping_def)

theorem connect_waits_for_dependencies_witness:
  "\<exists>deps e. connect counting_platform demo_config [7] = Some (Inr deps, [8, 16], e) \<and> set e = {7, 8, 16} \<and>
     set (cleanup counting_platform [8, 16] e) = {7} \<and> dy_rootDB deps = None"
proof -
  obtain deps e where c: "connect counting_platform demo_config [7] = Some (Inr deps, [8, 16], e)"
    using demo_connects [where fresh = "\<lambda>open. Suc (sum_list open)" and opens = "(#)" and closes = removeAll and over = "\<lambda>_. False" and ?e0.0 = "[7]"] unfolding counting_platform_def by auto
  from connect_waits_for_dependencies [OF minimal_env_loads c counting_tracks] c demo_config_facts(3) show ?thesis
    unfolding rootDB_needed_def by auto
qed

theorem interrupted_startup_witness:
  "run_watchdog (demo_platform (\<lambda>_::unit. False) True) ''dev'' ''unknown'' () = Some (Returned (Some ''context canceled'') fresh_readiness ())"
proof -
  let ?pf = "demo_platform (\<lambda>_::unit. False) True"
  have "waitFor ?pf (sq_Ping (demo_db True)) () = Some (Some ''context canceled'', ())"
    by (subst waitFor.simps) (simp add: demo_platform_simps demo_db_def)
  then have "connect ?pf demo_config () = Some (Inl ''context canceled'', [0, 0], ())"
    using demo_config_facts(3,6) by (simp add: connect_def demo_platform_simps open_root_def open_redis_def Let_def)
  with interrupted_startup [OF demo_loads [of "\<lambda>_::unit. False" True] demo_config_facts(1), where e = "()" and ?e1.0 = "()" and ?e2.0 = "()"
        and c = "''context canceled''"] demo_settles [of "\<lambda>_::unit. False" "()" True]
  show ?thesis by blast
qed

theorem started_watchdog_keeps_its_promises_witness:
  "\<exists>d st closers r. run_watchdog (demo_platform (\<lambda>_::unit. False) False) ''dev'' ''unknown'' () = Some (Supervising d st closers r) \<and>
     Ready r \<and> map (\<lambda>q. ck_Name (rn_check q)) (su_runners st) \<noteq> []"
proof -
  obtain d st closers r where run: "run_watchdog (demo_platform (\<lambda>_::unit. False) False) ''dev'' ''unknown'' () = Some (Supervising d st closers r)"
    using demo_supervises [of "\<lambda>_::unit. False" "()"] by blast
  from started_watchdog_keeps_its_promises [OF run demo_loads demo_config_facts(4) reach_start] run demo_config_facts(5)
  show ?thesis by metis
qed

text \<open>The first check of a started watchdog gets through its first round, whatever it finds.\<close>

lemma first_round_sleeps:
  assumes "run_watchdog pf version date e = Some (Supervising d st closers r)" "\<And>w. pf_ctx pf w = None"
    and "Load (pf_golib pf) (pf_environment pf) = Inr cfg" "su_runners st \<noteq> []"
  shows "\<exists>s snap. reachable d st s \<and> sy_phase s ! 0 = Sleeping snap"
proof -
  obtain checks deps st0 e2 where built:
      "supervisor_new checks (Some (metrics_new version date)) (Some (de_store d)) (initial_watch e2) = Some (Inr st0)"
      "only_outside st0 st" "d = watch_deps pf cfg deps"
    using started_checks [OF assms(1,3)] by blast
  have "su_gate st = \<lparr>g_open = 0, g_fresh = 1, g_closed = [0]\<rparr>"
    using built(1,2) by (auto simp: supervisor_new_def only_outside_def split: if_splits)
  then have g: "recv_ready (gate_ticket (su_gate st)) (su_gate st)" by (simp add: gate_ticket_def recv_ready_def)
  let ?s = "system_start d st"
  let ?w = "set_phase 0 (Waiting (gate_ticket (su_gate st))) st ?s"
  have s: "sy_sup ?s = st" "0 < length (sy_phase ?s)" "sy_phase ?s ! 0 = AtGate"
    using assms(4) by (simp_all add: system_start_def)
  have "sys_step d ?s ?w" using ask [OF s(2,3), of d] by (simp add: s(1))
  then have w: "reachable d st ?w" by (rule reach_step [OF reach_start])
  obtain snap st' where "runner_round d 0 st = (snap, st')" by (cases "runner_round d 0 st")
  with g s(2) assms(4) have "(sys_step d)\<^sup>*\<^sup>* ?w (set_phase 0 (if de_ctx d (su_world st') = None then Sleeping snap else Stopped) st' ?w)"
    by (intro round_steps_are_runner_round) simp_all
  from reachable_steps [OF this w] have "reachable d st (set_phase 0 (Sleeping snap) st' ?w)"
    using assms(2) by (simp add: built(3) watch_deps_def)
  moreover have "sy_phase (set_phase 0 (Sleeping snap) st' ?w) ! 0 = Sleeping snap" using s(2) by simp
  ultimately show ?thesis by blast
qed

theorem started_runners_sleep_as_configured_witness:
  "\<exists>d st closers r s snap delay. run_watchdog (demo_platform (\<lambda>_::unit. False) False) ''dev'' ''unknown'' () = Some (Supervising d st closers r) \<and>
     reachable d st s \<and> sy_phase s ! 0 = Sleeping snap \<and> round_delay d 0 snap (sy_sup s) = Some delay"
proof -
  let ?pf = "demo_platform (\<lambda>_::unit. False) False"
  obtain d st closers r where run: "run_watchdog ?pf ''dev'' ''unknown'' () = Some (Supervising d st closers r)"
    using demo_supervises [of "\<lambda>_::unit. False" "()"] by blast
  obtain checks deps where "Build (checks_from ?pf demo_config deps) = Inr checks" "su_runners st = map new_runner checks"
    using started_checks [OF run demo_loads] by blast
  then have some: "su_runners st \<noteq> []" using demo_Build [of ?pf deps] by auto
  then obtain s snap where s: "reachable d st s" "sy_phase s ! 0 = Sleeping snap"
    using first_round_sleeps [OF run _ demo_loads] by (auto simp: demo_platform_simps)
  have "\<exists>delay. round_delay d 0 snap (sy_sup s) = Some delay"
    using started_runners_sleep_as_configured [OF run demo_loads demo_config_facts(7) _ s(1) _ s(2) refl] some
    by (fastforce simp: demo_platform_def)
  with run s show ?thesis by blast
qed

end
