(* ===== verification/Shutdown.thy ===== *)
theory Shutdown
  imports System
begin

text \<open>
  Progress of the concurrent program: when Supervisor.Run returns after its context is done, and
  what can keep the goroutines from moving before. A step moves a goroutine when it changes more
  than the outside world, so neither the world's own steps nor a poll of the watcher that finds
  nothing new counts.
\<close>

section \<open>Moves\<close>

definition only_world :: "'w system \<Rightarrow> 'w system \<Rightarrow> bool" where
  "only_world s s' \<longleftrightarrow> (\<exists>w. s' = s\<lparr>sy_sup := set_world w (sy_sup s)\<rparr>)"

definition moves :: "'w deps \<Rightarrow> 'w system \<Rightarrow> 'w system \<Rightarrow> bool" where
  "moves d s s' \<longleftrightarrow> sys_step d s s' \<and> \<not> only_world s s'"

definition cancelled :: "'w deps \<Rightarrow> 'w system \<Rightarrow> bool" where
  "cancelled d s \<longleftrightarrow> de_ctx d (su_world (sy_sup s)) \<noteq> None"

definition closing_step :: "'w deps \<Rightarrow> 'w system \<Rightarrow> 'w system \<Rightarrow> bool" where
  "closing_step d s s' \<longleftrightarrow> moves d s s' \<and> cancelled d s \<and> cancelled d s'"

text \<open>Every goroutine that Run waits for has returned.\<close>

definition finished :: "'w system \<Rightarrow> bool" where
  "finished s \<longleftrightarrow> list_all (\<lambda>p. p = Stopped) (sy_phase s) \<and> sy_handler s = HandlerStopped \<and>
     (\<forall>held. sy_watch s \<noteq> Watching held)"

section \<open>What is left to do\<close>

text \<open>What a runner with \<open>n\<close> probes still does: a round once begun probes to its end.\<close>

fun phase_left :: "nat \<Rightarrow> phase \<Rightarrow> nat" where
  "phase_left n (Sleeping snap) = n + 7"
| "phase_left n (Sending snap) = n + 6"
| "phase_left n AtGate = n + 3"
| "phase_left n (Waiting c) = n + 2"
| "phase_left n (InRound k weight) = n - k + 1"
| "phase_left n Stopped = 0"

fun handler_left :: "handling \<Rightarrow> nat" where
  "handler_left (Restarting i) = 2"
| "handler_left Idle = 1"
| "handler_left HandlerStopped = 0"

fun watch_left :: "watching \<Rightarrow> nat" where
  "watch_left (Watching held) = 1"
| "watch_left w = 0"

definition probe_counts :: "'w system \<Rightarrow> nat list" where
  "probe_counts s = map (\<lambda>(c, t). length (lc_Probes c)) (statics (sy_sup s))"

definition work_left :: "nat list \<Rightarrow> 'w system \<Rightarrow> nat" where
  "work_left ns s = sum_list (map2 phase_left ns (sy_phase s)) + 2 * length (su_events (sy_sup s))
     + handler_left (sy_handler s) + watch_left (sy_watch s)"

lemma probe_counts_nth:
  "i < length (su_runners (sy_sup s)) \<Longrightarrow> probe_counts s ! i = length (lc_Probes (runner_check i (sy_sup s)))"
  "length (probe_counts s) = length (su_runners (sy_sup s))"
  by (simp_all add: probe_counts_def statics_def runner_check_def bare_def)

lemma phases_left_set:
  "i < length ps \<Longrightarrow> length ns = length ps \<Longrightarrow>
     sum_list (map2 phase_left ns (ps[i := p])) + phase_left (ns ! i) (ps ! i) = sum_list (map2 phase_left ns ps) + phase_left (ns ! i) p"
proof (induction ps arbitrary: i ns)
  case Nil
  then show ?case by simp
next
  case (Cons q ps)
  then obtain n ms where "ns = n # ms" by (cases ns) auto
  with Cons show ?case by (cases i) (auto simp: add.commute add.left_commute)
qed

lemma work_left_phase:
  assumes "i < length (sy_phase s)" "length ns = length (sy_phase s)" "su_events st = su_events (sy_sup s)"
  shows "work_left ns (set_phase i p st s) + phase_left (ns ! i) (sy_phase s ! i) = work_left ns s + phase_left (ns ! i) p"
  using phases_left_set [OF assms(1,2), of p] assms(3) by (simp add: work_left_def) (simp add: set_phase_def)

lemma work_left_bound:
  assumes "system_ok s" "su_capacity (sy_sup s) = length (sy_phase s)" "length ns = length (sy_phase s)"
  shows "work_left ns s \<le> 9 * length (sy_phase s) + sum_list ns + 3"
proof -
  have one: "phase_left n p \<le> n + 7" for n p by (cases p) simp_all
  have "sum_list (map2 phase_left ns ps) \<le> sum_list ns + 7 * length ps" if "length ns = length ps" for ns ps
    using that
  proof (induction ns ps rule: list_induct2)
    case (Cons n ns p ps)
    with one [of n p] show ?case by simp
  qed simp
  then have "sum_list (map2 phase_left ns (sy_phase s)) \<le> sum_list ns + 7 * length (sy_phase s)" using assms(3) .
  moreover have "length (su_events (sy_sup s)) \<le> length (sy_phase s)"
    using assms by (simp add: system_ok_def sup_ok_def)
  moreover have "handler_left (sy_handler s) \<le> 2" by (cases "sy_handler s") simp_all
  moreover have "watch_left (sy_watch s) \<le> 1" by (cases "sy_watch s") simp_all
  ultimately show ?thesis by (simp add: work_left_def)
qed

text \<open>Sleep does not wait once the context is done, as Realtime's cannot.\<close>

definition prompt_sleep :: "'w deps \<Rightarrow> bool" where
  "prompt_sleep d \<longleftrightarrow> (\<forall>t w. de_ctx d w \<noteq> None \<longrightarrow> fst (de_sleep d t w) \<noteq> None)"

lemma closing_step_works:
  assumes "closing_step d s s'" "prompt_sleep d" "system_ok s" "ns = probe_counts s"
  shows "work_left ns s' < work_left ns s"
proof -
  have step: "sys_step d s s'" and more: "\<not> only_world s s'" and c: "cancelled d s" "cancelled d s'"
    using assms(1) by (auto simp: closing_step_def moves_def)
  have n: "length (su_runners (sy_sup s)) = length (sy_phase s)" using assms(3) by (simp add: system_ok_def)
  then have ns: "length ns = length (sy_phase s)" by (simp add: assms(4) probe_counts_nth)
  from step show ?thesis
  proof (cases rule: sys_step.cases)
    case (ask i)
    then show ?thesis using work_left_phase [OF _ ns, of i "sy_sup s" "Waiting (gate_ticket (su_gate (sy_sup s)))"] by simp
  next
    case (gate_cancelled i c e)
    then show ?thesis using work_left_phase [OF _ ns, of i "sy_sup s" Stopped] by simp
  next
    case (enter_round i c)
    then show ?thesis using work_left_phase [OF _ ns, of i "sy_sup s" "InRound 0 0"] by simp
  next
    case (probe i k weight weight' st)
    have "su_events st = su_events (sy_sup s)"
      using framed_run_probe [of i "(weight, sy_sup s)" d] probe(5) by (metis framed_def snd_conv)
    moreover have "k < ns ! i" using probe(2,4) n by (simp add: assms(4) probe_counts_nth)
    ultimately show ?thesis using work_left_phase [OF probe(2) ns, of st "InRound (Suc k) weight'"] probe(1,3) by simp
  next
    case (conclude i k weight snap st)
    have "su_events st = su_events (sy_sup s)"
      using framed_conclude [of i "sy_sup s" d weight] conclude(5) by (simp add: framed_def)
    moreover have "s' = set_phase i Stopped st s" using c(2) conclude(1) by (auto simp: cancelled_def)
    ultimately show ?thesis using work_left_phase [OF conclude(2) ns, of st Stopped] conclude(3) by simp
  next
  case (sleep_cancelled i snap delay e w)
    then show ?thesis using work_left_phase [OF _ ns, of i "set_world w (sy_sup s)" Stopped] by simp
  next
    case (sleep_alive i snap delay w)
    then show ?thesis using work_left_phase [OF _ ns, of i "set_world w (sy_sup s)" AtGate] by simp
  next
    case (sleep_dead i snap delay w)
    then show ?thesis using work_left_phase [OF _ ns, of i "exhaust i (set_world w (sy_sup s))" "Sending snap"] by simp
  next
    case (send i snap st)
    then have "su_events st = su_events (sy_sup s) @ [\<lparr>ev_Check = i, ev_Snapshot = snap\<rparr>]"
      by (auto simp: send_event_def split: if_splits)
    then show ?thesis
      using send phases_left_set [OF _ ns, of i AtGate] by (simp add: work_left_def) (simp add: set_phase_def)
  next
    case (send_cancelled i snap e)
    then show ?thesis using work_left_phase [OF _ ns, of i "sy_sup s" Stopped] by simp
  next
    case (take_notify e es st)
    then have "only_outside ((sy_sup s)\<lparr>su_events := es\<rparr>) st"
      using handle_notify [of e "(sy_sup s)\<lparr>su_events := es\<rparr>" d] by (auto simp: runner_check_def)
    then have "su_events st = es" using outside_fields by fastforce
    then show ?thesis using take_notify by (simp add: work_left_def)
  next
    case (take_restart e es)
    then show ?thesis by (simp add: work_left_def)
  next
    case (finish_restart i st)
    have "only_outside (sy_sup s) (restart_body d i (sy_sup s))" by (simp add: outside_intros)
    then have "su_events st = su_events (sy_sup s)"
      using resumeAll_fields [OF finish_restart(3)] outside_fields by fastforce
    then show ?thesis using finish_restart by (simp add: work_left_def)
  next
    case (handler_stops e)
    then show ?thesis by (simp add: work_left_def)
  next
    case (watch held docker held' st)
    obtain e w where sleep: "de_sleep d DockerAPIPoll (su_world (sy_sup s)) = (Some e, w)"
      using assms(2) c(1) unfolding prompt_sleep_def cancelled_def by (metis option.exhaust prod.collapse)
    with watch(4) have "held' = None" "su_events st = su_events (sy_sup s)"
      using resumeAll_fields by (fastforce simp: watch_turn_def Let_def split: if_splits)+
    then show ?thesis using watch by (simp add: work_left_def)
  next
    case (outside w)
    then show ?thesis using more by (auto simp: only_world_def)
  qed
qed

lemma closing_steps_bounded:
  assumes "(closing_step d ^^ k) s s'" "prompt_sleep d" "system_ok s" "ns = probe_counts s"
  shows "k + work_left ns s' \<le> work_left ns s \<and> system_ok s' \<and> ns = probe_counts s'"
  using assms(1)
proof (induction k arbitrary: s')
  case 0
  then show ?case using assms(3,4) by simp
next
  case (Suc k)
  then obtain u where "(closing_step d ^^ k) s u" and u: "closing_step d u s'" by auto
  from Suc.IH [OF this(1)] have ih: "k + work_left ns u \<le> work_left ns s" "system_ok u" "ns = probe_counts u" by blast+
  have "sys_step d u s'" using u by (simp add: closing_step_def moves_def)
  from system_ok_step [OF this ih(2)] statics_step [OF this] ih(3)
  have "system_ok s'" "ns = probe_counts s'" by (simp_all add: probe_counts_def)
  with ih(1) closing_step_works [OF u assms(2) ih(2,3)] show ?case by simp
qed

section \<open>Who can move\<close>

lemma movesI:
  assumes "sys_step d s s'"
    and "sy_phase s' \<noteq> sy_phase s \<or> sy_handler s' \<noteq> sy_handler s \<or> sy_watch s' \<noteq> sy_watch s \<or> sy_handled s' \<noteq> sy_handled s"
  shows "\<exists>s'. moves d s s'"
proof -
  have "\<not> only_world s s'" using assms(2) by (auto simp: only_world_def)
  with assms(1) show ?thesis unfolding moves_def by blast
qed

text \<open>A runner moves when its phase changes, the handler when it takes an event, ends a restart or returns.\<close>

definition runner_acts :: "'w deps \<Rightarrow> nat \<Rightarrow> 'w system \<Rightarrow> 'w system \<Rightarrow> bool" where
  "runner_acts d i s s' \<longleftrightarrow> sys_step d s s' \<and> sy_phase s' ! i \<noteq> sy_phase s ! i"

definition handler_acts :: "'w deps \<Rightarrow> 'w system \<Rightarrow> 'w system \<Rightarrow> bool" where
  "handler_acts d s s' \<longleftrightarrow> sys_step d s s' \<and> (sy_handled s' \<noteq> sy_handled s \<or> sy_handler s' \<noteq> sy_handler s)"

lemma runner_acts_moves: "\<exists>s'. runner_acts d i s s' \<Longrightarrow> \<exists>s'. moves d s s'"
  using movesI by (force simp: runner_acts_def)

lemma handler_acts_moves: "\<exists>s'. handler_acts d s s' \<Longrightarrow> \<exists>s'. moves d s s'"
  using movesI by (force simp: handler_acts_def)

lemma acts_phase:
  "sys_step d s (set_phase i p st s) \<Longrightarrow> i < length (sy_phase s) \<Longrightarrow> sy_phase s ! i \<noteq> p \<Longrightarrow> \<exists>s'. runner_acts d i s s'"
  by (rule exI [of _ "set_phase i p st s"]) (simp add: runner_acts_def)

lemma asks: "i < length (sy_phase s) \<Longrightarrow> sy_phase s ! i = AtGate \<Longrightarrow> \<exists>s'. runner_acts d i s s'"
  using acts_phase [OF sys_step.ask] by fastforce

lemma passes_gate:
  "i < length (sy_phase s) \<Longrightarrow> sy_phase s ! i = Waiting c \<Longrightarrow> recv_ready c (su_gate (sy_sup s)) \<Longrightarrow> \<exists>s'. runner_acts d i s s'"
  using acts_phase [OF sys_step.enter_round, of i s c d] by simp

lemma probes_on:
  assumes "i < length (sy_phase s)" "sy_phase s ! i = InRound k weight"
  shows "\<exists>s'. runner_acts d i s s'"
proof (cases "k < length (lc_Probes (runner_check i (sy_sup s)))")
  case True
  obtain w st where "run_probe d i (lc_Probes (runner_check i (sy_sup s)) ! k) (weight, sy_sup s) = (w, st)"
    by (cases "run_probe d i (lc_Probes (runner_check i (sy_sup s)) ! k) (weight, sy_sup s)")
  then show ?thesis using acts_phase [OF sys_step.probe [OF assms True]] assms by simp
next
  case False
  obtain snap st where "conclude_round d i weight (sy_sup s) = (snap, st)" by (cases "conclude_round d i weight (sy_sup s)")
  then show ?thesis using acts_phase [OF sys_step.conclude [OF assms]] False assms by simp
qed

lemma leaves_gate: "i < length (sy_phase s) \<Longrightarrow> sy_phase s ! i = Waiting c \<Longrightarrow> cancelled d s \<Longrightarrow> \<exists>s'. runner_acts d i s s'"
  using acts_phase [OF sys_step.gate_cancelled, of i s c d] by (auto simp: cancelled_def)

lemma wakes:
  assumes "i < length (sy_phase s)" "sy_phase s ! i = Sleeping snap" "round_delay d i snap (sy_sup s) = Some delay"
  shows "\<exists>s'. runner_acts d i s s'"
proof -
  obtain r w where sl: "de_sleep d delay (su_world (sy_sup s)) = (r, w)" by fastforce
  consider e where "r = Some e" | "r = None" "snapshot_dead snap" | "r = None" "\<not> snapshot_dead snap" by blast
  then show ?thesis
  proof cases
    case 1
    then show ?thesis using acts_phase [OF sys_step.sleep_cancelled [OF assms]] sl assms by simp
  next
    case 2
    then show ?thesis using acts_phase [OF sys_step.sleep_dead [OF assms(1,2) _ assms(3)]] sl assms by simp
  next
    case 3
    then show ?thesis using acts_phase [OF sys_step.sleep_alive [OF assms(1,2) _ assms(3)]] sl assms by simp
  qed
qed

lemma sends:
  "i < length (sy_phase s) \<Longrightarrow> sy_phase s ! i = Sending snap \<Longrightarrow>
     length (su_events (sy_sup s)) < su_capacity (sy_sup s) \<or> cancelled d s \<Longrightarrow> \<exists>s'. runner_acts d i s s'"
  using acts_phase [OF sys_step.send, of i s snap _ d] acts_phase [OF sys_step.send_cancelled, of i s snap d]
  by (auto simp: send_event_def cancelled_def)

lemma handler_takes:
  assumes "sy_handler s = Idle" "su_events (sy_sup s) = e # es"
  shows "\<exists>s'. handler_acts d s s'"
proof (cases "restarts_container (runner_check (ev_Check e) (sy_sup s))")
  case True
  from sys_step.take_restart [OF assms True] show ?thesis by (intro exI) (auto simp: handler_acts_def)
next
  case False
  then obtain st where "handle d e ((sy_sup s)\<lparr>su_events := es\<rparr>) = Some st"
    using handle_notify [of e "(sy_sup s)\<lparr>su_events := es\<rparr>" d] by (auto simp: runner_check_def)
  from sys_step.take_notify [OF assms False this] show ?thesis by (intro exI) (auto simp: handler_acts_def)
qed

lemma restart_ends:
  assumes "sy_handler s = Restarting i"
  shows "\<exists>s'. handler_acts d s s'"
proof -
  obtain st where "resumeAll (restart_body d i (sy_sup s)) = Some st" using resumeAll_Some by blast
  from sys_step.finish_restart [OF assms this] show ?thesis using assms by (intro exI) (auto simp: handler_acts_def)
qed

lemma handler_leaves: "sy_handler s = Idle \<Longrightarrow> cancelled d s \<Longrightarrow> \<exists>s'. handler_acts d s s'"
  using sys_step.handler_stops [of s d] by (intro exI [of _ "s\<lparr>sy_handler := HandlerStopped\<rparr>"]) (auto simp: cancelled_def handler_acts_def)

lemma watcher_leaves:
  assumes "sy_watch s = Watching held" "de_docker d \<noteq> None" "cancelled d s" "prompt_sleep d"
  shows "\<exists>s'. moves d s s'"
proof -
  obtain docker where k: "de_docker d = Some docker" using assms(2) by blast
  obtain e w where sl: "de_sleep d DockerAPIPoll (su_world (sy_sup s)) = (Some e, w)"
    using assms(3,4) unfolding prompt_sleep_def cancelled_def by (metis option.exhaust prod.collapse)
  obtain st where "watch_turn d docker held (sy_sup s) = Some (None, st)"
    using resumeAll_Some [of "set_world w (sy_sup s)"] by (cases held) (auto simp: watch_turn_def sl)
  from sys_step.watch [OF assms(1) k this] show ?thesis by (rule movesI) (simp add: assms(1))
qed

text \<open>There is a watcher only with a Docker API.\<close>

lemma watcher_has_api:
  assumes "reachable d st s" "sy_watch s = Watching held"
  shows "de_docker d \<noteq> None"
  using assms
proof (induction arbitrary: held)
  case reach_start
  then show ?case by (auto simp: system_start_def split: if_splits)
next
  case (reach_step s s')
  from reach_step(2) show ?case
    by (cases rule: sys_step.cases) (use reach_step.IH reach_step.prems in \<open>auto simp: set_phase_def\<close>)
qed

text \<open>The state Run is called in, for the checks the supervisor was made of, and checks whose pause can
  always be drawn.\<close>

definition launched :: "'w live_check list \<Rightarrow> 'w deps \<Rightarrow> 'w sup \<Rightarrow> bool" where
  "launched checks d st \<longleftrightarrow> system_ok (system_start d st) \<and> su_capacity st = length checks \<and>
     statics st = map (\<lambda>c. (bare c, max 1 (ck_Threshold c))) checks"

definition drawable :: "'w live_check list \<Rightarrow> 'w deps \<Rightarrow> bool" where
  "drawable checks d \<longleftrightarrow> (\<forall>c \<in> set checks. \<forall>w. interval_pick (de_rand d w) (ck_Interval c) \<noteq> None)"

lemma launched_new:
  "supervisor_new checks (Some m) (Some store) w = Some (Inr st) \<Longrightarrow> list_all check_ok checks \<Longrightarrow> launched checks d st"
  using supervisor_new_ok [of checks m store w st d] by (simp add: launched_def)

lemma interval_drawable:
  assumes "list_all (\<lambda>c. interval_ok (ck_Interval c)) checks" "\<And>w n. 0 < n \<Longrightarrow> 0 \<le> de_rand d w n \<and> de_rand d w n < n"
  shows "drawable checks d"
proof -
  have "interval_pick (de_rand d w) (ck_Interval c) \<noteq> None" if "c \<in> set checks" for c w
  proof (cases "iv_Max (ck_Interval c) \<le> iv_Min (ck_Interval c)")
    case True
    then show ?thesis by (simp add: interval_pick_def)
  next
    case False
    then show ?thesis
      using pick_in_window [of "de_rand d w" "ck_Interval c"] assms that
      by (fastforce simp: interval_ok_def list_all_iff in64_def)
  qed
  then show ?thesis by (simp add: drawable_def)
qed

lemma run_facts:
  assumes "launched checks d st" "reachable d st s"
  shows "system_ok s" "su_capacity (sy_sup s) = length checks" "length (sy_phase s) = length checks"
proof -
  show r: "system_ok s" "su_capacity (sy_sup s) = length checks"
    using reachable_invariant [OF assms(2)] assms(1) by (simp_all add: launched_def)
  have "statics (sy_sup s) = map (\<lambda>c. (bare c, max 1 (ck_Threshold c))) checks"
    using reachable_invariant [OF assms(2)] assms(1) by (simp add: launched_def)
  from arg_cong [OF this, of length] r(1) show "length (sy_phase s) = length checks"
    by (simp add: statics_def system_ok_def)
qed

lemma sleepers_wake:
  assumes "launched checks d st" "drawable checks d" "reachable d st s" "i < length (sy_phase s)" "sy_phase s ! i = Sleeping snap"
  shows "\<exists>s'. runner_acts d i s s'"
proof -
  have i: "i < length checks" using assms(4) run_facts(3) [OF assms(1,3)] by simp
  then have "interval_pick (de_rand d (su_world (sy_sup s))) (ck_Interval (checks ! i)) \<noteq> None"
    using assms(2) by (simp add: drawable_def)
  then obtain delay where "round_delay d i snap (sy_sup s) = Some delay"
    using check_stays [OF _ assms(3) i] assms(1) by (auto simp: launched_def round_delay_def)
  from wakes [OF assms(4,5) this] show ?thesis .
qed

text \<open>Run returns when it is told to stop: a bounded number of moves, one possible until the last goroutine
  has returned, the gate open then.\<close>

lemma cancelled_run_ends:
  assumes "launched checks d st" "drawable checks d" "prompt_sleep d" "reachable d st s" "cancelled d s"
  shows "((closing_step d ^^ k) s s' \<longrightarrow> k \<le> 9 * length checks + sum_list (map (\<lambda>c. length (lc_Probes c)) checks) + 3) \<and>
    (finished s \<or> (\<exists>s'. moves d s s')) \<and>
    (finished s \<longrightarrow> \<not> gate_paused (su_gate (sy_sup s)))"
proof (intro conjI impI)
  note r = run_facts [OF assms(1,4)]
  note len = r(3)
  have "probe_counts s = map (\<lambda>c. length (lc_Probes c)) checks"
    using reachable_invariant [OF assms(4)] assms(1) by (simp add: launched_def probe_counts_def comp_def bare_def)
  then show "k \<le> 9 * length checks + sum_list (map (\<lambda>c. length (lc_Probes c)) checks) + 3" if "(closing_step d ^^ k) s s'"
    using closing_steps_bounded [OF that assms(3) r(1) refl] work_left_bound [OF r(1), of "probe_counts s"] r(2) len by fastforce
  show "\<not> gate_paused (su_gate (sy_sup s))" if "finished s"
    using r(1) that by (auto simp: system_ok_def gate_owned_def finished_def)
  show "finished s \<or> (\<exists>s'. moves d s s')"
  proof (cases "\<exists>i < length checks. sy_phase s ! i \<noteq> Stopped")
    case True
    then obtain i where i: "i < length (sy_phase s)" "sy_phase s ! i \<noteq> Stopped" using len by auto
    have "\<exists>s'. moves d s s'"
    proof (cases "sy_phase s ! i")
      case AtGate
      with asks runner_acts_moves i show ?thesis by blast
    next
      case (Waiting c)
      with leaves_gate runner_acts_moves i assms(5) show ?thesis by blast
    next
      case (InRound n weight)
      with probes_on runner_acts_moves i show ?thesis by blast
    next
      case (Sleeping snap)
      with runner_acts_moves [OF sleepers_wake [OF assms(1,2,4)]] i show ?thesis by blast
    next
      case (Sending snap)
      with sends runner_acts_moves i assms(5) show ?thesis by blast
    qed (use i in simp)
    then show ?thesis ..
  next
    case False
    then have p: "list_all (\<lambda>p. p = Stopped) (sy_phase s)" using len by (auto simp: list_all_length)
    consider i where "sy_handler s = Restarting i" | "sy_handler s = Idle" | held where "sy_watch s = Watching held"
      | "finished s"
      using p by (cases "sy_handler s"; cases "sy_watch s") (auto simp: finished_def)
    then show ?thesis
      using handler_acts_moves [OF restart_ends] handler_acts_moves [OF handler_leaves [OF _ assms(5)]] watcher_leaves [OF _ watcher_has_api [OF assms(4)] assms(5,3)]
      by cases blast+
  qed
qed

section \<open>Properties\<close>

text \<open>C8. Nothing but an outage of the Docker API stalls the checks: in every reachable state some goroutine
  can move, unless every runner has returned or waits at the gate, which the watcher holds closed, the
  queue is empty and no restart is under way. So a full queue, a sleeping runner or a restart never
  blocks the others for good. (The handler returns only when the context is done, which it stays.)\<close>

theorem only_an_outage_stalls_the_checks:
  assumes "supervisor_new checks (Some m) (Some store) w = Some (Inr st)" "list_all check_ok checks"
    and "list_all (\<lambda>c. interval_ok (ck_Interval c)) checks"
    and "\<And>w n. 0 < n \<Longrightarrow> 0 \<le> de_rand d w n \<and> de_rand d w n < n"
    and "reachable d st s" "sy_handler s = HandlerStopped \<Longrightarrow> cancelled d s"
  shows "(\<exists>s'. moves d s s') \<or>
    list_all (\<lambda>p. case p of
        Waiting c \<Rightarrow> sy_watch s = Watching True \<and> gate_paused (su_gate (sy_sup s))
      | Stopped \<Rightarrow> True | _ \<Rightarrow> False) (sy_phase s) \<and>
    (sy_handler s = Idle \<and> su_events (sy_sup s) = [] \<or> sy_handler s = HandlerStopped)"
proof (cases "\<exists>s'. moves d s s'")
  case stuck: False
  note launch = launched_new [OF assms(1,2)] interval_drawable [OF assms(3,4)]
  note r = run_facts [OF launch(1) assms(5)]
  note len = r(3)
  have quiet: "\<forall>i. sy_handler s \<noteq> Restarting i" using stuck handler_acts_moves [OF restart_ends] by blast
  have idle: "su_events (sy_sup s) = []" if "sy_handler s = Idle"
    using stuck handler_acts_moves [OF handler_takes [OF that]] by (metis neq_Nil_conv)
  have "case sy_phase s ! i of Waiting c \<Rightarrow> sy_watch s = Watching True \<and> gate_paused (su_gate (sy_sup s))
      | Stopped \<Rightarrow> True | _ \<Rightarrow> False" if i: "i < length (sy_phase s)" for i
  proof (cases "sy_phase s ! i")
    case AtGate
    with asks runner_acts_moves i stuck show ?thesis by blast
  next
    case (Waiting c)
    then have "\<not> recv_ready c (su_gate (sy_sup s))" using passes_gate runner_acts_moves i stuck by blast
    moreover have "gate_issued c (su_gate (sy_sup s))" using r(1) i Waiting by (force simp: system_ok_def phase_ok_def)
    ultimately have "gate_paused (su_gate (sy_sup s))"
      using gate_ok_issued [of "su_gate (sy_sup s)" c] r(1) by (auto simp: system_ok_def sup_ok_def gate_paused_def)
    with r(1) quiet Waiting show ?thesis by (auto simp: system_ok_def gate_owned_def)
  next
    case (InRound n weight)
    with probes_on runner_acts_moves i stuck show ?thesis by blast
  next
    case (Sleeping snap)
    with runner_acts_moves [OF sleepers_wake [OF launch assms(5)]] i stuck show ?thesis by blast
  next
    case (Sending snap)
    with sends [of i s snap d] runner_acts_moves [of d i s] i stuck have "su_capacity (sy_sup s) \<le> length (su_events (sy_sup s))" "\<not> cancelled d s"
      by (metis not_le)+
    with quiet idle i r(2) len assms(6) show ?thesis by (cases "sy_handler s") auto
  qed simp
  then have "list_all (\<lambda>p. case p of Waiting c \<Rightarrow> sy_watch s = Watching True \<and> gate_paused (su_gate (sy_sup s))
      | Stopped \<Rightarrow> True | _ \<Rightarrow> False) (sy_phase s)" by (simp add: list_all_length)
  moreover have "sy_handler s = Idle \<and> su_events (sy_sup s) = [] \<or> sy_handler s = HandlerStopped"
    using quiet idle by (cases "sy_handler s") auto
  ultimately show ?thesis by simp
qed simp

section \<open>Witness\<close>

theorem only_an_outage_stalls_the_checks_witness:
  "\<exists>s'. moves demo_deps (demo_waiting ''nginx-mailcow'') s'"
  using only_an_outage_stalls_the_checks [OF demo_new demo_check_ok _ _ demo_waiting_reachable, of "''nginx-mailcow''"]
  by (auto simp: in64_def interval_ok_def demo_check_def demo_deps_def demo_waiting_def set_phase_def system_start_def)

end
