(* ===== verification/Ending.thy ===== *)
theory Ending
  imports Startup Shutdown
begin

text \<open>
  From the environment to the exit: what main started, told to stop, comes to an end. The checks are
  those of the registry, so nothing is assumed of them but what the configuration leaves open.
\<close>

section \<open>The pauses of the registry's checks can be drawn\<close>

lemma Build_drawable:
  assumes "cd_Config d = Some cfg" "Build d = Inr checks" "in64 (cf_CheckInterval cfg)"
    and "\<And>w n. 0 < n \<Longrightarrow> 0 \<le> de_rand deps w n \<and> de_rand deps w n < n"
  shows "drawable checks deps"
proof -
  let ?w = "Intervals (cf_CheckInterval cfg)"
  have pick: "interval_pick (de_rand deps w) (wi_Standard ?w) \<noteq> None" "interval_pick (de_rand deps w) (wi_Clamd ?w) \<noteq> None"
    "interval_pick (de_rand deps w) (wi_External ?w) \<noteq> None" "interval_pick (de_rand deps w) (wi_Cert ?w) \<noteq> None" for w
    using windows_pick [of "de_rand deps w", OF assms(4,3) refl] by auto
  have "interval_pick (de_rand deps w) (ck_Interval c) \<noteq> None" if "c \<in> set checks" for c w
  proof -
    have "described_ok cfg c" using Build_described_ok [OF assms(1,2)] that by (simp add: list_all_iff)
    then have "ck_Interval c \<in> {wi_Standard ?w, wi_Clamd ?w, wi_External ?w, wi_Cert ?w}"
      unfolding described_ok_def by blast
    with pick [of w] show ?thesis by auto
  qed
  then show ?thesis unfolding drawable_def by blast
qed

section \<open>What main launches\<close>

lemma started_launched:
  assumes "run_watchdog pf version date e = Some (Supervising d st closers r)"
    and "\<And>cfg. Load (pf_golib pf) (pf_environment pf) = Inr cfg \<Longrightarrow> in64 (cf_CheckInterval cfg) \<and>
      list_all (\<lambda>(name, spec). sp_Threshold spec \<le> max_int64 - 1000000) (checks_all (cf_Checks cfg))"
    and "\<And>w n. 0 < n \<Longrightarrow> 0 \<le> pf_rand pf w n \<and> pf_rand pf w n < n"
  shows "\<exists>checks cfg deps. d = watch_deps pf cfg deps \<and> launched checks d st \<and> drawable checks d \<and>
    length checks = length (su_runners st) \<and> list_all (\<lambda>c. length (lc_Probes c) \<le> 5) checks"
proof -
  obtain cfg e1 where load: "Load (pf_golib pf) (pf_environment pf) = Inr cfg"
    and run: "start_up pf cfg version date fresh_readiness e1 = Some (Supervising d st closers r)"
    using run_supervises [OF assms(1)] by blast
  obtain deps checks st0 e2 where d: "d = watch_deps pf cfg deps" and built: "Build (checks_from pf cfg deps) = Inr checks"
      "supervisor_new checks (Some (metrics_new version date)) (Some (de_store d)) (initial_watch e2) = Some (Inr st0)"
      "only_outside st0 st"
    using start_up_supervises [OF run] by blast
  have cfg: "cd_Config (checks_from pf cfg deps) = Some cfg" by (simp add: checks_from_def)
  have ok: "list_all check_ok checks" using Build_check_ok [OF cfg built(1)] assms(2) [OF load] by blast
  note new = supervisor_new_ok [OF built(2) ok, of d]
  have "system_ok (system_start d st)" "statics st = statics st0"
    using system_start_outside [OF built(3), of d "exhaustions (metrics_new version date)"] new by auto
  moreover have "su_capacity st = su_capacity st0" "su_runners st = su_runners st0"
    using built(3) by (auto simp: only_outside_def)
  moreover have "length (su_runners st0) = length checks"
    using built(2) by (auto simp: supervisor_new_def split: if_splits)
  moreover have "drawable checks d"
    by (rule Build_drawable [OF cfg built(1)]) (use assms(2) [OF load] assms(3) in \<open>auto simp: d watch_deps_def\<close>)
  moreover have "list_all (\<lambda>c. length (lc_Probes c) \<le> 5) checks"
    using Build_described_ok [OF cfg built(1)] by (auto simp: list_all_iff described_ok_def)
  ultimately show ?thesis using new d by (intro exI [of _ checks] exI [of _ cfg] exI [of _ deps]) (simp add: launched_def)
qed

section \<open>Properties\<close>

text \<open>C7. A watchdog that is told to stop comes to an end: whatever main started, once the context is
  done in a reachable state and as long as it stays so, its goroutines make at most fourteen moves
  per check and three more, and as long as one of them has not returned there is a move to make; so Run
  returns, with the gate open. The platform's part is that a draw lies in its range and that a pause
  ends at once when the context is done.\<close>

theorem started_watchdog_stops:
  assumes "run_watchdog pf version date e = Some (Supervising d st closers r)"
    and "\<And>cfg. Load (pf_golib pf) (pf_environment pf) = Inr cfg \<Longrightarrow> in64 (cf_CheckInterval cfg) \<and>
      list_all (\<lambda>(name, spec). sp_Threshold spec \<le> max_int64 - 1000000) (checks_all (cf_Checks cfg))"
    and "\<And>w n. 0 < n \<Longrightarrow> 0 \<le> pf_rand pf w n \<and> pf_rand pf w n < n"
    and "\<And>t w. pf_ctx pf w \<noteq> None \<Longrightarrow> fst (pf_pause pf t w) \<noteq> None"
    and "reachable d st s" "pf_ctx pf (wo_env (su_world (sy_sup s))) \<noteq> None"
  shows "((closing_step d ^^ k) s s' \<longrightarrow> k \<le> 14 * length (su_runners st) + 3) \<and>
    (finished s \<or> (\<exists>s'. moves d s s')) \<and>
    (finished s \<longrightarrow> \<not> gate_paused (su_gate (sy_sup s)))"
proof -
  obtain checks cfg deps where l: "d = watch_deps pf cfg deps" "launched checks d st" "drawable checks d"
      "length checks = length (su_runners st)" "list_all (\<lambda>c. length (lc_Probes c) \<le> 5) checks"
    using started_launched [OF assms(1-3)] by blast
  have "fst (de_sleep d t w) = fst (pf_pause pf t (wo_env w))" "de_ctx d w = pf_ctx pf (wo_env w)" for t w
    by (simp_all add: l(1) watch_deps_def on_env_def case_prod_beta)
  then have "prompt_sleep d" using assms(4) by (simp add: prompt_sleep_def)
  moreover have "sum_list (map (\<lambda>c. length (lc_Probes c)) checks) \<le> 5 * length checks"
    using l(5) by (induction checks) auto
  moreover have "cancelled d s" using assms(6) by (simp add: cancelled_def l(1) watch_deps_def)
  ultimately show ?thesis using cancelled_run_ends [OF l(2,3) _ assms(5)] l(4) by fastforce
qed

section \<open>Witness\<close>

text \<open>The world says whether the signal has come, which it does after the start.\<close>

theorem started_watchdog_stops_witness:
  "\<exists>d st closers r s. run_watchdog (demo_platform id False) ''dev'' ''unknown'' False = Some (Supervising d st closers r) \<and>
     reachable d st s \<and> wo_env (su_world (sy_sup s)) \<and> (finished s \<or> (\<exists>s'. moves d s s'))"
proof -
  let ?pf = "demo_platform id False"
  obtain d st closers r where run: "run_watchdog ?pf ''dev'' ''unknown'' False = Some (Supervising d st closers r)"
    using demo_supervises [of id False] by auto
  let ?s = "(system_start d st)\<lparr>sy_sup := set_world ((su_world st)\<lparr>wo_env := True\<rparr>) st\<rparr>"
  have "sys_step d (system_start d st) ?s"
    using sys_step.outside [of d "system_start d st" "(su_world st)\<lparr>wo_env := True\<rparr>"] by (simp add: system_start_def)
  then have reach: "reachable d st ?s" by (rule reach_step [OF reach_start])
  have "in64 (cf_CheckInterval demo_config)" by code_simp
  then have cfg: "in64 (cf_CheckInterval cfg) \<and>
      list_all (\<lambda>(name, spec). sp_Threshold spec \<le> max_int64 - 1000000) (checks_all (cf_Checks cfg))"
    if "Load (pf_golib ?pf) (pf_environment ?pf) = Inr cfg" for cfg
    using that demo_config_facts(4) unfolding demo_loads by simp
  have "finished ?s \<or> (\<exists>s'. moves d ?s s')"
    using started_watchdog_stops [OF run cfg _ _ reach] by (auto simp: demo_platform_def set_world_def)
  with run reach show ?thesis by (intro exI [of _ d] exI [of _ st] exI [of _ closers] exI [of _ r] exI [of _ ?s]) (simp add: set_world_def)
qed

end
