(* ===== verification/Fair_Runs.thy ===== *)
theory Fair_Runs
  imports Shutdown
begin

text \<open>
  Infinite runs of the concurrent program under a fair scheduler, and what must happen in them: the
  event of a spent budget reaches the handler. A goroutine is treated fairly when it moves again and
  again unless from some time on it cannot move at all; a sender blocked on a full queue needs this
  strong form, since the queue may fill up again before it is its turn.
\<close>

section \<open>Fairness\<close>

definition strongly_fair :: "('s \<Rightarrow> 's \<Rightarrow> bool) \<Rightarrow> (nat \<Rightarrow> 's) \<Rightarrow> bool" where
  "strongly_fair act f \<longleftrightarrow>
     (\<forall>n. \<exists>m \<ge> n. \<exists>s'. act (f m) s') \<longrightarrow> (\<forall>n. \<exists>m \<ge> n. act (f m) (f (Suc m)))"

text \<open>What holds until the goal is reached, and enables the action often enough for its fairness to
  reach the goal.\<close>

lemma fair_leads_to:
  assumes "strongly_fair act f" "P n"
    and "\<And>m. n \<le> m \<Longrightarrow> P m \<Longrightarrow> P (Suc m) \<or> Q (Suc m)"
    and "\<And>m. n \<le> m \<Longrightarrow> P m \<Longrightarrow> act (f m) (f (Suc m)) \<Longrightarrow> Q (Suc m)"
    and "(\<And>m. n \<le> m \<Longrightarrow> P m) \<Longrightarrow> \<forall>k \<ge> n. \<exists>m \<ge> k. \<exists>s'. act (f m) s'"
  shows "\<exists>m > n. Q m"
proof (rule ccontr)
  assume no: "\<not> (\<exists>m > n. Q m)"
  have P: "P m" if "n \<le> m" for m
    using that
  proof (induction rule: dec_induct)
    case (step m)
    with assms(3) no show ?case by (metis le_imp_less_Suc)
  qed (rule assms(2))
  have "\<forall>k. \<exists>m \<ge> k. \<exists>s'. act (f m) s'"
    using assms(5) [OF P] by (meson le_trans nle_le)
  then obtain m where "n \<le> m" "act (f m) (f (Suc m))" using assms(1) unfolding strongly_fair_def by blast
  with assms(4) P no show False by (metis le_imp_less_Suc)
qed

section \<open>What a step does to the queue and to a runner\<close>

lemma events_framed: "framed i st st' \<Longrightarrow> su_events st' = su_events st"
  by (simp add: framed_def)

lemma handler_cases:
  assumes "sys_step d s s'"
  obtains (others) es where "sy_handled s' = sy_handled s" "sy_handler s' = sy_handler s"
      "su_events (sy_sup s') = su_events (sy_sup s) @ es"
  | (takes) e where "sy_handler s = Idle" "su_events (sy_sup s) = e # su_events (sy_sup s')"
      "sy_handled s' = sy_handled s @ [e]" "sy_handler s' \<noteq> HandlerStopped"
  | (ends) i where "sy_handler s = Restarting i" "sy_handler s' = Idle" "sy_handled s' = sy_handled s"
      "su_events (sy_sup s') = su_events (sy_sup s)" "\<not> gate_paused (su_gate (sy_sup s'))"
  | (stops) "cancelled d s" "sy_handler s' = HandlerStopped"
  using assms
proof (cases rule: sys_step.cases)
  case (probe i k weight weight' st)
  have "framed i (sy_sup s) st" using framed_run_probe [of i "(weight, sy_sup s)" d] probe(5) by (metis snd_conv)
  with events_framed [OF this] probe show ?thesis by (intro others [of "[]"]) (simp_all add: set_phase_def)
next
  case (conclude i k weight snap st)
  with events_framed [OF framed_conclude [of i "sy_sup s" d weight]] show ?thesis
    by (intro others [of "[]"]) (simp_all add: set_phase_def)
next
  case (send i snap st)
  then show ?thesis by (intro others) (auto simp: set_phase_def send_event_def split: if_splits)
next
  case (take_notify e es st)
  then have "only_outside ((sy_sup s)\<lparr>su_events := es\<rparr>) st"
    using handle_notify [of e "(sy_sup s)\<lparr>su_events := es\<rparr>" d] by (auto simp: runner_check_def)
  from outside_fields [OF this] take_notify show ?thesis by (intro takes [of e]) simp_all
next
  case (take_restart e es)
  then show ?thesis by (intro takes [of e]) simp_all
next
  case (finish_restart i st)
  have "only_outside (sy_sup s) (restart_body d i (sy_sup s))" by (simp add: outside_intros)
  from outside_fields [OF this] resumeAll_fields [OF finish_restart(3)] gate_resume_open finish_restart
  show ?thesis by (intro ends [of i]) auto
next
  case (handler_stops e)
  then show ?thesis by (intro stops) (simp_all add: cancelled_def)
next
  case (watch held docker held' st)
  from watch(4) have "su_events st = su_events (sy_sup s)"
  proof (cases rule: watch_turn_cases)
    case (recovered w u)
    then show ?thesis using resumeAll_fields [OF recovered(3)] by (simp add: healAll_def)
  qed (auto dest!: resumeAll_fields)
  then show ?thesis using watch by (intro others [of "[]"]) simp_all
qed (auto intro!: others [of "[]"] simp: set_phase_def)

text \<open>What makes a runner leave its phase: a sleeper with a spent budget goes on to report it, a reporter
  puts its event at the end of the queue, and both stop only when the context is done.\<close>

lemma phase_changes:
  assumes "sys_step d s s'" "i < length (sy_phase s)" "sy_phase s' ! i \<noteq> sy_phase s ! i"
  obtains (ask) "sy_phase s ! i = AtGate"
  | (enter) c where "sy_phase s ! i = Waiting c"
  | (round) k weight where "sy_phase s ! i = InRound k weight"
  | (asleep) snap delay r w where "sy_phase s ! i = Sleeping snap" "de_sleep d delay (su_world (sy_sup s)) = (r, w)"
      "su_world (sy_sup s') = w" "r = None" "snapshot_dead snap \<Longrightarrow> sy_phase s' ! i = Sending snap"
  | (broken) snap delay e w where "sy_phase s ! i = Sleeping snap" "de_sleep d delay (su_world (sy_sup s)) = (Some e, w)"
      "su_world (sy_sup s') = w"
  | (sends) snap where "sy_phase s ! i = Sending snap"
      "su_events (sy_sup s') = su_events (sy_sup s) @ [\<lparr>ev_Check = i, ev_Snapshot = snap\<rparr>]" "sy_handled s' = sy_handled s"
  | (leaves) snap where "sy_phase s ! i = Sending snap" "cancelled d s"
proof -
  have at: "i = j" if "s' = set_phase j p st s" for j p st
    using assms(3) that by (cases "j = i") (simp_all add: set_phase_def)
  from assms(1) show thesis
  proof (cases rule: sys_step.cases)
    case (sleep_cancelled j snap delay e w)
    then show ?thesis using at [OF sleep_cancelled(1)] by (intro broken [of snap delay e w]) simp_all
  next
    case (sleep_alive j snap delay w)
    then show ?thesis using at [OF sleep_alive(1)] by (intro asleep [of snap delay None w]) simp_all
  next
    case (sleep_dead j snap delay w)
    then show ?thesis using at [OF sleep_dead(1)] by (intro asleep [of snap delay None w]) (simp_all add: exhaust_def Let_def)
  next
    case (send j snap st)
    then show ?thesis using at [OF send(1)] by (intro sends) (auto simp: send_event_def set_phase_def split: if_splits)
  next
    case (send_cancelled j snap e)
    then show ?thesis using at [OF send_cancelled(1)] by (intro leaves) (simp_all add: cancelled_def)
  qed (use assms(2,3) at ask enter round in auto)
qed

lemma phases_stay: "sys_step d s s' \<Longrightarrow> length (sy_phase s') = length (sy_phase s)"
  by (cases rule: sys_step.cases) (auto simp: set_phase_def)

section \<open>Fair runs of the watchdog\<close>

definition watcher_acts :: "'w deps \<Rightarrow> 'w system \<Rightarrow> 'w system \<Rightarrow> bool" where
  "watcher_acts d s s' \<longleftrightarrow> sys_step d s s' \<and> sy_watch s' \<noteq> sy_watch s"

definition fair_run :: "'w deps \<Rightarrow> 'w sup \<Rightarrow> (nat \<Rightarrow> 'w system) \<Rightarrow> bool" where
  "fair_run d st f \<longleftrightarrow> f 0 = system_start d st \<and> (\<forall>n. sys_step d (f n) (f (Suc n))) \<and>
     strongly_fair (handler_acts d) f \<and> strongly_fair (watcher_acts d) f \<and> (\<forall>i. strongly_fair (runner_acts d i) f)"

text \<open>A sleep is cut short only when the context is done, as in Realtime.\<close>

definition honest_sleep :: "'w deps \<Rightarrow> bool" where
  "honest_sleep d \<longleftrightarrow> (\<forall>t w e w'. de_sleep d t w = (Some e, w') \<longrightarrow> de_ctx d w' \<noteq> None)"

definition history :: "'w system \<Rightarrow> event list" where
  "history s = sy_handled s @ su_events (sy_sup s)"

text \<open>A fair run in which nobody tells the watchdog to stop.\<close>

definition good_run :: "'w live_check list \<Rightarrow> 'w deps \<Rightarrow> 'w sup \<Rightarrow> (nat \<Rightarrow> 'w system) \<Rightarrow> bool" where
  "good_run checks d st f \<longleftrightarrow> launched checks d st \<and> drawable checks d \<and> honest_sleep d \<and>
     fair_run d st f \<and> (\<forall>n. \<not> cancelled d (f n))"

lemma good_step: "good_run checks d st f \<Longrightarrow> sys_step d (f n) (f (Suc n))"
  by (simp add: good_run_def fair_run_def)

lemma good_on: "good_run checks d st f \<Longrightarrow> \<not> cancelled d (f n)"
  by (simp add: good_run_def)

lemma fair_reachable:
  assumes "fair_run d st f"
  shows "reachable d st (f n)"
proof (induction n)
  case 0
  then show ?case using assms by (simp add: fair_run_def reach_start)
next
  case (Suc n)
  have "sys_step d (f n) (f (Suc n))" using assms by (simp add: fair_run_def)
  with Suc show ?case by (rule reach_step)
qed

lemma good_reachable: "good_run checks d st f \<Longrightarrow> reachable d st (f n)"
  by (simp add: good_run_def fair_reachable)

lemma good_facts:
  assumes "good_run checks d st f"
  shows "system_ok (f n)" "su_capacity (sy_sup (f n)) = length checks" "length (sy_phase (f n)) = length checks"
  using run_facts [OF _ good_reachable [OF assms], of checks] assms by (auto simp: good_run_def)

lemma never_stopped:
  assumes "good_run checks d st f"
  shows "sy_handler (f n) \<noteq> HandlerStopped"
proof (induction n)
  case 0
  then show ?case using assms by (simp add: good_run_def fair_run_def system_start_def)
next
  case (Suc n)
  from good_step [OF assms, of n] show ?case
    by (cases rule: handler_cases) (use Suc good_on [OF assms, of n] in auto)
qed

lemma history_grows:
  assumes "good_run checks d st f" "n \<le> m"
  shows "prefix (history (f n)) (history (f m)) \<and> prefix (sy_handled (f n)) (sy_handled (f m))"
  using assms(2)
proof (induction rule: dec_induct)
  case (step m)
  from good_step [OF assms(1), of m]
  have "prefix (history (f m)) (history (f (Suc m))) \<and> prefix (sy_handled (f m)) (sy_handled (f (Suc m)))"
    by (cases rule: handler_cases) (use good_on [OF assms(1), of m] never_stopped [OF assms(1)] in \<open>auto simp: history_def\<close>)
  with step.IH show ?case by (meson prefix_order.trans)
qed simp

section \<open>The handler takes every event\<close>

text \<open>Moves of the handler to go until the event with this index is taken.\<close>

definition moves_to :: "nat \<Rightarrow> 'w system \<Rightarrow> nat" where
  "moves_to N s = 2 * (Suc N - length (sy_handled s)) + (case sy_handler s of Restarting i \<Rightarrow> 1 | _ \<Rightarrow> 0)"

lemma moves_to_step:
  assumes "sys_step d s s'" "\<not> cancelled d s" "length (sy_handled s) \<le> N" "N < length (history s)"
  shows "N < length (history s') \<and>
    (moves_to N s' < moves_to N s \<or>
     sy_handled s' = sy_handled s \<and> sy_handler s' = sy_handler s \<and> moves_to N s' = moves_to N s)"
  using assms(1)
proof (cases rule: handler_cases)
  case (takes e)
  then have "Suc N - length (sy_handled s') < Suc N - length (sy_handled s)" using assms(3) by simp
  then show ?thesis using takes assms(4) by (auto simp: moves_to_def history_def split: handling.splits)
qed (use assms in \<open>auto simp: moves_to_def history_def split: handling.splits\<close>)

lemma handler_can:
  assumes "sy_handler s \<noteq> HandlerStopped" "length (sy_handled s) \<le> N" "N < length (history s)"
  shows "\<exists>s'. handler_acts d s s'"
proof (cases "sy_handler s")
  case Idle
  have "su_events (sy_sup s) \<noteq> []" using assms(2,3) by (auto simp: history_def)
  with handler_takes [OF Idle] show ?thesis by (cases "su_events (sy_sup s)") auto
qed (use assms(1) restart_ends in auto)

lemma queue_drains:
  assumes "good_run checks d st f" "N < length (history (f n))"
  shows "\<exists>m \<ge> n. N < length (sy_handled (f m))"
  using assms(2)
proof (induction "moves_to N (f n)" arbitrary: n rule: less_induct)
  case less
  show ?case
  proof (cases "N < length (sy_handled (f n))")
    case False
    let ?P = "\<lambda>m. length (sy_handled (f m)) \<le> N \<and> N < length (history (f m)) \<and> moves_to N (f m) = moves_to N (f n)"
    let ?Q = "\<lambda>m. N < length (history (f m)) \<and> moves_to N (f m) < moves_to N (f n)"
    have "\<exists>m > n. ?Q m"
    proof (rule fair_leads_to [where P = ?P and act = "handler_acts d" and f = f])
      show "strongly_fair (handler_acts d) f" using assms(1) by (simp add: good_run_def fair_run_def)
      show "?P n" using False less.prems by simp
    next
      fix m
      assume P: "?P m"
      note s = moves_to_step [OF good_step [OF assms(1)] good_on [OF assms(1)], of m N]
      show "?P (Suc m) \<or> ?Q (Suc m)" using s P by auto
      show "?Q (Suc m)" if "handler_acts d (f m) (f (Suc m))" using s P that by (auto simp: handler_acts_def)
    next
      assume "\<And>m. n \<le> m \<Longrightarrow> ?P m"
      then show "\<forall>k \<ge> n. \<exists>m \<ge> k. \<exists>s'. handler_acts d (f m) s'"
        using handler_can never_stopped [OF assms(1)] by blast
    qed
    then obtain m where "n < m" "?Q m" by blast
    with less.hyps [of m] obtain m' where "m \<le> m'" "N < length (sy_handled (f m'))" by blast
    with \<open>n < m\<close> show ?thesis by (meson le_trans less_imp_le)
  qed blast
qed

lemma handler_rests:
  assumes "good_run checks d st f"
  shows "\<exists>m \<ge> n. sy_handler (f m) = Idle"
proof (cases "sy_handler (f n)")
  case (Restarting i)
  have "\<exists>m > n. sy_handler (f m) = Idle"
  proof (rule fair_leads_to [where P = "\<lambda>m. sy_handler (f m) = Restarting i" and act = "handler_acts d" and f = f])
    show "strongly_fair (handler_acts d) f" using assms by (simp add: good_run_def fair_run_def)
    show "sy_handler (f n) = Restarting i" by (rule Restarting)
  next
    fix m
    assume P: "sy_handler (f m) = Restarting i"
    from good_step [OF assms, of m]
    show "sy_handler (f (Suc m)) = Restarting i \<or> sy_handler (f (Suc m)) = Idle"
      by (cases rule: handler_cases) (use P never_stopped [OF assms, of "Suc m"] in auto)
    assume act: "handler_acts d (f m) (f (Suc m))"
    from good_step [OF assms, of m] show "sy_handler (f (Suc m)) = Idle"
      by (cases rule: handler_cases) (use P act never_stopped [OF assms, of "Suc m"] in \<open>auto simp: handler_acts_def\<close>)
  next
    assume "\<And>m. n \<le> m \<Longrightarrow> sy_handler (f m) = Restarting i"
    with restart_ends show "\<forall>k \<ge> n. \<exists>m \<ge> k. \<exists>s'. handler_acts d (f m) s'" by blast
  qed
  then show ?thesis by (meson less_imp_le)
qed (use never_stopped [OF assms, of n] in auto)

section \<open>A runner reports\<close>

text \<open>The queue has room again and again: whenever its first event is taken.\<close>

lemma room_again:
  assumes "good_run checks d st f" "checks \<noteq> []"
  shows "\<exists>m \<ge> n. length (su_events (sy_sup (f m))) < su_capacity (sy_sup (f m))"
proof (cases "length (su_events (sy_sup (f n))) < su_capacity (sy_sup (f n))")
  case False
  let ?N = "length (sy_handled (f n))"
  have "su_events (sy_sup (f n)) \<noteq> []" using False good_facts(2) [OF assms(1)] assms(2) by auto
  then have "?N < length (history (f n))" by (simp add: history_def)
  from queue_drains [OF assms(1) this] obtain m where m: "n \<le> m" "?N < length (sy_handled (f m))" by blast
  define k where "k = (LEAST k. n \<le> k \<and> ?N < length (sy_handled (f k)))"
  have k: "n \<le> k" "?N < length (sy_handled (f k))"
    unfolding k_def using LeastI [of "\<lambda>k. n \<le> k \<and> ?N < length (sy_handled (f k))" m] m by blast+
  then obtain j where j: "k = Suc j" "n \<le> j" by (cases k) (auto simp: le_Suc_eq)
  then have "\<not> ?N < length (sy_handled (f j))"
    using not_less_Least [of j "\<lambda>k. n \<le> k \<and> ?N < length (sy_handled (f k))"] by (auto simp: k_def)
  with k(2) j(1) have grew: "length (sy_handled (f j)) < length (sy_handled (f (Suc j)))" by simp
  have "length (su_events (sy_sup (f j))) \<le> su_capacity (sy_sup (f j))"
    using good_facts(1) [OF assms(1), of j] by (simp add: system_ok_def sup_ok_def)
  with good_facts(2) [OF assms(1)] have "length (su_events (sy_sup (f j))) \<le> su_capacity (sy_sup (f (Suc j)))" by simp
  with good_step [OF assms(1), of j] have "length (su_events (sy_sup (f (Suc j)))) < su_capacity (sy_sup (f (Suc j)))"
    by (cases rule: handler_cases) (use grew never_stopped [OF assms(1), of "Suc j"] in auto)
  with j show ?thesis by (meson le_SucI)
qed blast

lemma sleeper_reports:
  assumes "good_run checks d st f" "i < length checks" "sy_phase (f n) ! i = Sleeping snap" "snapshot_dead snap"
  shows "\<exists>m > n. sy_phase (f m) ! i = Sending snap"
proof (rule fair_leads_to [where P = "\<lambda>m. sy_phase (f m) ! i = Sleeping snap" and act = "runner_acts d i" and f = f])
  show "strongly_fair (runner_acts d i) f" using assms(1) by (simp add: good_run_def fair_run_def)
  show "sy_phase (f n) ! i = Sleeping snap" by (rule assms(3))
next
  fix m
  assume P: "sy_phase (f m) ! i = Sleeping snap"
  have i: "i < length (sy_phase (f m))" using good_facts(3) [OF assms(1)] assms(2) by simp
  have move: "sy_phase (f (Suc m)) ! i = Sending snap" if "sy_phase (f (Suc m)) ! i \<noteq> sy_phase (f m) ! i"
    using good_step [OF assms(1)] i that
  proof (cases rule: phase_changes)
    case (broken snap' delay e w)
    with assms(1) good_on [OF assms(1), of "Suc m"] show ?thesis by (auto simp: good_run_def honest_sleep_def cancelled_def)
  qed (use P assms(4) in auto)
  then show "sy_phase (f (Suc m)) ! i = Sleeping snap \<or> sy_phase (f (Suc m)) ! i = Sending snap" using P by auto
  show "sy_phase (f (Suc m)) ! i = Sending snap" if "runner_acts d i (f m) (f (Suc m))"
    using that move by (simp add: runner_acts_def)
next
  assume P: "\<And>m. n \<le> m \<Longrightarrow> sy_phase (f m) ! i = Sleeping snap"
  have "\<exists>s'. runner_acts d i (f m) s'" if "n \<le> m" for m
    using sleepers_wake [OF _ _ good_reachable [OF assms(1)] _ P [OF that]] assms(1,2) good_facts(3) [OF assms(1)]
    by (auto simp: good_run_def)
  then show "\<forall>k \<ge> n. \<exists>m \<ge> k. \<exists>s'. runner_acts d i (f m) s'" by blast
qed

lemma reporter_sends:
  assumes "good_run checks d st f" "i < length checks" "sy_phase (f n) ! i = Sending snap"
  shows "\<exists>m > n. \<exists>N < length (history (f m)). length (sy_handled (f n)) \<le> N \<and>
    history (f m) ! N = \<lparr>ev_Check = i, ev_Snapshot = snap\<rparr>"
proof (rule fair_leads_to [where P = "\<lambda>m. sy_phase (f m) ! i = Sending snap \<and> n \<le> m" and act = "runner_acts d i" and f = f])
  show "strongly_fair (runner_acts d i) f" using assms(1) by (simp add: good_run_def fair_run_def)
  show "sy_phase (f n) ! i = Sending snap \<and> n \<le> n" using assms(3) by simp
next
  fix m
  assume P: "sy_phase (f m) ! i = Sending snap \<and> n \<le> m"
  let ?Q = "\<exists>N < length (history (f (Suc m))). length (sy_handled (f n)) \<le> N \<and>
    history (f (Suc m)) ! N = \<lparr>ev_Check = i, ev_Snapshot = snap\<rparr>"
  have i: "i < length (sy_phase (f m))" using good_facts(3) [OF assms(1)] assms(2) by simp
  have le: "length (sy_handled (f n)) \<le> length (history (f m))"
    using history_grows [OF assms(1), of n m] P prefix_length_le by (force simp: history_def)
  have move: ?Q if "sy_phase (f (Suc m)) ! i \<noteq> sy_phase (f m) ! i"
    using good_step [OF assms(1)] i that
  proof (cases rule: phase_changes)
    case (sends snap')
    then have "history (f (Suc m)) = history (f m) @ [\<lparr>ev_Check = i, ev_Snapshot = snap\<rparr>]" using P by (simp add: history_def)
    with le show ?thesis by (intro exI [of _ "length (history (f m))"]) simp
  qed (use P good_on [OF assms(1), of m] in auto)
  then show "sy_phase (f (Suc m)) ! i = Sending snap \<and> n \<le> Suc m \<or> ?Q" using P by auto
  show ?Q if "runner_acts d i (f m) (f (Suc m))" using that move by (simp add: runner_acts_def)
next
  assume P: "\<And>m. n \<le> m \<Longrightarrow> sy_phase (f m) ! i = Sending snap \<and> n \<le> m"
  have "\<exists>m \<ge> k. \<exists>s'. runner_acts d i (f m) s'" if k: "n \<le> k" for k
  proof -
    have "checks \<noteq> []" using assms(2) by auto
    from room_again [OF assms(1) this] obtain m where m: "k \<le> m" "length (su_events (sy_sup (f m))) < su_capacity (sy_sup (f m))"
      by blast
    have "\<exists>s'. runner_acts d i (f m) s'"
      by (rule sends [of i "f m" snap]) (use P [of m] k m good_facts(3) [OF assms(1), of m] assms(2) in auto)
    with m(1) show ?thesis by blast
  qed
  then show "\<forall>k \<ge> n. \<exists>m \<ge> k. \<exists>s'. runner_acts d i (f m) s'" by blast
qed

section \<open>Properties\<close>

text \<open>C3. What is down is acted upon: in every run of the watchdog under a fair scheduler in which nobody
  tells it to stop, a check that goes to sleep with its budget spent is followed by its event being
  taken, with the very snapshot of that moment, and by the handler being through with it; whatever
  the other checks, the Docker API and the outside world do, and however often the queue is full.\<close>

theorem dead_service_is_acted_on:
  assumes "supervisor_new checks (Some m) (Some store) w = Some (Inr st)" "list_all check_ok checks"
    and "list_all (\<lambda>c. interval_ok (ck_Interval c)) checks"
    and "\<And>w n. 0 < n \<Longrightarrow> 0 \<le> de_rand d w n \<and> de_rand d w n < n"
    and "honest_sleep d" "fair_run d st f" "\<And>n. \<not> cancelled d (f n)"
    and "i < length checks" "sy_phase (f n) ! i = Sleeping snap" "snapshot_dead snap"
  shows "\<exists>k > n. \<exists>N < length (sy_handled (f k)). length (sy_handled (f n)) \<le> N \<and>
    sy_handled (f k) ! N = \<lparr>ev_Check = i, ev_Snapshot = snap\<rparr> \<and> sy_handler (f k) = Idle"
proof -
  have good: "good_run checks d st f"
    using launched_new [OF assms(1,2)] interval_drawable [OF assms(3,4)] assms(5-7) by (simp add: good_run_def)
  obtain a where a: "n < a" "sy_phase (f a) ! i = Sending snap" using sleeper_reports [OF good assms(8-10)] by blast
  obtain b N where b: "a < b" "N < length (history (f b))" "length (sy_handled (f a)) \<le> N"
      "history (f b) ! N = \<lparr>ev_Check = i, ev_Snapshot = snap\<rparr>"
    using reporter_sends [OF good assms(8) a(2)] by blast
  obtain c where c: "b \<le> c" "N < length (sy_handled (f c))" using queue_drains [OF good b(2)] by blast
  obtain k where k: "c \<le> k" "sy_handler (f k) = Idle" using handler_rests [OF good] by blast
  have "length (sy_handled (f n)) \<le> N"
    using history_grows [OF good, of n a] a(1) b(3) prefix_length_le by (force dest: less_imp_le)
  moreover have N: "N < length (sy_handled (f k))"
    using history_grows [OF good k(1)] c(2) prefix_length_le by fastforce
  moreover have "sy_handled (f k) ! N = history (f b) ! N"
  proof -
    have "prefix (history (f b)) (history (f k))" using history_grows [OF good, of b k] c(1) k(1) by simp
    then have "history (f k) ! N = history (f b) ! N" using b(2) by (auto simp: prefix_def nth_append)
    then show ?thesis using N by (simp add: history_def nth_append)
  qed
  ultimately show ?thesis using a(1) b(1,4) c(1) k by (intro exI [of _ k]) auto
qed

section \<open>A fair run\<close>

text \<open>A path of steps, prolonged for ever by the outside world that does nothing.\<close>

lemma path_run:
  assumes "(sys_step d)\<^sup>*\<^sup>* a b" "(sys_step d)\<^sup>*\<^sup>* b c"
  shows "\<exists>f n k. f 0 = a \<and> f n = b \<and> (\<forall>m \<ge> k. f m = c) \<and> (\<forall>m. sys_step d (f m) (f (Suc m)))"
proof -
  from assms obtain n k where "(sys_step d ^^ n) a b" "(sys_step d ^^ k) b c" unfolding rtranclp_power by blast
  then obtain g h where g: "g 0 = a" "g n = b" "\<forall>m < n. sys_step d (g m) (g (Suc m))"
    and h: "h 0 = b" "h k = c" "\<forall>m < k. sys_step d (h m) (h (Suc m))"
    unfolding relpowp_fun_conv by blast
  have still: "sys_step d c c" using outside [of d c "su_world (sy_sup c)"] by (simp add: set_world_def)
  define f where "f m = (if m < n then g m else if m - n < k then h (m - n) else c)" for m
  have "sys_step d (f m) (f (Suc m))" for m
  proof -
    consider "Suc m < n" | "Suc m = n" | "n \<le> m" "Suc (m - n) < k" | "n \<le> m" "Suc (m - n) = k" | "n \<le> m" "k \<le> m - n" by linarith
    then show ?thesis
    proof cases
      case 2
      then have "f (Suc m) = b" using h by (cases k) (simp_all add: f_def)
      then show ?thesis using 2 g(2,3) by (auto simp: f_def)
    next
      case 4
      then show ?thesis using h(2,3) by (auto simp: f_def Suc_diff_le)
    qed (use g(3) h(3) still in \<open>simp_all add: f_def Suc_diff_le\<close>)
  qed
  moreover have "f 0 = a" "f n = b" using g(1,2) h(1,2) by (cases n; cases k; simp add: f_def)+
  moreover have "\<forall>m \<ge> n + k. f m = c" by (simp add: f_def)
  ultimately show ?thesis by blast
qed

lemma stuck_fair:
  assumes "\<forall>m \<ge> k. f m = c" "\<not> (\<exists>s'. act c s')"
  shows "strongly_fair act f"
proof -
  have "\<not> (\<forall>n. \<exists>m \<ge> n. \<exists>s'. act (f m) s')" using assms by metis
  then show ?thesis unfolding strongly_fair_def by blast
qed

text \<open>The check with a budget of one point, its event a notification: the watcher finds the API gone, the
  check reports, the handler is done with it, and the check asks at the closed gate.\<close>

abbreviation fragile :: "bool system" where
  "fragile \<equiv> frail_dead ''ratelimit''"

lemma frail_ends:
  "\<exists>c. (sys_step frail_deps)\<^sup>*\<^sup>* fragile c \<and> sy_phase c = [Waiting 1] \<and> sy_handler c = Idle \<and>
     su_events (sy_sup c) = [] \<and> g_closed (su_gate (sy_sup c)) = [0] \<and> sy_watch c = Watching True \<and>
     su_world (sy_sup c) = False"
proof -
  let ?s = "frail_sent ''ratelimit''" and ?e = "frail_event ''ratelimit''"
  let ?b = "(sy_sup ?s)\<lparr>su_events := []\<rparr>"
  have f: "sy_phase ?s = [AtGate]" "sy_handler ?s = Idle" "sy_watch ?s = Watching True" "sy_handled ?s = []"
    "su_events (sy_sup ?s) = [?e]" by (simp_all add: frail_sent_def)
  have notify: "\<not> restarts_container (runner_check 0 (sy_sup ?s))" "ev_Check ?e = 0" by code_simp+
  obtain u where u: "handle frail_deps ?e ?b = Some u" "only_outside ?b u"
    using handle_notify [of ?e ?b frail_deps] notify by (auto simp: runner_check_def)
  let ?s4 = "?s\<lparr>sy_handled := [?e], sy_sup := set_world False u\<rparr>"
  have "sys_step frail_deps ?s (?s\<lparr>sy_sup := u, sy_handled := [?e]\<rparr>)"
    using take_notify [of ?s ?e "[]" frail_deps u] u(1) notify f by simp
  moreover have "sys_step frail_deps (?s\<lparr>sy_sup := u, sy_handled := [?e]\<rparr>) ?s4"
    using outside [of frail_deps "?s\<lparr>sy_sup := u, sy_handled := [?e]\<rparr>" False] by simp
  ultimately have 4: "(sys_step frail_deps)\<^sup>*\<^sup>* ?s ?s4" by (meson r_into_rtranclp rtranclp_trans)
  have b: "su_gate ?b = \<lparr>g_open = 1, g_fresh = 2, g_closed = [0]\<rparr>" "su_events ?b = []" by code_simp+
  have g: "su_gate u = \<lparr>g_open = 1, g_fresh = 2, g_closed = [0]\<rparr>" "su_events u = []"
    using outside_fields [OF u(2)] b by simp_all
  let ?s5 = "set_phase 0 (Waiting (gate_ticket (su_gate u))) (set_world False u) ?s4"
  have 5: "sys_step frail_deps ?s4 ?s5"
    using ask [of 0 ?s4 frail_deps] f by (simp add: set_phase_def set_world_def)
  have "sy_phase ?s5 = [Waiting 1]" "sy_handler ?s5 = Idle" "su_events (sy_sup ?s5) = []" "g_closed (su_gate (sy_sup ?s5)) = [0]"
      "sy_watch ?s5 = Watching True" "su_world (sy_sup ?s5) = False"
    using f g by (simp_all add: set_phase_def set_world_def gate_ticket_def)
  moreover have "(sys_step frail_deps)\<^sup>*\<^sup>* fragile ?s5"
    using frail_reports 4 5 by (meson rtranclp.rtrancl_into_rtrancl rtranclp_trans)
  ultimately show ?thesis by blast
qed

theorem dead_service_is_acted_on_witness:
  "\<exists>f n k. fair_run frail_deps (frail_start ''ratelimit'') f \<and> sy_phase (f n) ! 0 = Sleeping (fst (frail_round ''ratelimit'')) \<and> n < k \<and>
     sy_handled (f k) \<noteq> [] \<and> sy_handler (f k) = Idle"
proof -
  obtain c where c: "(sys_step frail_deps)\<^sup>*\<^sup>* fragile c" "sy_phase c = [Waiting 1]" "sy_handler c = Idle"
      "su_events (sy_sup c) = []" "g_closed (su_gate (sy_sup c)) = [0]" "sy_watch c = Watching True" "su_world (sy_sup c) = False"
    using frail_ends by blast
  obtain f n k where f: "f 0 = system_start frail_deps (frail_start ''ratelimit'')" "f n = fragile" "\<forall>m \<ge> k. f m = c"
      "\<forall>m. sys_step frail_deps (f m) (f (Suc m))"
    using path_run [OF frail_reaches_dead [of "''ratelimit''"] c(1)] by blast
  have ctx: "de_ctx frail_deps w = None" for w by (simp add: frail_deps_fields)
  then have on: "\<not> cancelled frail_deps s" for s by (simp add: cancelled_def)
  have "\<not> (\<exists>s'. handler_acts frail_deps c s')"
  proof
    assume "\<exists>s'. handler_acts frail_deps c s'"
    then obtain s' where s': "sys_step frail_deps c s'" "sy_handled s' \<noteq> sy_handled c \<or> sy_handler s' \<noteq> sy_handler c"
      by (auto simp: handler_acts_def)
    from s'(1) show False by (cases rule: handler_cases) (use s'(2) c on in auto)
  qed
  moreover have "\<not> (\<exists>s'. runner_acts frail_deps i c s')" for i
  proof
    assume "\<exists>s'. runner_acts frail_deps i c s'"
    then obtain s' where s': "sys_step frail_deps c s'" "sy_phase s' ! i \<noteq> sy_phase c ! i" by (auto simp: runner_acts_def)
    from s'(1) show False
      by (cases rule: sys_step.cases) (use s'(2) c ctx in \<open>auto simp: set_phase_def recv_ready_def\<close>)
  qed
  moreover have "\<not> (\<exists>s'. watcher_acts frail_deps c s')"
  proof
    assume "\<exists>s'. watcher_acts frail_deps c s'"
    then obtain s' where s': "sys_step frail_deps c s'" "sy_watch s' \<noteq> sy_watch c" by (auto simp: watcher_acts_def)
    from s'(1) show False
      by (cases rule: sys_step.cases)
        (use s'(2) c(6,7) in \<open>auto simp: set_phase_def watch_turn_def frail_deps_fields\<close>)
  qed
  ultimately have run: "fair_run frail_deps (frail_start ''ratelimit'') f"
    using f stuck_fair [OF f(3)] by (simp add: fair_run_def)
  have ph: "sy_phase (f n) ! 0 = Sleeping (fst (frail_round ''ratelimit''))" by (simp add: f frail_dead_def system_start_def frail_start_def)
  have "honest_sleep frail_deps" by (simp add: honest_sleep_def frail_deps_fields)
  from dead_service_is_acted_on [OF frail_new frail_check_ok _ _ this run on _ ph frail_state(1)]
  have "\<exists>k > n. \<exists>N < length (sy_handled (f k)). length (sy_handled (f n)) \<le> N \<and>
      sy_handled (f k) ! N = \<lparr>ev_Check = 0, ev_Snapshot = fst (frail_round ''ratelimit'')\<rparr> \<and> sy_handler (f k) = Idle"
    by (simp add: in64_def interval_ok_def frail_check_def demo_check_def frail_deps_fields frail_event_def)
  with run ph show ?thesis by fastforce
qed

end
