(* ===== verification/Fair_Checks.thy ===== *)
theory Fair_Checks
  imports Fair_Runs
begin

text \<open>
  No check starves: in the fair runs of Fair_Runs every check goes through whole rounds again and again,
  from the gate to the pause, through restarts, outages of the Docker API that end, and full queues.
\<close>

section \<open>The gate opens again\<close>

text \<open>A turn of the watcher would find the API, and is not cut short.\<close>

definition api_up :: "'w deps \<Rightarrow> 'w system \<Rightarrow> bool" where
  "api_up d s \<longleftrightarrow>
     (case de_docker d of None \<Rightarrow> False
      | Some docker \<Rightarrow> (case de_sleep d DockerAPIPoll (su_world (sy_sup s)) of
          (r, w) \<Rightarrow> r = None \<and> fst (da_Reachable docker w)))"

lemma watcher_cases:
  assumes "sys_step d s s'" "sy_watch s = Watching True"
  obtains (holds) "sy_watch s' = Watching True" | (opens) "\<not> gate_paused (su_gate (sy_sup s'))"
  using assms(1)
proof (cases rule: sys_step.cases)
  case (watch held docker held' st)
  from watch(4) show ?thesis
  proof (cases rule: watch_turn_cases)
    case (stop_resume w)
    then show ?thesis using watch opens gate_resume_open resumeAll_fields by fastforce
  next
    case (recovered w u)
    then have "\<not> gate_paused (su_gate u)" using gate_resume_open resumeAll_fields by blast
    then show ?thesis using watch recovered opens by (simp add: healAll_def)
  qed (use watch assms(2) holds in simp_all)
qed (use assms(2) holds in \<open>auto simp: set_phase_def\<close>)

lemma watcher_can:
  assumes "sy_watch s = Watching True" "api_up d s"
  shows "\<exists>s'. watcher_acts d s s'"
proof -
  obtain docker w where k: "de_docker d = Some docker" "de_sleep d DockerAPIPoll (su_world (sy_sup s)) = (None, w)"
      "fst (da_Reachable docker w)"
    using assms(2) by (auto simp: api_up_def split: option.splits prod.splits)
  obtain w' where r: "da_Reachable docker w = (True, w')" using k(3) by (cases "da_Reachable docker w") simp
  obtain u where "resumeAll (set_world w' (sy_sup s)) = Some u" using resumeAll_Some by blast
  then have "watch_turn d docker True (sy_sup s) = Some (Some False, healAll u)" by (simp add: watch_turn_def k(2) r Let_def)
  from sys_step.watch [OF assms(1) k(1) this] assms(1) show ?thesis
    by (intro exI) (auto simp: watcher_acts_def)
qed

text \<open>Outages end: an API that is missed is found again at some later moment.\<close>

definition outages_end :: "'w deps \<Rightarrow> (nat \<Rightarrow> 'w system) \<Rightarrow> bool" where
  "outages_end d f \<longleftrightarrow> (\<forall>n. sy_watch (f n) = Watching True \<longrightarrow> (\<exists>m \<ge> n. api_up d (f m)))"

lemma restart_opens:
  assumes "good_run checks d st f" "sy_handler (f n) = Restarting i"
  shows "\<exists>m > n. \<not> gate_paused (su_gate (sy_sup (f m)))"
proof (rule fair_leads_to [where P = "\<lambda>m. sy_handler (f m) = Restarting i" and act = "handler_acts d" and f = f])
  show "strongly_fair (handler_acts d) f" using assms(1) by (simp add: good_run_def fair_run_def)
  show "sy_handler (f n) = Restarting i" by (rule assms(2))
next
  fix m
  assume P: "sy_handler (f m) = Restarting i"
  from good_step [OF assms(1), of m]
  show "sy_handler (f (Suc m)) = Restarting i \<or> \<not> gate_paused (su_gate (sy_sup (f (Suc m))))"
    by (cases rule: handler_cases) (use P never_stopped [OF assms(1), of "Suc m"] in auto)
  assume act: "handler_acts d (f m) (f (Suc m))"
  from good_step [OF assms(1), of m] show "\<not> gate_paused (su_gate (sy_sup (f (Suc m))))"
    by (cases rule: handler_cases) (use P act never_stopped [OF assms(1), of "Suc m"] in \<open>auto simp: handler_acts_def\<close>)
next
  assume "\<And>m. n \<le> m \<Longrightarrow> sy_handler (f m) = Restarting i"
  with restart_ends show "\<forall>k \<ge> n. \<exists>m \<ge> k. \<exists>s'. handler_acts d (f m) s'" by blast
qed

lemma watcher_opens:
  assumes "good_run checks d st f" "outages_end d f" "sy_watch (f n) = Watching True"
  shows "\<exists>m > n. \<not> gate_paused (su_gate (sy_sup (f m)))"
proof (rule fair_leads_to [where P = "\<lambda>m. sy_watch (f m) = Watching True" and act = "watcher_acts d" and f = f])
  show "strongly_fair (watcher_acts d) f" using assms(1) by (simp add: good_run_def fair_run_def)
  show "sy_watch (f n) = Watching True" by (rule assms(3))
next
  fix m
  assume P: "sy_watch (f m) = Watching True"
  from good_step [OF assms(1), of m] P
  show "sy_watch (f (Suc m)) = Watching True \<or> \<not> gate_paused (su_gate (sy_sup (f (Suc m))))"
    by (cases rule: watcher_cases) blast+
  assume act: "watcher_acts d (f m) (f (Suc m))"
  from good_step [OF assms(1), of m] P show "\<not> gate_paused (su_gate (sy_sup (f (Suc m))))"
    by (cases rule: watcher_cases) (use P act in \<open>auto simp: watcher_acts_def\<close>)
next
  assume P: "\<And>m. n \<le> m \<Longrightarrow> sy_watch (f m) = Watching True"
  show "\<forall>k \<ge> n. \<exists>m \<ge> k. \<exists>s'. watcher_acts d (f m) s'"
  proof (intro allI impI)
    fix k
    assume k: "n \<le> k"
    then obtain m where "k \<le> m" "api_up d (f m)" using assms(2) P by (auto simp: outages_end_def)
    with k show "\<exists>m \<ge> k. \<exists>s'. watcher_acts d (f m) s'" using watcher_can [OF P] by (meson le_trans)
  qed
qed

lemma gate_opens:
  assumes "good_run checks d st f" "outages_end d f"
  shows "\<exists>m \<ge> n. \<not> gate_paused (su_gate (sy_sup (f m)))"
proof (cases "gate_paused (su_gate (sy_sup (f n)))")
  case True
  with good_facts(1) [OF assms(1), of n] consider i where "sy_handler (f n) = Restarting i" | "sy_watch (f n) = Watching True"
    by (auto simp: system_ok_def gate_owned_def)
  then show ?thesis
    using restart_opens [OF assms(1)] watcher_opens [OF assms] by cases (meson less_imp_le)+
qed blast

section \<open>A runner goes on\<close>

text \<open>Phases to go until the next round begins, for a check of \<open>n\<close> probes.\<close>

fun phases_to_go :: "nat \<Rightarrow> phase \<Rightarrow> nat" where
  "phases_to_go n (InRound k weight) = n - k + 5"
| "phases_to_go n (Sleeping snap) = 4"
| "phases_to_go n (Sending snap) = 3"
| "phases_to_go n AtGate = 2"
| "phases_to_go n (Waiting c) = 1"
| "phases_to_go n Stopped = 0"

lemma runner_goes_on:
  assumes "sys_step d s s'" "i < length (sy_phase s)" "sy_phase s' ! i \<noteq> sy_phase s ! i"
    and "\<not> cancelled d s" "\<not> cancelled d s'" "honest_sleep d" "n = length (lc_Probes (runner_check i (sy_sup s)))"
  shows "(\<exists>c. sy_phase s ! i = Waiting c) \<and> sy_phase s' ! i = InRound 0 0 \<or>
    sy_phase s' ! i \<noteq> Stopped \<and> phases_to_go n (sy_phase s' ! i) < phases_to_go n (sy_phase s ! i)"
proof -
  have at: "i = j" if "s' = set_phase j p st s" for j p st
    using assms(3) that by (cases "j = i") (simp_all add: set_phase_def)
  from assms(1) show ?thesis
  proof (cases rule: sys_step.cases)
    case (conclude j k weight snap st)
    then show ?thesis using at [OF conclude(1)] assms(5) by (auto simp: cancelled_def)
  next
    case (sleep_cancelled j snap delay e w)
    from assms(6) sleep_cancelled(5) have "de_ctx d w \<noteq> None" unfolding honest_sleep_def by blast
    with assms(5) show ?thesis by (simp add: cancelled_def sleep_cancelled(1) set_world_def)
  qed (use at assms in \<open>auto simp: cancelled_def\<close>)
qed

lemma probes_stay:
  assumes "good_run checks d st f" "i < length checks"
  shows "lc_Probes (runner_check i (sy_sup (f n))) = lc_Probes (checks ! i)"
proof -
  have "statics (sy_sup (f n)) = map (\<lambda>c. (bare c, max 1 (ck_Threshold c))) checks"
    using reachable_invariant [OF good_reachable [OF assms(1), of n]] assms(1) by (simp add: good_run_def launched_def)
  from arg_cong [OF this, of "\<lambda>xs. fst (xs ! i)"] arg_cong [OF this, of length] assms(2)
  have "bare (runner_check i (sy_sup (f n))) = bare (checks ! i)" by (simp add: statics_def runner_check_def)
  from arg_cong [OF this, of lc_Probes] show ?thesis by (simp add: bare_def)
qed

text \<open>A runner can move again and again: what may block it for a while is the gate and the queue.\<close>

lemma runner_can_again:
  assumes "good_run checks d st f" "outages_end d f" "i < length checks"
    and "sy_phase (f n) ! i \<noteq> Stopped" "\<And>m. n \<le> m \<Longrightarrow> sy_phase (f m) ! i = sy_phase (f n) ! i" "n \<le> k"
  shows "\<exists>m \<ge> k. \<exists>s'. runner_acts d i (f m) s'"
proof -
  have i: "i < length (sy_phase (f m))" for m using good_facts(3) [OF assms(1)] assms(3) by simp
  have ph: "sy_phase (f m) ! i = sy_phase (f n) ! i" if "k \<le> m" for m
    by (rule assms(5)) (use assms(6) that in simp)
  show ?thesis
  proof (cases "sy_phase (f n) ! i")
    case AtGate
    then have "sy_phase (f k) ! i = AtGate" using ph [of k] by simp
    from asks [OF i this] show ?thesis by blast
  next
    case (Waiting c)
    obtain m where m: "k \<le> m" "\<not> gate_paused (su_gate (sy_sup (f m)))" using gate_opens [OF assms(1,2)] by blast
    note ok = good_facts(1) [OF assms(1), of m]
    have "gate_issued c (su_gate (sy_sup (f m)))" using system_ok_at(3) [OF ok i] ph [OF m(1)] Waiting by (simp add: phase_ok_def)
    then have "recv_ready c (su_gate (sy_sup (f m)))"
      using gate_ok_issued [of "su_gate (sy_sup (f m))" c] ok m(2) by (auto simp: system_ok_def sup_ok_def gate_paused_def)
    moreover have "sy_phase (f m) ! i = Waiting c" using ph [OF m(1)] Waiting by simp
    ultimately show ?thesis using passes_gate [OF i] m(1) by blast
  next
    case (InRound j weight)
    then have "sy_phase (f k) ! i = InRound j weight" using ph [of k] by simp
    from probes_on [OF i this] show ?thesis by blast
  next
    case (Sleeping snap)
    then have "sy_phase (f k) ! i = Sleeping snap" using ph [of k] by simp
    from sleepers_wake [OF _ _ good_reachable [OF assms(1)] i this] assms(1) show ?thesis unfolding good_run_def by blast
  next
    case (Sending snap)
    have "checks \<noteq> []" using assms(3) by auto
    from room_again [OF assms(1) this] obtain m where m: "k \<le> m" "length (su_events (sy_sup (f m))) < su_capacity (sy_sup (f m))"
      by blast
    moreover have "sy_phase (f m) ! i = Sending snap" using ph [OF m(1)] Sending by simp
    ultimately show ?thesis using sends [OF i] by blast
  qed (use assms(4) in simp)
qed

lemma runners_never_stop:
  assumes "good_run checks d st f" "i < length checks"
  shows "sy_phase (f n) ! i \<noteq> Stopped"
proof (induction n)
  case 0
  have "f 0 = system_start d st" using assms(1) by (simp add: good_run_def fair_run_def)
  then show ?case using good_facts(3) [OF assms(1), of 0] assms(2) by (simp add: system_start_def)
next
  case (Suc n)
  have "i < length (sy_phase (f n))" using good_facts(3) [OF assms(1)] assms(2) by simp
  from runner_goes_on [OF good_step [OF assms(1)] this _ good_on [OF assms(1)] good_on [OF assms(1)] _ refl] Suc assms(1)
  show ?case by (cases "sy_phase (f (Suc n)) ! i = sy_phase (f n) ! i") (auto simp: good_run_def)
qed

text \<open>Every phase is left at some moment.\<close>

lemma leaves_phase:
  assumes "good_run checks d st f" "outages_end d f" "i < length checks"
  shows "\<exists>m \<ge> n. (\<forall>j. n \<le> j \<and> j \<le> m \<longrightarrow> sy_phase (f j) ! i = sy_phase (f n) ! i) \<and>
    sy_phase (f (Suc m)) ! i \<noteq> sy_phase (f m) ! i"
proof -
  let ?left = "\<lambda>m. n \<le> m \<and> sy_phase (f (Suc m)) ! i \<noteq> sy_phase (f m) ! i"
  have "\<exists>m. ?left m"
  proof (rule ccontr)
    assume "\<not> (\<exists>m. ?left m)"
    then have on: "\<And>m. n \<le> m \<Longrightarrow> sy_phase (f (Suc m)) ! i = sy_phase (f m) ! i" by blast
    have still: "sy_phase (f m) ! i = sy_phase (f n) ! i" if "n \<le> m" for m
      using that by (induction rule: dec_induct) (simp_all add: on)
    from runner_can_again [OF assms runners_never_stop [OF assms(1,3)] still]
    have "\<forall>k. \<exists>m \<ge> k. \<exists>s'. runner_acts d i (f m) s'" by (meson nle_le le_trans)
    moreover have "strongly_fair (runner_acts d i) f" using assms(1) by (simp add: good_run_def fair_run_def)
    ultimately obtain m where "n \<le> m" "runner_acts d i (f m) (f (Suc m))" unfolding strongly_fair_def by blast
    with on show False by (auto simp: runner_acts_def)
  qed
  then obtain m where m: "?left m" "\<And>j. j < m \<Longrightarrow> \<not> ?left j" using exists_least_iff [of ?left] by blast
  have "sy_phase (f j) ! i = sy_phase (f n) ! i" if "n \<le> j" "j \<le> m" for j
    using that
  proof (induction rule: dec_induct)
    case (step j)
    then show ?case using m(2) [of j] by simp
  qed simp
  with m(1) show ?thesis by blast
qed

lemma enters_round:
  assumes "good_run checks d st f" "outages_end d f" "i < length checks"
  shows "\<exists>a \<ge> n. (\<exists>c. sy_phase (f a) ! i = Waiting c) \<and> sy_phase (f (Suc a)) ! i = InRound 0 0"
proof (induction "phases_to_go (length (lc_Probes (checks ! i))) (sy_phase (f n) ! i)" arbitrary: n rule: less_induct)
  case less
  obtain m where m: "n \<le> m" "sy_phase (f m) ! i = sy_phase (f n) ! i" "sy_phase (f (Suc m)) ! i \<noteq> sy_phase (f m) ! i"
    using leaves_phase [OF assms, of n] by blast
  have "i < length (sy_phase (f m))" using good_facts(3) [OF assms(1)] assms(3) by simp
  from runner_goes_on [OF good_step [OF assms(1)] this m(3) good_on [OF assms(1)] good_on [OF assms(1)] _ refl]
  consider "\<exists>c. sy_phase (f m) ! i = Waiting c" "sy_phase (f (Suc m)) ! i = InRound 0 0"
    | "phases_to_go (length (lc_Probes (checks ! i))) (sy_phase (f (Suc m)) ! i)
        < phases_to_go (length (lc_Probes (checks ! i))) (sy_phase (f n) ! i)"
    using assms(1) m(2) by (auto simp: good_run_def probes_stay [OF assms(1,3)])
  then show ?case
  proof cases
    case 2
    from less.hyps [OF this] m(1) show ?thesis by (meson Suc_leD le_trans)
  qed (use m(1) in blast)
qed

text \<open>A move out of a round runs the next probe, or ends a round whose probes have all run.\<close>

lemma round_step:
  assumes "sys_step d s s'" "i < length (sy_phase s)" "sy_phase s' ! i \<noteq> sy_phase s ! i" "sy_phase s ! i = InRound k weight"
    and "\<not> cancelled d s'" "n = length (lc_Probes (runner_check i (sy_sup s)))"
  shows "k < n \<and> (\<exists>weight'. sy_phase s' ! i = InRound (Suc k) weight') \<or> n \<le> k \<and> (\<exists>snap. sy_phase s' ! i = Sleeping snap)"
proof -
  have at: "i = j" if "s' = set_phase j p st s" for j p st
    using assms(3) that by (cases "j = i") (simp_all add: set_phase_def)
  from assms(1) show ?thesis
  proof (cases rule: sys_step.cases)
    case (conclude j k' weight' snap st)
    then show ?thesis using at [OF conclude(1)] assms by (auto simp: cancelled_def)
  qed (use at assms in auto)
qed

text \<open>A whole round of a check of \<open>n\<close> probes: from the gate at moment \<open>a\<close> through all its probes, one after
  the other, to the pause right after moment \<open>b\<close>.\<close>

definition probes_run :: "(nat \<Rightarrow> 'w system) \<Rightarrow> nat \<Rightarrow> nat \<Rightarrow> nat \<Rightarrow> nat \<Rightarrow> nat \<Rightarrow> bool" where
  "probes_run f i k n a b \<longleftrightarrow>
     (\<forall>j. k \<le> j \<and> j < n \<longrightarrow> (\<exists>m w w'. a \<le> m \<and> m < b \<and> sy_phase (f m) ! i = InRound j w \<and> sy_phase (f (Suc m)) ! i = InRound (Suc j) w'))"

definition whole_round :: "(nat \<Rightarrow> 'w system) \<Rightarrow> nat \<Rightarrow> nat \<Rightarrow> nat \<Rightarrow> nat \<Rightarrow> bool" where
  "whole_round f i n a b \<longleftrightarrow> a < b \<and>
     (\<exists>c. sy_phase (f a) ! i = Waiting c) \<and> sy_phase (f (Suc a)) ! i = InRound 0 0 \<and>
     (\<forall>m. a < m \<and> m \<le> b \<longrightarrow> (\<exists>k w. sy_phase (f m) ! i = InRound k w)) \<and> probes_run f i 0 n a b \<and>
     (\<exists>w. sy_phase (f b) ! i = InRound n w) \<and> (\<exists>snap. sy_phase (f (Suc b)) ! i = Sleeping snap)"

lemma round_ends:
  assumes "good_run checks d st f" "outages_end d f" "i < length checks"
    and "sy_phase (f a) ! i = InRound k weight" "k + r = length (lc_Probes (checks ! i))"
  shows "\<exists>b \<ge> a. (\<forall>m. a \<le> m \<and> m \<le> b \<longrightarrow> (\<exists>k w. sy_phase (f m) ! i = InRound k w)) \<and>
    probes_run f i k (length (lc_Probes (checks ! i))) a b \<and>
    (\<exists>w. sy_phase (f b) ! i = InRound (length (lc_Probes (checks ! i))) w) \<and> (\<exists>snap. sy_phase (f (Suc b)) ! i = Sleeping snap)"
  using assms(4,5)
proof (induction r arbitrary: a k weight)
  case 0
  obtain m where m: "a \<le> m" "\<And>j. a \<le> j \<Longrightarrow> j \<le> m \<Longrightarrow> sy_phase (f j) ! i = sy_phase (f a) ! i"
      "sy_phase (f (Suc m)) ! i \<noteq> sy_phase (f m) ! i"
    using leaves_phase [OF assms(1-3), of a] by blast
  have "i < length (sy_phase (f m))" using good_facts(3) [OF assms(1)] assms(3) by simp
  from round_step [OF good_step [OF assms(1)] this m(3) _ good_on [OF assms(1)] refl] m(1,2) 0
  have "\<exists>snap. sy_phase (f (Suc m)) ! i = Sleeping snap" by (auto simp: probes_stay [OF assms(1,3)])
  then show ?case using m(1,2) 0 by (intro exI [of _ m]) (simp add: probes_run_def)
next
  case (Suc r)
  let ?n = "length (lc_Probes (checks ! i))"
  obtain m where m: "a \<le> m" "\<And>j. a \<le> j \<Longrightarrow> j \<le> m \<Longrightarrow> sy_phase (f j) ! i = sy_phase (f a) ! i"
      "sy_phase (f (Suc m)) ! i \<noteq> sy_phase (f m) ! i"
    using leaves_phase [OF assms(1-3), of a] by blast
  have "i < length (sy_phase (f m))" using good_facts(3) [OF assms(1)] assms(3) by simp
  from round_step [OF good_step [OF assms(1)] this m(3) _ good_on [OF assms(1)] refl] m(1,2) Suc.prems
  obtain w' where w': "sy_phase (f (Suc m)) ! i = InRound (Suc k) w'" by (auto simp: probes_stay [OF assms(1,3)])
  obtain b where b: "Suc m \<le> b" "\<And>j. Suc m \<le> j \<Longrightarrow> j \<le> b \<Longrightarrow> \<exists>k w. sy_phase (f j) ! i = InRound k w"
      "probes_run f i (Suc k) ?n (Suc m) b" "\<exists>w. sy_phase (f b) ! i = InRound ?n w" "\<exists>snap. sy_phase (f (Suc b)) ! i = Sleeping snap"
    using Suc.IH [OF w'] Suc.prems(2) by auto
  have "\<exists>k w. sy_phase (f j) ! i = InRound k w" if "a \<le> j" "j \<le> b" for j
    using m(2) [of j] b(2) [of j] Suc.prems(1) that by (cases "j \<le> m") auto
  moreover have "probes_run f i k ?n a b"
    unfolding probes_run_def
  proof (intro allI impI)
    fix j
    assume j: "k \<le> j \<and> j < ?n"
    show "\<exists>x w w'. a \<le> x \<and> x < b \<and> sy_phase (f x) ! i = InRound j w \<and> sy_phase (f (Suc x)) ! i = InRound (Suc j) w'"
    proof (cases "j = k")
      case True
      then show ?thesis using m(1) m(2) [of m] b(1) w' Suc.prems(1) by (intro exI [of _ m]) auto
    next
      case False
      then have "Suc k \<le> j" using j by simp
      with b(3) j obtain x w w'' where "Suc m \<le> x" "x < b" "sy_phase (f x) ! i = InRound j w"
          "sy_phase (f (Suc x)) ! i = InRound (Suc j) w''"
        unfolding probes_run_def by blast
      then show ?thesis using m(1) by (intro exI [of _ x]) auto
    qed
  qed
  ultimately show ?case using b(1,4,5) m(1) by (intro exI [of _ b]) auto
qed

lemma whole_rounds:
  assumes "good_run checks d st f" "outages_end d f" "i < length checks"
  shows "\<exists>a b. n \<le> a \<and> whole_round f i (length (lc_Probes (checks ! i))) a b"
proof -
  obtain a where a: "n \<le> a" "\<exists>c. sy_phase (f a) ! i = Waiting c" "sy_phase (f (Suc a)) ! i = InRound 0 0"
    using enters_round [OF assms] by blast
  obtain b where b: "Suc a \<le> b" "\<And>m. Suc a \<le> m \<Longrightarrow> m \<le> b \<Longrightarrow> \<exists>k w. sy_phase (f m) ! i = InRound k w"
      "probes_run f i 0 (length (lc_Probes (checks ! i))) (Suc a) b"
      "\<exists>w. sy_phase (f b) ! i = InRound (length (lc_Probes (checks ! i))) w" "\<exists>snap. sy_phase (f (Suc b)) ! i = Sleeping snap"
    using round_ends [OF assms a(3), of "length (lc_Probes (checks ! i))"] by auto
  have "probes_run f i 0 (length (lc_Probes (checks ! i))) a b"
    using b(3) unfolding probes_run_def by (meson Suc_leD)
  then show ?thesis using a b by (intro exI [of _ a] exI [of _ b]) (auto simp: whole_round_def)
qed

section \<open>Properties\<close>

text \<open>C2. No check starves and no round hangs: in every run of the watchdog under a fair scheduler in which
  nobody tells it to stop and every outage of the Docker API ends, after every moment each check
  passes the gate into a new round, runs all its probes one after the other, and ends the round in
  its pause; whatever the restarts of others, however often the gate is closed and the queue is
  full. (A probe is a step, so it is taken to return, as its timeout is there to ensure.)\<close>

theorem every_check_probes_again:
  assumes "supervisor_new checks (Some m) (Some store) w = Some (Inr st)" "list_all check_ok checks"
    and "list_all (\<lambda>c. interval_ok (ck_Interval c)) checks"
    and "\<And>w n. 0 < n \<Longrightarrow> 0 \<le> de_rand d w n \<and> de_rand d w n < n"
    and "honest_sleep d" "fair_run d st f" "\<And>n. \<not> cancelled d (f n)" "outages_end d f" "i < length checks"
  shows "\<exists>a b. n \<le> a \<and> whole_round f i (length (lc_Probes (checks ! i))) a b"
proof -
  have "good_run checks d st f"
    using launched_new [OF assms(1,2)] interval_drawable [OF assms(3,4)] assms(5-7) by (simp add: good_run_def)
  from whole_rounds [OF this assms(8,9)] show ?thesis .
qed

section \<open>A fair run exists\<close>

text \<open>For one check without a Docker API: the handler goes first whenever it can, else the runner moves.\<close>

definition handler_load :: "'w system \<Rightarrow> nat" where
  "handler_load s = 2 * length (su_events (sy_sup s)) + (case sy_handler s of Restarting i \<Rightarrow> 1 | _ \<Rightarrow> 0)"

lemma handler_unloads:
  assumes "handler_acts d s s'" "\<not> cancelled d s"
  shows "handler_load s' < handler_load s"
proof -
  have step: "sys_step d s s'" and act: "sy_handled s' \<noteq> sy_handled s \<or> sy_handler s' \<noteq> sy_handler s"
    using assms(1) by (auto simp: handler_acts_def)
  from step show ?thesis
    by (cases rule: handler_cases) (use act assms(2) in \<open>auto simp: handler_load_def split: handling.splits\<close>)
qed

lemma sole_runner:
  assumes "launched [c] d st" "drawable [c] d" "honest_sleep d" "de_docker d = None" "\<And>w. de_ctx d w = None" "reachable d st s"
  shows "sy_handler s \<noteq> HandlerStopped \<and> sy_phase s ! 0 \<noteq> Stopped"
  using assms(6)
proof induction
  case reach_start
  show ?case using run_facts(3) [OF assms(1) reachable.reach_start] by (simp add: system_start_def)
next
  case (reach_step s s')
  have on: "\<not> cancelled d u" for u by (simp add: cancelled_def assms(5))
  have i: "0 < length (sy_phase s)" using run_facts(3) [OF assms(1) reach_step(1)] by simp
  have "sy_phase s' ! 0 \<noteq> Stopped"
    using runner_goes_on [OF reach_step(2) i _ on on assms(3) refl] reach_step.IH
    by (cases "sy_phase s' ! 0 = sy_phase s ! 0") auto
  moreover from reach_step(2) have "sy_handler s' \<noteq> HandlerStopped"
    by (cases rule: handler_cases) (use reach_step.IH on in auto)
  ultimately show ?case by simp
qed

lemma sole_move:
  assumes "launched [c] d st" "drawable [c] d" "honest_sleep d" "de_docker d = None" "\<And>w. de_ctx d w = None" "reachable d st s"
    and "\<not> (\<exists>s'. handler_acts d s s')"
  shows "\<exists>s'. runner_acts d 0 s s'"
proof -
  note r = run_facts [OF assms(1,6)]
  have i: "0 < length (sy_phase s)" using r(3) by simp
  have run: "sy_handler s \<noteq> HandlerStopped" "sy_phase s ! 0 \<noteq> Stopped" using sole_runner [OF assms(1-6)] by simp_all
  have h: "sy_handler s = Idle" using run(1) restart_ends assms(7) by (cases "sy_handler s") blast+
  then have e: "su_events (sy_sup s) = []" using handler_takes assms(7) by (metis neq_Nil_conv)
  have "sy_watch s \<noteq> Watching True" using watcher_has_api [OF assms(6)] assms(4) by blast
  then have g: "\<not> gate_paused (su_gate (sy_sup s))" using r(1) h by (auto simp: system_ok_def gate_owned_def)
  show ?thesis
  proof (cases "sy_phase s ! 0")
    case AtGate
    with asks i show ?thesis by blast
  next
    case (Waiting k)
    have "gate_issued k (su_gate (sy_sup s))" using system_ok_at(3) [OF r(1) i] Waiting by (simp add: phase_ok_def)
    then have "recv_ready k (su_gate (sy_sup s))"
      using gate_ok_issued [of "su_gate (sy_sup s)" k] r(1) g by (auto simp: system_ok_def sup_ok_def gate_paused_def)
    with passes_gate i Waiting show ?thesis by blast
  next
    case (InRound j weight)
    with probes_on i show ?thesis by blast
  next
    case (Sleeping snap)
    with sleepers_wake [OF assms(1,2,6) i] show ?thesis by blast
  next
    case (Sending snap)
    with sends [OF i] e r(2) show ?thesis by simp
  qed (use run in simp)
qed

lemma fair_run_exists:
  assumes "launched [c] d st" "drawable [c] d" "honest_sleep d" "de_docker d = None" "\<And>w. de_ctx d w = None"
  shows "\<exists>f. fair_run d st f"
proof -
  define act where "act s s' \<longleftrightarrow> handler_acts d s s' \<or> \<not> (\<exists>u. handler_acts d s u) \<and> runner_acts d 0 s s'" for s s'
  have "\<exists>s'. act s s' \<and> reachable d st s'" if r: "reachable d st s" for s
  proof -
    obtain s' where s': "act s s'" using sole_move [OF assms r] by (auto simp: act_def)
    then have "sys_step d s s'" by (auto simp: act_def handler_acts_def runner_acts_def)
    with s' reach_step [OF r] show ?thesis by blast
  qed
  from dependent_nat_choice [of "\<lambda>n s. reachable d st s \<and> (n = 0 \<longrightarrow> s = system_start d st)" "\<lambda>n. act"] this reach_start
  obtain f where f: "\<And>n. reachable d st (f n)" "f 0 = system_start d st" "\<And>n. act (f n) (f (Suc n))"
    by (metis nat.distinct(1))
  have on: "\<not> cancelled d s" for s by (simp add: cancelled_def assms(5))
  have "strongly_fair (handler_acts d) f"
    unfolding strongly_fair_def using f(3) by (metis act_def)
  moreover have "strongly_fair (watcher_acts d) f"
  proof -
    have "\<not> watcher_acts d (f n) s'" for n s'
    proof
      assume "watcher_acts d (f n) s'"
      then have "sys_step d (f n) s'" "sy_watch s' \<noteq> sy_watch (f n)" by (auto simp: watcher_acts_def)
      then show False by (cases rule: sys_step.cases) (use assms(4) in \<open>auto simp: set_phase_def\<close>)
    qed
    then show ?thesis by (simp add: strongly_fair_def)
  qed
  moreover have "strongly_fair (runner_acts d i) f" for i
  proof (cases "i = 0")
    case True
    have "\<exists>m \<ge> n. runner_acts d 0 (f m) (f (Suc m))" for n
    proof (rule ccontr)
      assume "\<not> ?thesis"
      then have h: "handler_acts d (f m) (f (Suc m))" if "n \<le> m" for m using f(3) [of m] that by (auto simp: act_def)
      have "handler_load (f (n + k)) + k \<le> handler_load (f n)" for k
      proof (induction k)
        case (Suc k)
        with handler_unloads [OF h on, of "n + k"] show ?case by simp
      qed simp
      from this [of "Suc (handler_load (f n))"] show False by simp
    qed
    then show ?thesis using True by (simp add: strongly_fair_def)
  next
    case False
    have "\<not> runner_acts d i (f n) s'" for n s'
    proof
      assume "runner_acts d i (f n) s'"
      then have s': "sys_step d (f n) s'" "sy_phase s' ! i \<noteq> sy_phase (f n) ! i" by (auto simp: runner_acts_def)
      have "length (sy_phase (f n)) = 1" using run_facts(3) [OF assms(1) f(1), of n] by simp
      with s'(1) show False by (cases rule: sys_step.cases) (use s'(2) False in \<open>auto simp: set_phase_def\<close>)
    qed
    then show ?thesis by (simp add: strongly_fair_def)
  qed
  moreover have "sys_step d (f n) (f (Suc n))" for n
    using f(3) [of n] by (auto simp: act_def handler_acts_def runner_acts_def)
  ultimately show ?thesis using f(2) by (auto simp: fair_run_def)
qed

theorem every_check_probes_again_witness:
  "\<exists>f a b. fair_run demo_deps (demo_start ''nginx-mailcow'') f \<and> 7 \<le> a \<and> whole_round f 0 2 a b"
proof -
  let ?c = "demo_check ''nginx-mailcow'' :: unit live_check"
  have launch: "launched [?c] demo_deps (demo_start ''nginx-mailcow'')" by (rule launched_new [OF demo_new demo_check_ok])
  have iv: "list_all (\<lambda>c. interval_ok (ck_Interval c)) [?c]" by (simp add: in64_def interval_ok_def demo_check_def)
  have rnd: "0 \<le> de_rand demo_deps w n \<and> de_rand demo_deps w n < n" if "0 < n" for w :: unit and n
    using that by (simp add: demo_deps_def)
  have honest: "honest_sleep (demo_deps :: unit deps)" by (simp add: honest_sleep_def demo_deps_def)
  have on: "\<not> cancelled demo_deps s" for s :: "unit system" by (simp add: cancelled_def demo_deps_def)
  obtain f where f: "fair_run demo_deps (demo_start ''nginx-mailcow'') f"
    using fair_run_exists [OF launch interval_drawable [OF iv rnd] honest] by (auto simp: demo_deps_def)
  have "sy_watch (f n) \<noteq> Watching True" for n
  proof -
    from watcher_has_api [OF fair_reachable [OF f]] show ?thesis by (auto simp: demo_deps_def)
  qed
  then have "outages_end demo_deps f" by (simp add: outages_end_def)
  from every_check_probes_again [OF demo_new demo_check_ok iv rnd honest f on this, of 0 7]
  have "\<exists>a b. 7 \<le> a \<and> whole_round f 0 2 a b" by (simp add: demo_check_def numeral_2_eq_2)
  with f show ?thesis by blast
qed

end
