(* ===== verification/Spec2Isabelle.thy ===== *)
theory Spec2Isabelle
  imports Bans Lifecycle Ending Fair_Checks
begin

text \<open>
  A verification development of the mailcow watchdog.

  The program. cmd/watchdog/main.go loads the configuration from the environment, waits for MariaDB
  and Redis, builds some twenty checks and hands them to the supervisor. Each check runs in a
  goroutine of its own: it probes a service, charges the result to an error budget, sleeps, and when
  the budget is spent raises an event on a shared queue. One handler takes the events and either
  restarts the container through the Docker API or sends an alert; one watcher closes a gate in front
  of all checks while the Docker API is unreachable. Redis carries the log the mailcow UI shows and
  the throttle of the alerts.

  Conventions. A Go string is its list of bytes. A 64-bit int is an \<open>int\<close> whose arithmetic is
  wrapped by \<open>wrap64\<close> wherever the code can overflow; IP addresses are 32- and 128-bit words. An
  error is its text, a fallible call returns \<open>error + 'a\<close> or an optional error. The outside world is
  a type variable that the operations thread; what is not under src/ (the Redis, SQL, DNS, HTTP and
  TLS libraries, net/smtp, the decoders of encoding/json, parsers of time, URLs and addresses, the
  clock, random draws) is a field of a record of functions on it: \<open>redis_client\<close>, \<open>sqldb\<close>,
  \<open>dns_client\<close>, \<open>http\<close>, \<open>net\<close>, \<open>docker_client\<close>, \<open>transport\<close>, \<open>outside\<close>, \<open>platform\<close>. A deadline
  of a context shows as the failure it causes. A panic is a call that has no result: an operation
  that can panic returns an option, and the lemmas show where it does not.

  The theories, from the bottom, with the source files they translate.

  Go_Prelude, Go_Time, Json: the parts of Go's packages strings, strconv, time, encoding/json and
  net/url that the code relies on, exact on ASCII, and the lemmas about them that the components
  share. Go_Time formats dates; Json also holds the reader that states the round trips. Json_Values
  reads whole JSON texts, nested ones with white space and escapes included, and states what a
  webhook's receiver gets.

  Health (internal/health): the error budget of a check. \<open>Percent\<close> is the shell's rounding; the
  tracker's Record, Heal and Reset are shown equivalent to the shell's bookkeeping, bounded, and
  spent after exactly as many failing rounds as the budget pays for, a budget of one point included.
  Percent overflows for budgets above the largest int64 over 200, which Load accepts. The locale
  \<open>error_budget\<close> is the contract of a budget.

  Gate (internal/supervisor/gate.go): the channel-swapping pause gate, as a store of channels with
  the tickets its waiters hold. It refines a flag (\<open>pause_gate\<close>) and loses no wakeup.

  Checks (internal/check/check.go): intervals, the transcript, which events restart a container.

  Store, Storetest (internal/store): the operations on Redis and the log records, which read back as
  written; the throttle's contract \<open>reserver\<close>, discharged by the store over every Redis client that
  does what is documented of SET NX PX and PTTL for a positive expiry (\<open>redis_documented\<close>; nothing is
  said of other expiries, which mean something else there) and by the repository's own fake.

  Metrics (internal/metrics): the calls on the collectors, oldest first.

  Notify, Webhook, Mail (internal/notify): rendering, the fan-out, the throttled dispatcher and its
  two channels. Delivered alerts of one service keep the window's distance in every history of
  alerts over every such Redis; a template that is JSON, whatever its shape, is filled in value by
  value and stays JSON; a composed mail reads back, if no header field was given a line break.

  Dockerapi (internal/dockerapi): both dialects of the Docker API; a service is found by its exact
  label in both.

  Probe (internal/probe/probe.go): verdicts, prices, the recovery from a panicking probe, certificate
  expiry. The locale \<open>probe_contract\<close> states that a verdict is graded and priced, and every probe
  interprets it: Redis_Probes (redis.go), Tcp (tcp.go), Smtp_Probe (smtp.go), Imap (imap.go),
  Http_Probes (http.go, external.go, rspamd.go), Dns (dns.go), Mysql (mysql.go), Mailq (mailq.go).
  Their properties say when each probe accepts: an expectation met across any split into packets, an
  SMTP conversation that sends a prefix of its script and nothing else, one reply read per command,
  an address in a complete answer, a replica whose threads run, a count of every file in the spool.
  Ipv6 (ipv6.go) is the startup's test of the link.

  Whois (internal/whois): at most two questions, the second to the registry the first one names.

  Config (internal/config): Load and its validation; what loads is usable, and every malformed
  integer is named. Registry (internal/check/registry.go, resolver.go): the sleep windows and Build,
  with the probes' memories (the last ban list, the last report) in the record \<open>watch\<close> around the
  outside world.

  Runner, Supervisor (internal/supervisor): a round, the events, the handling of each kind of event
  with every outcome of a restart, the watcher's turns. Restarting holds its properties over
  Dockerapi's own client with any daemon behind it, one that fails included, and a log of the
  requests it sends (\<open>logged\<close>); \<open>docker_contract\<close> is what the supervisor relies on in it. Bans does so
  over an alert channel that records what it is told. System is the concurrent program: the goroutines as phases,
  one step per probe and per blocking operation (\<open>sys_step\<close>), and the invariants of every reachable
  state; a check's steps in a row are Runner's whole round. Lifecycle states what one check promises
  as a machine of its own, \<open>life_step\<close>, which the concurrent program refines for every runner.
  Shutdown is progress: only an outage of the Docker API stalls the checks, and once the context is
  done every goroutine returns within a bounded number of moves. Fair_Runs and Fair_Checks are about
  infinite runs in which the scheduler lets every goroutine move that can move again and again: the
  event of a spent budget is taken by the handler, and every check gets through whole rounds, from
  the gate to its pause, again and again as long as outages of the Docker API end. A probe is one
  step: that it returns is its timeout's part, which libraries enforce.

  Obs, Logging (internal/obs, internal/logging): the endpoints behind the readiness flag, and the
  logger's level. Startup (cmd/watchdog/main.go): run, from the environment to the system of
  System. Opening a connection gives a handle, and connect's list of closers is shown to hold exactly
  the handles opened, for every platform that keeps count of them (\<open>tracks_connections\<close>). What main
  starts are the enabled checks with the system's invariants, and its runners sleep as configured for
  every interval that loads, wrapped windows included; Ending shows that it stops when it is told to.

  Bounds. The invariants of System assume of a check that its threshold leaves room for a million
  points below the largest int64, that it has at most a thousand probes and that none charges more
  than a thousand points (\<open>check_ok\<close>); Build's checks have at most five probes of at most three
  points, so only the thresholds remain a hypothesis. An interval of System is one whose draw does
  not overflow (\<open>interval_ok\<close>), which holds of all windows of the registry. A peer's output is finite because every
  connection has a deadline: \<open>ne_reads\<close> and \<open>ne_lines\<close> list what arrives before it. The reader of
  a file tree recurses over the tree. The one loop without a bound is \<open>waitFor\<close>, a partial function:
  it returns exactly when an attempt succeeds or the context is done. No definition uses fuel;
  \<open>address_loop\<close> counts the ten attempts the code makes.

  Not modelled. Log lines of the program itself, since nothing reads them. Data races below the
  grain of one operation: a method that holds its mutex is one step. The transports and dialers
  inside the HTTP clients of the probes (which family or socket they pin; the reachability dials of
  the Docker client are modelled) and the sizes of the SQL pool, which only configure libraries. Text
  outside ASCII in the case mappings and in JSON's escaping of invalid UTF-8. Go's scheduler: that it
  is fair is a hypothesis of the two properties that need it (\<open>good_run\<close>). Serving of the metrics page, which is promhttp's. Test code.
\<close>

end
